(* ===== verification/Prelude.thy ===== *)
theory Prelude
  imports Main "HOL-Library.Char_ord" "HOL-Library.List_Lexorder"
begin

text \<open>
  Shared vocabulary of the development.

  \<^item> Computations with effects are state transformers with a sum result: \<open>Inl\<close> is the
    raised exception, \<open>Inr\<close> the returned value, and the state survives both, as the
    mutations a Python function made before it raised do.
  \<^item> Python strings are HOL strings: lists of characters, each the code point 0 to 255 of
    its number (the characters a header decoded as Latin-1 can carry).
  \<^item> The string methods the program calls (\<open>strip\<close>, \<open>lower\<close>, \<open>split\<close>,
    \<open>partition\<close>, \<open>lstrip\<close>) are written out over that alphabet.
\<close>

named_theorems monad_simps "equations that evaluate a step of an effectful computation"
named_theorems keeps_intros "rules for state components that a computation leaves alone"

section \<open>Effectful computations\<close>

type_synonym ('s, 'e, 'a) eff = "'s \<Rightarrow> ('e + 'a) \<times> 's"

definition returnE :: "'a \<Rightarrow> ('s, 'e, 'a) eff" where
  "returnE a s = (Inr a, s)"

definition throwE :: "'e \<Rightarrow> ('s, 'e, 'a) eff" where
  "throwE e s = (Inl e, s)"

definition liftE :: "'e + 'a \<Rightarrow> ('s, 'e, 'a) eff" where
  "liftE r s = (r, s)"

definition getE :: "('s \<Rightarrow> 'a) \<Rightarrow> ('s, 'e, 'a) eff" where
  "getE f s = (Inr (f s), s)"

definition modifyE :: "('s \<Rightarrow> 's) \<Rightarrow> ('s, 'e, unit) eff" where
  "modifyE f s = (Inr (), f s)"

definition bindE :: "('s, 'e, 'a) eff \<Rightarrow> ('a \<Rightarrow> ('s, 'e, 'b) eff) \<Rightarrow> ('s, 'e, 'b) eff" where
  "bindE m f s = (case m s of (Inl e, s') \<Rightarrow> (Inl e, s') | (Inr a, s') \<Rightarrow> f a s')"

definition thenE :: "('s, 'e, unit) eff \<Rightarrow> ('s, 'e, 'b) eff \<Rightarrow> ('s, 'e, 'b) eff" where
  "thenE m k = bindE m (\<lambda>_. k)"

definition whenE :: "bool \<Rightarrow> 'e \<Rightarrow> ('s, 'e, unit) eff" where
  "whenE c e = (if c then throwE e else returnE ())"

lemmas eff_defs = returnE_def throwE_def liftE_def getE_def modifyE_def bindE_def thenE_def
  whenE_def

lemma returnE_apply [simp, monad_simps]: "returnE a s = (Inr a, s)"
  by (simp add: returnE_def)

lemma throwE_apply [simp, monad_simps]: "throwE e s = (Inl e, s)"
  by (simp add: throwE_def)

lemma liftE_apply [simp, monad_simps]: "liftE r s = (r, s)"
  by (simp add: liftE_def)

lemma getE_apply [simp, monad_simps]: "getE f s = (Inr (f s), s)"
  by (simp add: getE_def)

lemma modifyE_apply [simp, monad_simps]: "modifyE f s = (Inr (), f s)"
  by (simp add: modifyE_def)

lemma whenE_apply [simp, monad_simps]: "whenE c e s = ((if c then Inl e else Inr ()), s)"
  by (simp add: whenE_def)

lemma bindE_Inl [monad_simps]: "m s = (Inl e, s') \<Longrightarrow> bindE m f s = (Inl e, s')"
  by (simp add: bindE_def)

lemma bindE_Inr [monad_simps]: "m s = (Inr a, s') \<Longrightarrow> bindE m f s = f a s'"
  by (simp add: bindE_def)

lemma thenE_Inl [monad_simps]: "m s = (Inl e, s') \<Longrightarrow> thenE m k s = (Inl e, s')"
  by (simp add: thenE_def bindE_def)

lemma thenE_Inr [monad_simps]: "m s = (Inr (), s') \<Longrightarrow> thenE m k s = k s'"
  by (simp add: thenE_def bindE_def)

text \<open>Inversion: a sequence returned only if both parts did.\<close>

lemma bindE_Inr_iff:
  "bindE m f s = (Inr b, s') \<longleftrightarrow> (\<exists>a t. m s = (Inr a, t) \<and> f a t = (Inr b, s'))"
  by (auto simp: bindE_def split: prod.splits sum.splits)

lemma thenE_Inr_iff:
  "thenE m k s = (Inr b, s') \<longleftrightarrow> (\<exists>t. m s = (Inr (), t) \<and> k t = (Inr b, s'))"
  by (auto simp: thenE_def bindE_Inr_iff)

lemma bindE_Inl_iff:
  "bindE m f s = (Inl e, s') \<longleftrightarrow>
    m s = (Inl e, s') \<or> (\<exists>a t. m s = (Inr a, t) \<and> f a t = (Inl e, s'))"
  by (auto simp: bindE_def split: prod.splits sum.splits)

lemma thenE_Inl_iff:
  "thenE m k s = (Inl e, s') \<longleftrightarrow>
    m s = (Inl e, s') \<or> (\<exists>t. m s = (Inr (), t) \<and> k t = (Inl e, s'))"
  by (auto simp: thenE_def bindE_Inl_iff)

lemma bindE_assoc: "bindE (bindE m f) g = bindE m (\<lambda>a. bindE (f a) g)"
  by (auto simp: bindE_def fun_eq_iff split: prod.splits sum.splits)

subsection \<open>Components of the state that a computation leaves alone\<close>

definition keeps :: "('s \<Rightarrow> 'x) \<Rightarrow> ('s \<Rightarrow> 'r \<times> 's) \<Rightarrow> bool" where
  "keeps g m \<longleftrightarrow> (\<forall>s. g (snd (m s)) = g s)"

lemma keepsI: "(\<And>s. g (snd (m s)) = g s) \<Longrightarrow> keeps g m"
  by (simp add: keeps_def)

lemma keepsD: "keeps g m \<Longrightarrow> g (snd (m s)) = g s"
  by (simp add: keeps_def)

lemma keepsE: "keeps g m \<Longrightarrow> m s = (r, s') \<Longrightarrow> g s' = g s"
  by (metis keeps_def snd_conv)

lemma keeps_returnE [keeps_intros]: "keeps g (returnE a)"
  and keeps_throwE [keeps_intros]: "keeps g (throwE e)"
  and keeps_liftE [keeps_intros]: "keeps g (liftE r)"
  and keeps_getE [keeps_intros]: "keeps g (getE f)"
  and keeps_whenE [keeps_intros]: "keeps g (whenE c e)"
  by (simp_all add: keeps_def)

lemma keeps_bindE [keeps_intros]:
  "keeps g m \<Longrightarrow> (\<And>a. keeps g (f a)) \<Longrightarrow> keeps g (bindE m f)"
  unfolding keeps_def bindE_def by (auto split: prod.splits sum.splits) (metis snd_conv)+

lemma keeps_thenE [keeps_intros]: "keeps g m \<Longrightarrow> keeps g k \<Longrightarrow> keeps g (thenE m k)"
  unfolding thenE_def by (rule keeps_bindE)

lemma keeps_if [keeps_intros]: "keeps g m \<Longrightarrow> keeps g m' \<Longrightarrow> keeps g (if c then m else m')"
  by simp

text \<open>More generally, how a computation may move the state: along a preorder.\<close>

definition moves :: "('s \<Rightarrow> 's \<Rightarrow> bool) \<Rightarrow> ('s \<Rightarrow> 'r \<times> 's) \<Rightarrow> bool" where
  "moves R m \<longleftrightarrow> (\<forall>s. R s (snd (m s)))"

lemma keeps_moves: "keeps g m \<longleftrightarrow> moves (\<lambda>s s'. g s' = g s) m"
  by (simp add: keeps_def moves_def)

lemma movesI: "(\<And>s. R s (snd (m s))) \<Longrightarrow> moves R m"
  by (simp add: moves_def)

lemma movesD: "moves R m \<Longrightarrow> R s (snd (m s))"
  by (simp add: moves_def)

lemma moves_bindE: "transp R \<Longrightarrow> moves R m \<Longrightarrow> (\<And>a. moves R (f a)) \<Longrightarrow> moves R (bindE m f)"
  unfolding moves_def bindE_def transp_def by (auto split: prod.splits sum.splits) (metis snd_conv)+

lemma moves_thenE: "transp R \<Longrightarrow> moves R m \<Longrightarrow> moves R k \<Longrightarrow> moves R (thenE m k)"
  unfolding thenE_def by (rule moves_bindE)

lemma reflp_keeps: "reflp (\<lambda>s s'. g s' = g s)" and transp_keeps: "transp (\<lambda>s s'. g s' = g s)"
  by (auto simp: reflp_def transp_def)

text \<open>\<open>x is not None and P(x)\<close>\<close>

definition opt_holds :: "('a \<Rightarrow> bool) \<Rightarrow> 'a option \<Rightarrow> bool" where
  "opt_holds P x = (case x of None \<Rightarrow> False | Some a \<Rightarrow> P a)"

lemma opt_holds_simps [simp]: "\<not> opt_holds P None" "opt_holds P (Some a) \<longleftrightarrow> P a"
  by (simp_all add: opt_holds_def)

lemma opt_holds_iff: "opt_holds P x \<longleftrightarrow> (\<exists>a. x = Some a \<and> P a)"
  by (cases x) auto

section \<open>Python strings\<close>

text \<open>\<open>str.isspace\<close> on the code points 0 to 255; the set that \<open>str.strip()\<close> removes.\<close>

definition py_space :: "char \<Rightarrow> bool" where
  "py_space c \<longleftrightarrow> (let n = of_char c :: nat in
     (9 \<le> n \<and> n \<le> 13) \<or> (28 \<le> n \<and> n \<le> 32) \<or> n = 133 \<or> n = 160)"

definition py_lstrip :: "string \<Rightarrow> string" where
  "py_lstrip s = dropWhile py_space s"

definition py_strip :: "string \<Rightarrow> string" where
  "py_strip s = rev (dropWhile py_space (rev (dropWhile py_space s)))"

text \<open>\<open>str.lower()\<close>: ASCII letters and the Latin-1 capitals, the multiplication sign excepted.\<close>

definition py_lower_char :: "char \<Rightarrow> char" where
  "py_lower_char c = (let n = of_char c :: nat in
     if (65 \<le> n \<and> n \<le> 90) \<or> (192 \<le> n \<and> n \<le> 222 \<and> n \<noteq> 215) then char_of (n + 32) else c)"

definition py_lower :: "string \<Rightarrow> string" where
  "py_lower s = map py_lower_char s"

definition is_digit :: "char \<Rightarrow> bool" where
  "is_digit c \<longleftrightarrow> (let n = of_char c :: nat in 48 \<le> n \<and> n \<le> 57)"

definition digit_val :: "char \<Rightarrow> nat" where
  "digit_val c = of_char c - 48"

definition digit_char :: "nat \<Rightarrow> char" where
  "digit_char d = char_of (d + 48)"

text \<open>\<open>s.split(c)\<close> for a one-character separator: never an empty list.\<close>

fun py_split :: "char \<Rightarrow> string \<Rightarrow> string list" where
  "py_split c [] = [[]]"
| "py_split c (x # xs) =
     (if x = c then [] # py_split c xs
      else (case py_split c xs of [] \<Rightarrow> [[x]] | p # ps \<Rightarrow> (x # p) # ps))"

text \<open>\<open>s.partition(c)\<close>: head, whether the separator occurs, tail.\<close>

fun py_partition :: "char \<Rightarrow> string \<Rightarrow> string \<times> bool \<times> string" where
  "py_partition c [] = ([], False, [])"
| "py_partition c (x # xs) =
     (if x = c then ([], True, xs)
      else (case py_partition c xs of (h, sep, t) \<Rightarrow> (x # h, sep, t)))"

definition py_lstrip_char :: "char \<Rightarrow> string \<Rightarrow> string" where
  "py_lstrip_char c s = dropWhile (\<lambda>x. x = c) s"

lemma is_digit_digit_char [simp]: "d < 10 \<Longrightarrow> is_digit (digit_char d)"
  by (simp add: is_digit_def digit_char_def Let_def)

lemma digit_val_digit_char [simp]: "d < 10 \<Longrightarrow> digit_val (digit_char d) = d"
  by (simp add: digit_val_def digit_char_def)

lemma digit_val_less: "is_digit c \<Longrightarrow> digit_val c < 10"
  by (auto simp: is_digit_def digit_val_def Let_def)

lemma py_split_nonempty [simp]: "py_split c s \<noteq> []"
  by (induction s) (auto split: list.splits)

lemma py_split_no_sep: "c \<notin> set s \<Longrightarrow> py_split c s = [s]"
  by (induction s) auto

lemma py_split_parts: "p \<in> set (py_split c s) \<Longrightarrow> c \<notin> set p"
proof (induction s arbitrary: p)
  case Nil
  then show ?case by simp
next
  case (Cons x xs)
  then show ?case
    by (cases "x = c"; cases "py_split c xs") (auto split: list.splits)
qed

lemma py_partition_found:
  "py_partition c s = (h, sep, t) \<Longrightarrow> s = h @ (if sep then c # t else []) \<and> c \<notin> set h"
  by (induction s arbitrary: h sep t) (auto split: if_splits prod.splits)

lemma py_partition_no: "c \<notin> set s \<Longrightarrow> py_partition c s = (s, False, [])"
  by (induction s) auto

lemma py_partition_append: "c \<notin> set s \<Longrightarrow> py_partition c (s @ c # t) = (s, True, t)"
  by (induction s) auto

lemma py_lstrip_char_head: "py_lstrip_char c s = x # xs \<Longrightarrow> x \<noteq> c"
  unfolding py_lstrip_char_def by (auto simp: dropWhile_eq_Cons_conv)

end
