(* ===== verification/Py_Float.thy ===== *)
theory Py_Float
  imports Prelude Complex_Main "HOL-Library.Log_Nat"
begin

text \<open>
  Python's numbers: unbounded integers and IEEE-754 doubles. A finite double is the rational
  number it stands for; \<open>round_double\<close> is the correctly rounded conversion (round half
  to even, 53 bits, least exponent -1074, overflow to an infinity) that every float operation
  of the program ends with. The two zeros are identified.
\<close>

section \<open>Integer logarithm of a positive rational\<close>

text \<open>The largest \<open>k\<close> with \<open>B ^ k \<le> q\<close>, computed from the lengths of both parts of the fraction.\<close>

definition ilog :: "nat \<Rightarrow> rat \<Rightarrow> int" where
  "ilog B q = (let (a, b) = quotient_of q;
                   k = int (floorlog B (nat a)) - int (floorlog B (nat b))
               in if (of_nat B :: rat) powi k \<le> q then k else k - 1)"

abbreviation ilog2 :: "rat \<Rightarrow> int" where
  "ilog2 \<equiv> ilog 2"

lemma floorlog_bounds_powi:
  assumes "0 < (a::int)" "1 < B"
  shows "(of_nat B :: rat) powi (int (floorlog B (nat a)) - 1) \<le> of_int a"
    and "(of_int a :: rat) < of_nat B powi (int (floorlog B (nat a)))"
proof -
  let ?f = "floorlog B (nat a)"
  have b: "B ^ (?f - 1) \<le> nat a" "nat a < B ^ ?f"
    using floorlog_bounds[of "nat a" B] assms by auto
  have f: "0 < ?f" using assms floorlog_eq_zero_iff[of B "nat a"] by simp
  have "(of_nat (B ^ (?f - 1)) :: rat) \<le> of_nat (nat a)" using b(1) of_nat_le_iff by blast
  moreover have e: "(of_nat (nat a) :: rat) = of_int a" using assms(1) by simp
  moreover have "(of_nat B :: rat) powi (int ?f - 1) = of_nat B ^ (?f - 1)"
    using f by (simp add: power_int_def nat_diff_distrib)
  ultimately show "(of_nat B :: rat) powi (int ?f - 1) \<le> of_int a" by simp
  have "(of_nat (nat a) :: rat) < of_nat (B ^ ?f)" using b(2) of_nat_less_iff by blast
  then show "(of_int a :: rat) < of_nat B powi (int ?f)" using e by (simp add: power_int_def)
qed

lemma ilog_bounds:
  assumes "0 < q" "1 < B"
  shows "(of_nat B :: rat) powi (ilog B q) \<le> q" and "q < of_nat B powi (ilog B q + 1)"
proof -
  obtain a b where ab: "quotient_of q = (a, b)" by fastforce
  have b: "0 < b" using ab by (rule quotient_of_denom_pos)
  have q: "q = of_int a / of_int b" using ab by (rule quotient_of_div)
  have a: "0 < a" using assms(1) b unfolding q by (simp add: zero_less_divide_iff)
  let ?B = "of_nat B :: rat"
  define la lb k where "la = int (floorlog B (nat a))" and "lb = int (floorlog B (nat b))"
    and "k = la - lb"
  have B0: "?B \<noteq> 0" "0 < ?B" using assms(2) by auto
  note A = floorlog_bounds_powi[OF a assms(2), folded la_def]
  note C = floorlog_bounds_powi[OF b assms(2), folded lb_def]
  have pb: "(0::rat) < of_int b" using b by simp
  have up: "q < ?B powi (k + 1)"
  proof -
    have "?B powi (k + 1) * ?B powi (lb - 1) = ?B powi la"
      using B0 by (simp add: power_int_add[symmetric] k_def)
    moreover have "?B powi (k + 1) * ?B powi (lb - 1) \<le> ?B powi (k + 1) * of_int b"
      using C(1) B0 by (intro mult_left_mono) auto
    ultimately have "(of_int a :: rat) < ?B powi (k + 1) * of_int b" using A(2) by linarith
    then show ?thesis unfolding q using pb by (simp add: pos_divide_less_eq)
  qed
  have lo: "?B powi (k - 1) \<le> q"
  proof -
    have "?B powi (k - 1) * ?B powi lb = ?B powi (la - 1)"
      using B0 by (simp add: power_int_add[symmetric] k_def)
    moreover have "?B powi (k - 1) * of_int b \<le> ?B powi (k - 1) * ?B powi lb"
      using C(2) B0 by (intro mult_left_mono) auto
    ultimately have "?B powi (k - 1) * of_int b \<le> of_int a" using A(1) by linarith
    then show ?thesis unfolding q using pb by (simp add: pos_le_divide_eq)
  qed
  show "?B powi (ilog B q) \<le> q" and "q < ?B powi (ilog B q + 1)"
    using up lo by (auto simp: ilog_def ab Let_def la_def[symmetric] lb_def[symmetric] k_def[symmetric])
qed

lemmas ilog2_bounds = ilog_bounds [where B = 2, simplified]

lemma powi_two_less_cancel: "(2::rat) powi i < 2 powi j \<Longrightarrow> i < j"
  by (metis leD not_less one_le_numeral power_int_increasing)

lemma ilog2_mono:
  assumes "0 < p" "p \<le> q"
  shows "ilog2 p \<le> ilog2 q"
proof -
  have "2 powi (ilog2 p) < (2::rat) powi (ilog2 q + 1)"
    using ilog2_bounds[of p] ilog2_bounds[of q] assms by linarith
  from powi_two_less_cancel[OF this] show ?thesis by simp
qed


section \<open>Rounding\<close>

text \<open>Round half to even, on the integers.\<close>

definition rhe :: "rat \<Rightarrow> int" where
  "rhe q = (let n = \<lfloor>q\<rfloor>; d = q - of_int n
            in if d < 1 / 2 then n else if 1 / 2 < d then n + 1
               else if even n then n else n + 1)"

lemma rhe_of_int [simp]: "rhe (of_int n) = n"
  by (simp add: rhe_def)

lemma rhe_bounds: "\<lfloor>q\<rfloor> \<le> rhe q" "rhe q \<le> \<lfloor>q\<rfloor> + 1"
  by (auto simp: rhe_def Let_def)

lemma rhe_near: "\<bar>of_int (rhe q) - q\<bar> \<le> 1 / 2"
proof -
  have "of_int \<lfloor>q\<rfloor> \<le> q" "q < of_int \<lfloor>q\<rfloor> + 1" by linarith+
  then have "of_int (rhe q) - q \<le> 1 / 2 \<and> q - of_int (rhe q) \<le> 1 / 2"
    by (simp add: rhe_def Let_def not_less) linarith
  then show ?thesis by linarith
qed

lemma rhe_mono:
  assumes "p \<le> q"
  shows "rhe p \<le> rhe q"
proof (cases "\<lfloor>p\<rfloor> = \<lfloor>q\<rfloor>")
  case True
  then show ?thesis using assms by (auto simp: rhe_def Let_def)
next
  case False
  then have "\<lfloor>p\<rfloor> + 1 \<le> \<lfloor>q\<rfloor>" using floor_mono[OF assms] by linarith
  then show ?thesis using rhe_bounds[of p] rhe_bounds[of q] by linarith
qed

lemma rhe_ge: "of_int n \<le> q \<Longrightarrow> n \<le> rhe q"
  using rhe_mono[of "of_int n" q] by simp

lemma rhe_le: "q \<le> of_int n \<Longrightarrow> rhe q \<le> n"
  using rhe_mono[of q "of_int n"] by simp

text \<open>The exponent of the last bit kept, and the rounded magnitude.\<close>

definition ulp_exp :: "rat \<Rightarrow> int" where
  "ulp_exp q = max (ilog2 q - 52) (- 1074)"

definition round_mag :: "rat \<Rightarrow> rat" where
  "round_mag q = of_int (rhe (q / 2 powi ulp_exp q)) * 2 powi ulp_exp q"

lemma ulp_exp_mono: "0 < p \<Longrightarrow> p \<le> q \<Longrightarrow> ulp_exp p \<le> ulp_exp q"
  using ilog2_mono[of p q] by (simp add: ulp_exp_def)

lemma scaled_upper:
  assumes "0 < q"
  shows "q / 2 powi ulp_exp q \<le> of_int (2 ^ 53)"
proof -
  have "q < 2 powi (ilog2 q + 1)" by (rule ilog2_bounds(2)[OF assms])
  also have "(2::rat) powi (ilog2 q + 1) \<le> 2 powi (53 + ulp_exp q)"
    by (rule power_int_increasing) (auto simp: ulp_exp_def)
  also have "(2::rat) powi (53 + ulp_exp q) = 2 ^ 53 * 2 powi ulp_exp q"
    by (subst power_int_add) (simp_all add: power_int_numeral)
  finally show ?thesis by (simp add: pos_divide_le_eq)
qed

lemma scaled_lower:
  assumes "0 < q" and "- 1074 < ulp_exp q"
  shows "of_int (2 ^ 52) \<le> q / 2 powi ulp_exp q"
proof -
  have e: "ulp_exp q = ilog2 q - 52" using assms(2) by (auto simp: ulp_exp_def)
  have "of_int (2 ^ 52) * (2::rat) powi ulp_exp q = 2 powi 52 * 2 powi ulp_exp q"
    by (simp add: power_int_numeral)
  also have "\<dots> = 2 powi (52 + (ilog2 q - 52))"
    unfolding e by (rule power_int_add[symmetric]) simp
  also have "\<dots> = 2 powi (ilog2 q)" by simp
  also have "\<dots> \<le> q" by (rule ilog2_bounds(1)[OF assms(1)])
  finally show ?thesis by (simp add: pos_le_divide_eq)
qed

lemma round_mag_mono:
  assumes "0 < p" "p \<le> q"
  shows "round_mag p \<le> round_mag q"
proof (cases "ulp_exp p = ulp_exp q")
  case True
  have "p / 2 powi ulp_exp p \<le> q / 2 powi ulp_exp q"
    using assms(2) by (simp add: True divide_right_mono)
  from rhe_mono[OF this] show ?thesis by (simp add: round_mag_def True)
next
  case False
  then have lt: "ulp_exp p + 1 \<le> ulp_exp q" using ulp_exp_mono[OF assms] by linarith
  have q0: "0 < q" using assms by linarith
  have gt: "- 1074 < ulp_exp q" using lt by (auto simp: ulp_exp_def)
  have "of_int (rhe (p / 2 powi ulp_exp p)) \<le> (of_int (2 ^ 53) :: rat)"
    using rhe_le[OF scaled_upper[OF assms(1)]] of_int_le_iff by blast
  then have "round_mag p \<le> of_int (2 ^ 53) * 2 powi ulp_exp p"
    unfolding round_mag_def by (rule mult_right_mono) simp
  also have "\<dots> = of_int (2 ^ 52) * 2 powi (ulp_exp p + 1)"
    by (simp add: power_int_add)
  also have "\<dots> \<le> of_int (2 ^ 52) * 2 powi ulp_exp q"
    using power_int_increasing[OF lt, of "2::rat"] by simp
  also have "\<dots> \<le> round_mag q"
    unfolding round_mag_def
    using rhe_ge[OF scaled_lower[OF q0 gt]] of_int_le_iff by (intro mult_right_mono) auto
  finally show ?thesis .
qed

lemma round_mag_nonneg: "0 < q \<Longrightarrow> 0 \<le> round_mag q"
proof -
  assume "0 < q"
  then have "0 \<le> rhe (q / 2 powi ulp_exp q)" by (intro rhe_ge) simp
  then show ?thesis by (simp add: round_mag_def)
qed

text \<open>A number with at most 53 significant bits above the least exponent rounds to itself.\<close>

lemma round_mag_exact:
  assumes "0 < m" "m \<le> 2 ^ 53" "- 1074 \<le> e"
  shows "round_mag (of_int m * 2 powi e) = of_int m * 2 powi e"
proof -
  let ?q = "of_int m * (2::rat) powi e"
  have q0: "0 < ?q" using assms(1) by simp
  have ee: "ulp_exp ?q \<le> e \<or> m = 2 ^ 53"
  proof (cases "m = 2 ^ 53")
    case False
    then have "m < 2 ^ 53" using assms(2) by simp
    then have m: "(of_int m :: rat) < 2 powi 53"
      by (simp add: power_int_def)
    have "2 powi (ilog2 ?q) \<le> ?q" by (rule ilog2_bounds(1)[OF q0])
    also have "\<dots> < 2 powi 53 * 2 powi e" using m by simp
    also have "\<dots> = (2::rat) powi (53 + e)" by (simp add: power_int_add)
    finally have "ilog2 ?q < 53 + e" by (rule powi_two_less_cancel)
    then show ?thesis using assms(3) by (simp add: ulp_exp_def)
  qed simp
  have "\<exists>n::int. ?q / 2 powi ulp_exp ?q = of_int n"
  proof (cases "ulp_exp ?q \<le> e")
    case True
    then have "?q / 2 powi ulp_exp ?q = of_int m * 2 powi (e - ulp_exp ?q)"
      by (simp add: power_int_diff)
    also have "\<dots> = of_int (m * 2 ^ nat (e - ulp_exp ?q))"
      using True by (simp add: power_int_def)
    finally show ?thesis by blast
  next
    case False
    with ee have m: "m = 2 ^ 53" by simp
    have qq: "?q = 2 powi (53 + e)"
      by (subst power_int_add) (simp_all add: m power_int_numeral)
    have "(2::rat) powi (ilog2 ?q) \<le> 2 powi (53 + e)"
      using ilog2_bounds(1)[OF q0] qq by simp
    then have "ilog2 ?q \<le> 53 + e"
      by (metis leI powi_two_less_cancel linorder_not_le power_int_strict_increasing
          one_less_numeral_iff semiring_norm(76))
    then have u: "ulp_exp ?q \<le> e + 1" using assms(3) by (simp add: ulp_exp_def)
    have "?q / 2 powi ulp_exp ?q = 2 powi (53 + e - ulp_exp ?q)"
      by (subst (1) qq) (simp add: power_int_diff)
    also have "\<dots> = of_int (2 ^ nat (53 + e - ulp_exp ?q))"
      using u by (simp add: power_int_def)
    finally show ?thesis by blast
  qed
  then obtain n :: int where n: "?q / 2 powi ulp_exp ?q = of_int n" by blast
  then have "?q = of_int n * 2 powi ulp_exp ?q" by (simp add: divide_eq_eq)
  then show ?thesis by (simp add: round_mag_def n)
qed

lemma round_mag_form:
  assumes "0 < q"
  obtains m e where "round_mag q = of_int m * 2 powi e" "0 \<le> m" "m \<le> 2 ^ 53" "- 1074 \<le> e"
proof
  show "round_mag q = of_int (rhe (q / 2 powi ulp_exp q)) * 2 powi ulp_exp q"
    by (simp add: round_mag_def)
  show "0 \<le> rhe (q / 2 powi ulp_exp q)" using assms by (intro rhe_ge) simp
  show "rhe (q / 2 powi ulp_exp q) \<le> 2 ^ 53"
    using rhe_le[OF scaled_upper[OF assms]] .
qed (simp add: ulp_exp_def)

lemma round_mag_idem: "0 < q \<Longrightarrow> 0 < round_mag q \<Longrightarrow> round_mag (round_mag q) = round_mag q"
  by (metis (no_types, lifting) linorder_not_le mult_eq_0_iff of_int_0 order_le_less
      round_mag_exact round_mag_form)


section \<open>Doubles\<close>

datatype pyfloat = Fin rat | PosInf | NegInf | NaN

definition round_double :: "rat \<Rightarrow> pyfloat" where
  "round_double q =
    (if q = 0 then Fin 0
     else let r = round_mag \<bar>q\<bar>
          in if 2 ^ 1024 \<le> r then (if 0 < q then PosInf else NegInf)
             else Fin (if 0 < q then r else - r))"

text \<open>The rationals that are doubles.\<close>

definition is_double :: "rat \<Rightarrow> bool" where
  "is_double q \<longleftrightarrow> round_double q = Fin q"

text \<open>Python's \<open><\<close> on floats: false whenever a NaN is involved.\<close>

fun flt :: "pyfloat \<Rightarrow> pyfloat \<Rightarrow> bool" where
  "flt (Fin a) (Fin b) = (a < b)"
| "flt (Fin a) PosInf = True"
| "flt NegInf (Fin b) = True"
| "flt NegInf PosInf = True"
| "flt _ _ = False"

text \<open>Python's \<open>x <= y\<close>, which is \<open>y >= x\<close>.\<close>

definition fle :: "pyfloat \<Rightarrow> pyfloat \<Rightarrow> bool" where
  "fle x y \<longleftrightarrow> flt x y \<or> (x = y \<and> x \<noteq> NaN)"

fun fneg :: "pyfloat \<Rightarrow> pyfloat" where
  "fneg (Fin a) = Fin (- a)"
| "fneg PosInf = NegInf"
| "fneg NegInf = PosInf"
| "fneg NaN = NaN"

fun fadd :: "pyfloat \<Rightarrow> pyfloat \<Rightarrow> pyfloat" where
  "fadd (Fin a) (Fin b) = round_double (a + b)"
| "fadd NaN y = NaN"
| "fadd x NaN = NaN"
| "fadd PosInf NegInf = NaN"
| "fadd NegInf PosInf = NaN"
| "fadd PosInf y = PosInf"
| "fadd NegInf y = NegInf"
| "fadd x PosInf = PosInf"
| "fadd x NegInf = NegInf"

definition fsub :: "pyfloat \<Rightarrow> pyfloat \<Rightarrow> pyfloat" where
  "fsub x y = fadd x (fneg y)"

lemma fsub_Fin [simp]: "fsub (Fin a) (Fin b) = round_double (a - b)"
  by (simp add: fsub_def)

lemma fle_Fin [simp]: "fle (Fin a) (Fin b) \<longleftrightarrow> a \<le> b"
  by (auto simp: fle_def)

lemma fle_iff_not_flt: "x \<noteq> NaN \<Longrightarrow> y \<noteq> NaN \<Longrightarrow> fle x y \<longleftrightarrow> \<not> flt y x"
  by (cases x; cases y) (auto simp: fle_def)

lemma round_double_not_NaN [simp]: "round_double q \<noteq> NaN"
  by (simp add: round_double_def Let_def)

lemma round_double_uminus: "round_double (- q) = fneg (round_double q)"
  by (auto simp: round_double_def Let_def)

lemma round_double_pos:
  "0 < q \<Longrightarrow> round_double q = (if 2 ^ 1024 \<le> round_mag q then PosInf else Fin (round_mag q))"
  by (simp add: round_double_def Let_def)

lemma flt_fneg: "flt (fneg x) (fneg y) \<longleftrightarrow> flt y x"
  by (cases x; cases y) auto

text \<open>Rounding is monotone.\<close>

lemma round_double_mono_pos: "0 < x \<Longrightarrow> x \<le> y \<Longrightarrow> \<not> flt (round_double y) (round_double x)"
  using round_mag_mono[of x y] by (auto simp: round_double_pos)

lemma round_double_nonneg: "0 < x \<Longrightarrow> \<not> flt (round_double x) (Fin 0)"
  using round_mag_nonneg[of x] by (auto simp: round_double_pos)

lemma round_double_sign: "x \<le> 0 \<Longrightarrow> 0 \<le> y \<Longrightarrow> \<not> flt (round_double y) (round_double x)"
  using round_mag_nonneg[of y] round_mag_nonneg[of "- x"]
  by (auto simp: round_double_def Let_def abs_if)

lemma round_double_mono:
  assumes "x \<le> y"
  shows "\<not> flt (round_double y) (round_double x)"
proof -
  consider "0 < x" | "x \<le> 0" "0 \<le> y" | "y < 0" by linarith
  then show ?thesis
  proof cases
    case 1
    then show ?thesis using assms by (rule round_double_mono_pos)
  next
    case 2
    then show ?thesis by (rule round_double_sign)
  next
    case 3
    with assms have "\<not> flt (round_double (- x)) (round_double (- y))"
      by (intro round_double_mono_pos) auto
    then show ?thesis by (simp add: round_double_uminus flt_fneg)
  qed
qed

text \<open>Rounding returns a double, and leaves doubles alone.\<close>

lemma is_double_0 [simp]: "is_double 0"
  by (simp add: is_double_def round_double_def)

lemma is_double_uminus [simp]: "is_double (- q) \<longleftrightarrow> is_double q"
proof -
  have "fneg (round_double q) = Fin (- q) \<longleftrightarrow> round_double q = Fin q"
    by (cases "round_double q") auto
  then show ?thesis by (simp add: is_double_def round_double_uminus)
qed

lemma round_double_Fin_is_double:
  assumes "round_double q = Fin r"
  shows "is_double r"
proof -
  have pos: "is_double r" if q: "0 < q" and e: "round_double q = Fin r" for q r
  proof (cases "round_mag q = 0")
    case True
    then show ?thesis using e round_double_pos[OF q] by (simp split: if_splits)
  next
    case False
    then have "0 < round_mag q" using round_mag_nonneg[OF q] by linarith
    then show ?thesis
      using e round_double_pos[OF q] round_mag_idem[OF q]
      by (auto simp: is_double_def round_double_pos split: if_splits)
  qed
  consider "q = 0" | "0 < q" | "q < 0" by linarith
  then show ?thesis
  proof cases
    case 1
    then show ?thesis using assms by (simp add: round_double_def)
  next
    case 2
    then show ?thesis using assms pos by blast
  next
    case 3
    have "round_double (- q) = Fin (- r)" using assms by (simp add: round_double_uminus)
    moreover have "0 < - q" using 3 by simp
    ultimately have "is_double (- r)" by (rule pos [rotated])
    then show ?thesis by simp
  qed
qed

text \<open>Every integer of at most 53 bits is a double; so is every dyadic of that many bits.\<close>

lemma is_double_dyadic:
  assumes "\<bar>m\<bar> \<le> 2 ^ 53" "- 1074 \<le> e" "e \<le> 900"
  shows "is_double (of_int m * 2 powi e)"
proof -
  have pos: "is_double (of_int m * 2 powi e)" if m: "0 < m" "m \<le> 2 ^ 53" for m
  proof -
    have e: "(2::rat) powi e \<le> 2 powi 900"
      by (rule power_int_increasing[OF assms(3)]) auto
    have "of_int m * (2::rat) powi e \<le> of_int (2 ^ 53) * 2 powi 900"
      by (rule mult_mono[OF _ e]) (use m(2) of_int_le_iff in blast, auto)
    also have "\<dots> < (2::rat) ^ 1024" by (simp add: power_int_numeral)
    finally show ?thesis
      using m round_mag_exact[OF m assms(2)] by (simp add: is_double_def round_double_pos)
  qed
  consider "m = 0" | "0 < m" | "m < 0" by linarith
  then show ?thesis
  proof cases
    case 3
    then have "is_double (of_int (- m) * 2 powi e)" using assms(1) by (intro pos) auto
    then show ?thesis by simp
  qed (use pos assms in auto)
qed

lemma is_double_int: "\<bar>m\<bar> \<le> 2 ^ 53 \<Longrightarrow> is_double (of_int m)"
  using is_double_dyadic[of m 0] by simp

lemma is_double_numeral:
  "numeral k \<le> (2 ^ 53 :: int) \<Longrightarrow> is_double (numeral k)"
  using is_double_int[of "numeral k"] by simp

lemma is_double_1 [simp]: "is_double 1"
  using is_double_int[of 1] by simp

lemma round_double_numeral:
  "numeral k \<le> (2 ^ 53 :: int) \<Longrightarrow> round_double (numeral k) = Fin (numeral k)"
  using is_double_numeral[of k] by (simp add: is_double_def)

text \<open>
  The comparison a sliding window makes, \<open>t < now - w\<close> with a rounded difference, never
  cuts off a time that lies in the exact window: rounding cannot jump over a double.
\<close>

lemma exact_window:
  assumes "is_double t" "now - w \<le> t"
  shows "\<not> flt (Fin t) (fsub (Fin now) (Fin w))"
  using round_double_mono[OF assms(2)] assms(1) by (simp add: is_double_def)

lemma flt_trans: "flt x y \<Longrightarrow> flt y z \<Longrightarrow> flt x z"
  by (cases x; cases y; cases z) auto

lemma not_flt_trans: "y \<noteq> NaN \<Longrightarrow> \<not> flt y x \<Longrightarrow> \<not> flt z y \<Longrightarrow> \<not> flt z x"
  by (cases x; cases y; cases z) auto

section \<open>Numbers that are an int or a float\<close>

datatype pynum = NInt int | NFloat pyfloat

text \<open>Python compares an int with a float exactly.\<close>

fun num_val :: "pynum \<Rightarrow> pyfloat" where
  "num_val (NInt n) = Fin (of_int n)"
| "num_val (NFloat x) = x"

definition num_lt :: "pynum \<Rightarrow> pynum \<Rightarrow> bool" where
  "num_lt x y = flt (num_val x) (num_val y)"

text \<open>\<open>float(n)\<close> of an int: \<open>OverflowError\<close> (None) beyond the largest double.\<close>

definition float_of_int :: "int \<Rightarrow> pyfloat option" where
  "float_of_int n = (case round_double (of_int n) of Fin x \<Rightarrow> Some (Fin x) | _ \<Rightarrow> None)"

fun fisfinite :: "pyfloat \<Rightarrow> bool" where
  "fisfinite (Fin x) = True"
| "fisfinite _ = False"

lemma fisfinite_iff: "fisfinite x \<longleftrightarrow> (\<exists>q. x = Fin q)"
  by (cases x) auto

end
