(* ===== verification/Py_Text.thy ===== *)
theory Py_Text
  imports Py_Float
begin

text \<open>
  The text forms of Python's numbers and strings that reach the program's outputs or are
  read from its inputs: \<open>str(int)\<close>, \<open>repr(float)\<close> (the shortest decimal that reads
  back as the same double), the \<open>:g\<close> format, \<open>repr(str)\<close>, and the constructors
  \<open>int(s)\<close> and \<open>float(s)\<close> on a string.
\<close>

section \<open>Decimal digits\<close>

fun str_of_nat :: "nat \<Rightarrow> string" where
  "str_of_nat n = (if n < 10 then [digit_char n] else str_of_nat (n div 10) @ [digit_char (n mod 10)])"

declare str_of_nat.simps [simp del]

definition nat_of_digits :: "string \<Rightarrow> nat" where
  "nat_of_digits s = foldl (\<lambda>n c. 10 * n + digit_val c) 0 s"

definition str_of_int :: "int \<Rightarrow> string" where
  "str_of_int n = (if n < 0 then CHR ''-'' # str_of_nat (nat (- n)) else str_of_nat (nat n))"

lemma nat_of_digits_append [simp]: "nat_of_digits (s @ [c]) = 10 * nat_of_digits s + digit_val c"
  by (simp add: nat_of_digits_def)

lemma nat_of_digits_Nil [simp]: "nat_of_digits [] = 0"
  by (simp add: nat_of_digits_def)

lemma nat_of_digits_str_of_nat [simp]: "nat_of_digits (str_of_nat n) = n"
proof (induction n rule: str_of_nat.induct)
  case (1 n)
  then show ?case
    by (cases "n < 10")
      (simp_all add: str_of_nat.simps[of n] nat_of_digits_def digit_val_digit_char)
qed

lemma str_of_nat_digits: "\<forall>c \<in> set (str_of_nat n). is_digit c"
proof (induction n rule: str_of_nat.induct)
  case (1 n)
  then show ?case
    by (cases "n < 10") (simp_all add: str_of_nat.simps[of n])
qed

lemma str_of_nat_nonempty [simp]: "str_of_nat n \<noteq> []"
  by (subst str_of_nat.simps) simp

lemma is_digit_dash [simp]: "\<not> is_digit CHR ''-''"
  by (simp add: is_digit_def)

lemma str_of_nat_inj: "str_of_nat m = str_of_nat n \<longleftrightarrow> m = n"
  by (metis nat_of_digits_str_of_nat)

lemma str_of_nat_no_dash: "CHR ''-'' # s \<noteq> str_of_nat n"
  by (metis is_digit_dash list.set_intros(1) str_of_nat_digits)

lemma str_of_int_inj: "str_of_int m = str_of_int n \<longleftrightarrow> m = n"
  using str_of_nat_no_dash str_of_nat_no_dash[symmetric]
  by (auto simp: str_of_int_def str_of_nat_inj split: if_splits)

section \<open>Reading numbers\<close>

text \<open>
  Underscores are accepted between two digits only, and dropped; the flag says whether the
  character before was a digit.
\<close>

fun drop_underscores :: "bool \<Rightarrow> string \<Rightarrow> string option" where
  "drop_underscores d [] = Some []"
| "drop_underscores d (c # cs) =
     (if c = CHR ''_'' then
        (case cs of
           [] \<Rightarrow> None
         | c' # _ \<Rightarrow> if d \<and> is_digit c' then drop_underscores False cs else None)
      else map_option ((#) c) (drop_underscores (is_digit c) cs))"

definition split_sign :: "string \<Rightarrow> bool \<times> string" where
  "split_sign s = (case s of
     [] \<Rightarrow> (False, [])
   | c # cs \<Rightarrow> if c = CHR ''-'' then (True, cs) else if c = CHR ''+'' then (False, cs) else (False, s))"

text \<open>
  \<open>int(s)\<close> in base ten; None is \<open>ValueError\<close>. Python refuses more than 4300 digits.
\<close>

definition int_of_string :: "string \<Rightarrow> int option" where
  "int_of_string s =
    (case split_sign (py_strip s) of (neg, body) \<Rightarrow>
      (case drop_underscores False body of
         None \<Rightarrow> None
       | Some ds \<Rightarrow>
           if ds \<noteq> [] \<and> list_all is_digit ds \<and> length ds \<le> 4300
           then Some (if neg then - int (nat_of_digits ds) else int (nat_of_digits ds))
           else None))"

text \<open>An unsigned decimal literal with optional fraction and exponent: its exact value.\<close>

definition parse_exponent :: "string \<Rightarrow> int option" where
  "parse_exponent s = (case s of
     [] \<Rightarrow> Some 0
   | c # r \<Rightarrow>
       if c = CHR ''e'' \<or> c = CHR ''E'' then
         (case split_sign r of (neg, ds) \<Rightarrow>
           if ds \<noteq> [] \<and> list_all is_digit ds
           then Some (if neg then - int (nat_of_digits ds) else int (nat_of_digits ds))
           else None)
       else None)"

definition parse_decimal :: "string \<Rightarrow> rat option" where
  "parse_decimal s =
    (let ip = takeWhile is_digit s; r1 = dropWhile is_digit s;
         (fp, r2) = (case r1 of
             [] \<Rightarrow> ([], [])
           | c # r \<Rightarrow> if c = CHR ''.'' then (takeWhile is_digit r, dropWhile is_digit r) else ([], r1))
     in if ip @ fp = [] then None
        else (case parse_exponent r2 of
                None \<Rightarrow> None
              | Some e \<Rightarrow> Some (of_nat (nat_of_digits (ip @ fp)) * 10 powi (e - int (length fp)))))"

text \<open>\<open>float(s)\<close>; None is \<open>ValueError\<close>. Surrounding white space is dropped first.\<close>

definition parse_float :: "string \<Rightarrow> pyfloat option" where
  "parse_float s =
    (case drop_underscores False (py_strip s) of
       None \<Rightarrow> None
     | Some t \<Rightarrow>
        (case split_sign t of (neg, body) \<Rightarrow>
          (let low = py_lower body; sgn = (\<lambda>x. if neg then fneg x else x)
           in if low = ''inf'' \<or> low = ''infinity'' then Some (sgn PosInf)
              else if low = ''nan'' then Some NaN
              else map_option (\<lambda>q. sgn (round_double q)) (parse_decimal body))))"

section \<open>Writing floats\<close>

definition zeros :: "nat \<Rightarrow> string" where
  "zeros n = replicate n CHR ''0''"

definition strip_zeros :: "string \<Rightarrow> string" where
  "strip_zeros s = rev (dropWhile (\<lambda>c. c = CHR ''0'') (rev s))"

text \<open>
  The shortest decimal: for \<open>n\<close> digits, the decimal nearest to \<open>q\<close> if it reads back as
  \<open>q\<close>, else its neighbour on the other side if that one does.
\<close>

definition reads_as :: "rat \<Rightarrow> int \<Rightarrow> int \<Rightarrow> bool" where
  "reads_as q m e \<longleftrightarrow> round_double (of_int m * 10 powi e) = Fin q"

definition shortest_try :: "rat \<Rightarrow> nat \<Rightarrow> (int \<times> int) option" where
  "shortest_try q n =
    (let e = ilog 10 q - int n + 1; s = q / 10 powi e; m = rhe s;
         m' = (if of_int m \<le> s then m + 1 else m - 1)
     in if reads_as q m e then Some (m, e)
        else if reads_as q m' e then Some (m', e) else None)"

fun shortest_from :: "rat \<Rightarrow> nat \<Rightarrow> nat \<Rightarrow> (int \<times> int) option" where
  "shortest_from q n 0 = None"
| "shortest_from q n (Suc f) =
    (case shortest_try q n of Some r \<Rightarrow> Some r | None \<Rightarrow> shortest_from q (Suc n) f)"

text \<open>Seventeen digits always suffice for a double.\<close>

definition shortest :: "rat \<Rightarrow> (int \<times> int) option" where
  "shortest q = shortest_from q 1 17"

definition exponent_text :: "int \<Rightarrow> string" where
  "exponent_text e = (if e < 0 then ''-'' else ''+'') @
     (if \<bar>e\<bar> < 10 then ''0'' else '''') @ str_of_nat (nat \<bar>e\<bar>)"

text \<open>Digits \<open>ds\<close> standing for \<open>0.ds * 10 ^ decpt\<close>, in Python's \<open>repr\<close> layout.\<close>

definition layout_repr :: "string \<Rightarrow> int \<Rightarrow> string" where
  "layout_repr ds decpt =
    (if - 4 < decpt \<and> decpt \<le> 16 then
       (if decpt \<le> 0 then ''0.'' @ zeros (nat (- decpt)) @ ds
        else if int (length ds) \<le> decpt then ds @ zeros (nat decpt - length ds) @ ''.0''
        else take (nat decpt) ds @ ''.'' @ drop (nat decpt) ds)
     else take 1 ds @ (if length ds \<le> 1 then [] else CHR ''.'' # drop 1 ds) @
          ''e'' @ exponent_text (decpt - 1))"

definition repr_pos :: "rat \<Rightarrow> string" where
  "repr_pos q = (case shortest q of
     None \<Rightarrow> []
   | Some (m, e) \<Rightarrow>
       (let ds = str_of_nat (nat m) in layout_repr (strip_zeros ds) (e + int (length ds))))"

fun repr_float :: "pyfloat \<Rightarrow> string" where
  "repr_float (Fin q) =
    (if q = 0 then ''0.0'' else if q < 0 then CHR ''-'' # repr_pos (- q) else repr_pos q)"
| "repr_float PosInf = ''inf''"
| "repr_float NegInf = ''-inf''"
| "repr_float NaN = ''nan''"

text \<open>\<open>f"{x:.kf}"\<close>: \<open>k\<close> places, the exact value rounded half to even.\<close>

definition fixed :: "nat \<Rightarrow> rat \<Rightarrow> string" where
  "fixed k q = (let n = rhe (\<bar>q\<bar> * 10 ^ k); ds = str_of_nat (nat (n mod 10 ^ k))
     in (if q < 0 then ''-'' else []) @ str_of_nat (nat (n div 10 ^ k)) @ ''.'' @
        replicate (k - length ds) CHR ''0'' @ ds)"

fun str_of_num :: "pynum \<Rightarrow> string" where
  "str_of_num (NInt n) = str_of_int n"
| "str_of_num (NFloat x) = repr_float x"

text \<open>\<open>f"{x:g}"\<close> of a finite non-negative double: six significant digits, zeros dropped.\<close>

definition fmt_g :: "rat \<Rightarrow> string" where
  "fmt_g q = (if q \<le> 0 then ''0'' else
     (let k0 = ilog 10 q; m0 = rhe (q / 10 powi (k0 - 5));
          (m, k) = (if m0 = 10 ^ 6 then (10 ^ 5, k0 + 1) else (m0, k0));
          ds = strip_zeros (str_of_nat (nat m))
      in if - 4 \<le> k \<and> k < 6 then
           (if k < 0 then ''0.'' @ zeros (nat (- k) - 1) @ ds
            else if int (length ds) \<le> k + 1 then ds @ zeros (nat (k + 1) - length ds)
            else take (nat (k + 1)) ds @ ''.'' @ drop (nat (k + 1)) ds)
         else take 1 ds @ (if length ds \<le> 1 then [] else CHR ''.'' # drop 1 ds) @
              ''e'' @ exponent_text k))"

section \<open>repr of a string\<close>

definition hex_digit :: "nat \<Rightarrow> char" where
  "hex_digit n = (if n < 10 then char_of (48 + n) else char_of (87 + n))"

definition hex2 :: "char \<Rightarrow> string" where
  "hex2 c = (let n = of_char c :: nat in [hex_digit (n div 16), hex_digit (n mod 16)])"

definition repr_char :: "char \<Rightarrow> char \<Rightarrow> string" where
  "repr_char q c = (let n = of_char c :: nat in
     if c = q \<or> c = CHR 0x5C then [CHR 0x5C, c]
     else if n = 9 then [CHR 0x5C, CHR ''t'']
     else if n = 10 then [CHR 0x5C, CHR ''n'']
     else if n = 13 then [CHR 0x5C, CHR ''r'']
     else if n < 32 \<or> (127 \<le> n \<and> n \<le> 160) \<or> n = 173 then [CHR 0x5C, CHR ''x''] @ hex2 c
     else [c])"

definition repr_str :: "string \<Rightarrow> string" where
  "repr_str s = (let q = (if CHR 0x27 \<in> set s \<and> CHR 0x22 \<notin> set s then CHR 0x22 else CHR 0x27)
     in [q] @ concat (map (repr_char q) s) @ [q])"

end
