(* ===== verification/Py_Json.thy ===== *)
theory Py_Json
  imports Py_Text "HOL-Library.Multiset" "HOL-Library.Product_Lexorder"
begin

text \<open>
  Dynamic Python values, as far as the program looks at them, and \<open>json.dumps\<close> with
  \<open>sort_keys=True\<close>, the serialisation every signature, call digest and audit line
  of the program starts from. A dictionary is an association list in insertion order.
  Serialisation fails with \<open>TypeError\<close> on keys that cannot be ordered or written, and with
  whatever \<open>str()\<close> raises on an object handed to the \<open>default=str\<close> hook.
\<close>

section \<open>Values\<close>

text \<open>An exception of the Python runtime or of foreign code: its class name and its text.\<close>

datatype pyexc = PyExc (exc_type: string) (exc_text: string)

datatype pydecimal = DFin rat | DPosInf | DNegInf | DQuietNaN | DSignalNaN

datatype pykey = KStr string | KInt int | KBool bool | KFloat pyfloat | KNone | KOther string string

datatype pyval =
    PNone
  | PBool bool
  | PInt int
  | PFloat pyfloat
  | PDecimal pydecimal "pyexc + string"
  | PStr string
  | PList "pyval list"
  | PTuple "pyval list"
  | PDict "(pykey \<times> pyval) list"
  | PObj string "pyexc + string" "pyexc + string"

text \<open>
  \<open>PDecimal d s\<close> and \<open>PObj t s r\<close> carry in \<open>s\<close> what \<open>str()\<close> returns or raises on them and
  in \<open>r\<close> the same of \<open>repr()\<close>; \<open>t\<close> is the class name, as in \<open>KOther t r\<close>, a key of
  another class.
\<close>

type_synonym pydict = "(pykey \<times> pyval) list"

definition dict_get :: "pydict \<Rightarrow> pykey \<Rightarrow> pyval option" where
  "dict_get d k = map_of d k"

text \<open>\<open>d[k] = v\<close>: a present key keeps its place, a new one goes to the end.\<close>

fun dict_set :: "pydict \<Rightarrow> pykey \<Rightarrow> pyval \<Rightarrow> pydict" where
  "dict_set [] k v = [(k, v)]"
| "dict_set ((k', v') # d) k v = (if k' = k then (k, v) # d else (k', v') # dict_set d k v)"

definition opt_str :: "string option \<Rightarrow> pyval" where
  "opt_str s = (case s of None \<Rightarrow> PNone | Some x \<Rightarrow> PStr x)"

text \<open>Python truth of a string option: \<open>None\<close> and the empty string are false.\<close>

definition truthy :: "string option \<Rightarrow> bool" where
  "truthy s = (case s of None \<Rightarrow> False | Some x \<Rightarrow> x \<noteq> [])"

fun type_name :: "pyval \<Rightarrow> string" where
  "type_name PNone = ''NoneType''"
| "type_name (PBool _) = ''bool''"
| "type_name (PInt _) = ''int''"
| "type_name (PFloat _) = ''float''"
| "type_name (PDecimal _ _) = ''Decimal''"
| "type_name (PStr _) = ''str''"
| "type_name (PList _) = ''list''"
| "type_name (PTuple _) = ''tuple''"
| "type_name (PDict _) = ''dict''"
| "type_name (PObj t _ _) = t"

lemma truthy_simps [simp]: "\<not> truthy None" "truthy (Some x) \<longleftrightarrow> x \<noteq> []"
  by (simp_all add: truthy_def)

lemma dict_get_set: "dict_get (dict_set d k v) k' = (if k' = k then Some v else dict_get d k')"
  by (induction d) (auto simp: dict_get_def)

lemma keys_dict_set: "fst ` set (dict_set d k v) = insert k (fst ` set d)"
proof (induction d)
  case (Cons kv d)
  then show ?case by (cases kv) (auto simp: insert_commute)
qed simp

section \<open>Serialisation\<close>

record json_opts =
  jo_ascii :: bool
  jo_item_sep :: string
  jo_key_sep :: string
  jo_default_str :: bool

definition jchar :: "bool \<Rightarrow> char \<Rightarrow> string" where
  "jchar ascii c = (let n = of_char c :: nat in
     if c = CHR 0x22 \<or> c = CHR 0x5C then [CHR 0x5C, c]
     else if n = 8 then [CHR 0x5C, CHR ''b'']
     else if n = 9 then [CHR 0x5C, CHR ''t'']
     else if n = 10 then [CHR 0x5C, CHR ''n'']
     else if n = 12 then [CHR 0x5C, CHR ''f'']
     else if n = 13 then [CHR 0x5C, CHR ''r'']
     else if n < 32 \<or> (ascii \<and> 127 \<le> n) then [CHR 0x5C] @ ''u00'' @ hex2 c
     else [c])"

definition jstring :: "bool \<Rightarrow> string \<Rightarrow> string" where
  "jstring ascii s = [CHR 0x22] @ concat (map (jchar ascii) s) @ [CHR 0x22]"

fun jfloat :: "pyfloat \<Rightarrow> string" where
  "jfloat PosInf = ''Infinity''"
| "jfloat NegInf = ''-Infinity''"
| "jfloat (Fin q) = repr_float (Fin q)"
| "jfloat NaN = ''NaN''"

definition jint :: "int \<Rightarrow> pyexc + string" where
  "jint n = (if length (str_of_nat (nat \<bar>n\<bar>)) \<le> 4300 then Inr (str_of_int n)
     else Inl (PyExc ''ValueError'' ''Exceeds the limit (4300 digits) for integer string conversion''))"

definition jbool :: "bool \<Rightarrow> string" where
  "jbool b = (if b then ''true'' else ''false'')"

text \<open>The text of a dictionary key, or the error of an unsupported one.\<close>

fun key_text :: "pykey \<Rightarrow> pyexc + string" where
  "key_text (KStr s) = Inr s"
| "key_text (KInt n) = jint n"
| "key_text (KBool b) = Inr (jbool b)"
| "key_text (KFloat x) = Inr (jfloat x)"
| "key_text KNone = Inr ''null''"
| "key_text (KOther t _) =
     Inl (PyExc ''TypeError'' (''keys must be str, int, float, bool or None, not '' @ t))"

fun str_key :: "pykey \<Rightarrow> string" where
  "str_key (KStr s) = s"
| "str_key _ = []"

fun is_str_key :: "pykey \<Rightarrow> bool" where
  "is_str_key (KStr _) = True"
| "is_str_key _ = False"

text \<open>Numeric keys compare by value, a boolean as 0 or 1.\<close>

fun float_rank :: "pyfloat \<Rightarrow> nat \<times> rat" where
  "float_rank NegInf = (0, 0)"
| "float_rank (Fin q) = (1, q)"
| "float_rank PosInf = (2, 0)"
| "float_rank NaN = (3, 0)"

fun num_rank :: "pykey \<Rightarrow> nat \<times> rat" where
  "num_rank (KInt n) = (1, of_int n)"
| "num_rank (KBool b) = (1, if b then 1 else 0)"
| "num_rank (KFloat x) = float_rank x"
| "num_rank _ = (4, 0)"

fun is_num_key :: "pykey \<Rightarrow> bool" where
  "is_num_key (KInt _) = True"
| "is_num_key (KBool _) = True"
| "is_num_key (KFloat _) = True"
| "is_num_key _ = False"

text \<open>
  \<open>sorted(d.items())\<close>: strings by code points, numbers by value; a mixture has a pair that
  \<open><\<close> refuses, whichever algorithm compares them.
\<close>

definition sort_items :: "(pykey \<times> 'v) list \<Rightarrow> pyexc + (pykey \<times> 'v) list" where
  "sort_items d =
    (if list_all (is_str_key \<circ> fst) d then Inr (sort_key (str_key \<circ> fst) d)
     else if list_all (is_num_key \<circ> fst) d then Inr (sort_key (num_rank \<circ> fst) d)
     else if length d \<le> 1 then Inr d
     else Inl (PyExc ''TypeError'' ''dictionary keys are not ordered by <''))"

fun join :: "string \<Rightarrow> string list \<Rightarrow> string" where
  "join sep [] = []"
| "join sep [x] = x"
| "join sep (x # y # xs) = x @ sep @ join sep (y # xs)"

text \<open>The first error of a list of results, or all of them.\<close>

fun collect :: "('e + 'a) list \<Rightarrow> 'e + 'a list" where
  "collect [] = Inr []"
| "collect (r # rs) = (case r of Inl e \<Rightarrow> Inl e
     | Inr a \<Rightarrow> (case collect rs of Inl e \<Rightarrow> Inl e | Inr as \<Rightarrow> Inr (a # as)))"

definition dump_items :: "json_opts \<Rightarrow> (pyexc + string) list \<Rightarrow> pyexc + string" where
  "dump_items jo rs = (case collect rs of Inl e \<Rightarrow> Inl e
     | Inr ts \<Rightarrow> Inr (''['' @ join (jo_item_sep jo) ts @ '']''))"

definition dump_pair :: "json_opts \<Rightarrow> pykey \<times> (pyexc + string) \<Rightarrow> pyexc + string" where
  "dump_pair jo kv = (case key_text (fst kv) of Inl e \<Rightarrow> Inl e
     | Inr k \<Rightarrow> (case snd kv of Inl e \<Rightarrow> Inl e
        | Inr t \<Rightarrow> Inr (jstring (jo_ascii jo) k @ jo_key_sep jo @ t)))"

definition dump_dict :: "json_opts \<Rightarrow> (pykey \<times> (pyexc + string)) list \<Rightarrow> pyexc + string" where
  "dump_dict jo kvs = (case sort_items kvs of Inl e \<Rightarrow> Inl e
     | Inr s \<Rightarrow> (case collect (map (dump_pair jo) s) of Inl e \<Rightarrow> Inl e
        | Inr ts \<Rightarrow> Inr (''{'' @ join (jo_item_sep jo) ts @ ''}'')))"

definition dump_foreign :: "json_opts \<Rightarrow> string \<Rightarrow> pyexc + string \<Rightarrow> pyexc + string" where
  "dump_foreign jo t r =
    (if jo_default_str jo then (case r of Inl e \<Rightarrow> Inl e | Inr s \<Rightarrow> Inr (jstring (jo_ascii jo) s))
     else Inl (PyExc ''TypeError'' (''Object of type '' @ t @ '' is not JSON serializable'')))"

fun dumps :: "json_opts \<Rightarrow> pyval \<Rightarrow> pyexc + string" where
  "dumps jo PNone = Inr ''null''"
| "dumps jo (PBool b) = Inr (jbool b)"
| "dumps jo (PInt n) = jint n"
| "dumps jo (PFloat x) = Inr (jfloat x)"
| "dumps jo (PStr s) = Inr (jstring (jo_ascii jo) s)"
| "dumps jo (PList xs) = dump_items jo (map (dumps jo) xs)"
| "dumps jo (PTuple xs) = dump_items jo (map (dumps jo) xs)"
| "dumps jo (PDict kvs) = dump_dict jo (map (\<lambda>(k, v). (k, dumps jo v)) kvs)"
| "dumps jo (PDecimal d r) = dump_foreign jo ''Decimal'' r"
| "dumps jo (PObj t s r) = dump_foreign jo t s"

text \<open>\<open>repr(value)\<close>\<close>

fun key_repr :: "pykey \<Rightarrow> pyexc + string" where
  "key_repr (KStr s) = Inr (repr_str s)"
| "key_repr (KInt n) = jint n"
| "key_repr (KBool b) = Inr (if b then ''True'' else ''False'')"
| "key_repr (KFloat x) = Inr (repr_float x)"
| "key_repr KNone = Inr ''None''"
| "key_repr (KOther t r) = Inr r"

definition repr_pair :: "pykey \<times> (pyexc + string) \<Rightarrow> pyexc + string" where
  "repr_pair kv = (case key_repr (fst kv) of Inl e \<Rightarrow> Inl e
     | Inr k \<Rightarrow> (case snd kv of Inl e \<Rightarrow> Inl e | Inr t \<Rightarrow> Inr (k @ '': '' @ t)))"

definition bracket :: "string \<Rightarrow> string \<Rightarrow> (pyexc + string) list \<Rightarrow> pyexc + string" where
  "bracket l r rs = (case collect rs of Inl e \<Rightarrow> Inl e | Inr ts \<Rightarrow> Inr (l @ join '', '' ts @ r))"

fun repr_val :: "pyval \<Rightarrow> pyexc + string" where
  "repr_val PNone = Inr ''None''"
| "repr_val (PBool b) = Inr (if b then ''True'' else ''False'')"
| "repr_val (PInt n) = jint n"
| "repr_val (PFloat x) = Inr (repr_float x)"
| "repr_val (PDecimal d s) = (case s of Inl e \<Rightarrow> Inl e
     | Inr t \<Rightarrow> Inr (''Decimal('' @ repr_str t @ '')''))"
| "repr_val (PStr s) = Inr (repr_str s)"
| "repr_val (PList xs) = bracket ''['' '']'' (map repr_val xs)"
| "repr_val (PTuple xs) =
     bracket ''('' (if length xs = 1 then '',)'' else '')'') (map repr_val xs)"
| "repr_val (PDict kvs) =
     bracket ''{'' ''}'' (map repr_pair (map (\<lambda>(k, v). (k, repr_val v)) kvs))"
| "repr_val (PObj t s r) = r"

text \<open>\<open>str.encode("utf-8")\<close>: one byte below 128, two above.\<close>

definition utf8_char :: "char \<Rightarrow> string" where
  "utf8_char c = (let n = of_char c :: nat in
     if n < 128 then [c] else [char_of (192 + n div 64), char_of (128 + n mod 64)])"

definition utf8 :: "string \<Rightarrow> string" where
  "utf8 s = concat (map utf8_char s)"

section \<open>Key order does not matter\<close>

lemma mset_sort_items: "sort_items d = Inr d' \<Longrightarrow> mset d' = mset d"
  by (auto simp: sort_items_def split: if_splits)

lemma list_all_cong_mset: "mset xs = mset ys \<Longrightarrow> list_all P xs \<longleftrightarrow> list_all P ys"
  by (metis list_all_iff set_mset_mset)

lemma sort_key_perm:
  fixes f :: "'a \<Rightarrow> 'b :: linorder"
  assumes "mset xs = mset ys" "inj_on f (set xs)"
  shows "sort_key f xs = sort_key f ys"
  using assms by (intro sort_key_inj_key_eq) auto

lemma str_key_inj: "is_str_key k \<Longrightarrow> is_str_key k' \<Longrightarrow> str_key k = str_key k' \<Longrightarrow> k = k'"
  by (cases k; cases k') auto

text \<open>Two orders of the same items of distinct keys are sorted to the same list.\<close>

lemma sort_items_perm:
  assumes m: "mset d = mset d'" and d: "distinct (map fst d)" and s: "list_all (is_str_key \<circ> fst) d"
  shows "sort_items d = sort_items d'"
proof -
  have "inj_on (str_key \<circ> fst) (set d)"
  proof (rule inj_onI)
    fix x y
    assume xy: "x \<in> set d" "y \<in> set d" and e: "(str_key \<circ> fst) x = (str_key \<circ> fst) y"
    have "is_str_key (fst x)" "is_str_key (fst y)" using xy s by (auto simp: list_all_iff)
    then have "fst x = fst y" using e str_key_inj by simp
    then show "x = y" using d xy by (metis distinct_map inj_onD)
  qed
  from sort_key_perm[OF m this] show ?thesis
    using s list_all_cong_mset[OF m] by (simp add: sort_items_def)
qed

lemma dumps_dict_perm:
  assumes m: "mset d = mset d'" and k: "distinct (map fst d)" and s: "list_all (is_str_key \<circ> fst) d"
  shows "dumps jo (PDict d) = dumps jo (PDict d')"
proof -
  let ?f = "\<lambda>(k, v). (k, dumps jo v)"
  have "sort_items (map ?f d) = sort_items (map ?f d')"
  proof (rule sort_items_perm)
    show "mset (map ?f d) = mset (map ?f d')" using m by simp
    show "distinct (map fst (map ?f d))" using k by (simp add: comp_def case_prod_beta)
    show "list_all (is_str_key \<circ> fst) (map ?f d)"
      using s by (auto simp: list_all_iff)
  qed
  then show ?thesis by (simp add: dump_dict_def)
qed


section \<open>When serialisation succeeds\<close>

lemma collect_ok: "(\<And>r. r \<in> set rs \<Longrightarrow> \<exists>a. r = Inr a) \<Longrightarrow> \<exists>as. collect rs = Inr as"
proof (induction rs)
  case (Cons r rs)
  obtain as where "collect rs = Inr as" using Cons by auto
  moreover obtain a where "r = Inr a" using Cons.prems[of r] by auto
  ultimately show ?case by simp
qed simp

lemma dump_dict_ok:
  assumes "list_all (is_str_key \<circ> fst) d" and "\<And>kv. kv \<in> set d \<Longrightarrow> \<exists>t. snd kv = Inr t"
  shows "\<exists>t. dump_dict jo d = Inr t"
proof -
  let ?s = "sort_key (str_key \<circ> fst) d"
  have "\<exists>a. r = Inr a" if r: "r \<in> set (map (dump_pair jo) ?s)" for r
  proof -
    obtain kv where kv: "kv \<in> set d" "r = dump_pair jo kv"
      using r by auto
    have "is_str_key (fst kv)" using assms(1) kv(1) by (auto simp: list_all_iff)
    then obtain k where "fst kv = KStr k" by (cases "fst kv") auto
    then show ?thesis using assms(2)[OF kv(1)] kv(2) by (auto simp: dump_pair_def)
  qed
  then obtain ts where "collect (map (dump_pair jo) ?s) = Inr ts"
    using collect_ok by blast
  then show ?thesis
    using assms(1) by (simp add: dump_dict_def sort_items_def)
qed

lemma dumps_opt_str: "\<exists>t. dumps jo (opt_str s) = Inr t"
  by (cases s) (auto simp: opt_str_def)

end
