(* ===== verification/Policy_Types.thy ===== *)
theory Policy_Types
  imports Py_Json
begin

text \<open>
  The vocabulary of the policy: the enumerations of \<open>enums.py\<close>, the tool permission of
  \<open>permissions.py\<close>, the exceptions of \<open>exceptions.py\<close>, and the world a boundary runs in
  (clocks, environment variables, identifiers, log, files, in-memory limiters).
\<close>

section \<open>Enumerations\<close>

datatype autonomy_level =
  RECOMMEND_ONLY | HUMAN_APPROVAL_REQUIRED | LIMITED_AUTONOMOUS | AUTONOMOUS | QUARANTINED

datatype access_mode = READ_ONLY | WRITE | EXECUTE | ADMIN

datatype decision_type = ALLOW | DENY | APPROVAL_REQUIRED

datatype violation_reason =
    KILL_SWITCH_ACTIVE | AGENT_QUARANTINED | TOOL_NOT_ALLOWED | OPERATION_BLOCKED
  | ACCESS_MODE_EXCEEDED | RATE_LIMIT_EXCEEDED | MAX_VALUE_EXCEEDED | MAX_RECORDS_EXCEEDED
  | OUTSIDE_VALID_PERIOD | ENVIRONMENT_NOT_ALLOWED | DATA_CLASSIFICATION_DENIED
  | APPROVAL_REQUIRED_REASON | UNKNOWN_TOOL | POLICY_HOOK_DENIED | INVALID_VALUE
  | MIN_VALUE_VIOLATED | VALUE_REQUIRED | RECORDS_REQUIRED

fun autonomy_value :: "autonomy_level \<Rightarrow> string" where
  "autonomy_value RECOMMEND_ONLY = ''RECOMMEND_ONLY''"
| "autonomy_value HUMAN_APPROVAL_REQUIRED = ''HUMAN_APPROVAL_REQUIRED''"
| "autonomy_value LIMITED_AUTONOMOUS = ''LIMITED_AUTONOMOUS''"
| "autonomy_value AUTONOMOUS = ''AUTONOMOUS''"
| "autonomy_value QUARANTINED = ''QUARANTINED''"

fun access_value :: "access_mode \<Rightarrow> string" where
  "access_value READ_ONLY = ''READ_ONLY''"
| "access_value WRITE = ''WRITE''"
| "access_value EXECUTE = ''EXECUTE''"
| "access_value ADMIN = ''ADMIN''"

fun decision_value :: "decision_type \<Rightarrow> string" where
  "decision_value ALLOW = ''ALLOW''"
| "decision_value DENY = ''DENY''"
| "decision_value APPROVAL_REQUIRED = ''APPROVAL_REQUIRED''"

fun reason_value :: "violation_reason \<Rightarrow> string" where
  "reason_value KILL_SWITCH_ACTIVE = ''KILL_SWITCH_ACTIVE''"
| "reason_value AGENT_QUARANTINED = ''AGENT_QUARANTINED''"
| "reason_value TOOL_NOT_ALLOWED = ''TOOL_NOT_ALLOWED''"
| "reason_value OPERATION_BLOCKED = ''OPERATION_BLOCKED''"
| "reason_value ACCESS_MODE_EXCEEDED = ''ACCESS_MODE_EXCEEDED''"
| "reason_value RATE_LIMIT_EXCEEDED = ''RATE_LIMIT_EXCEEDED''"
| "reason_value MAX_VALUE_EXCEEDED = ''MAX_VALUE_EXCEEDED''"
| "reason_value MAX_RECORDS_EXCEEDED = ''MAX_RECORDS_EXCEEDED''"
| "reason_value OUTSIDE_VALID_PERIOD = ''OUTSIDE_VALID_PERIOD''"
| "reason_value ENVIRONMENT_NOT_ALLOWED = ''ENVIRONMENT_NOT_ALLOWED''"
| "reason_value DATA_CLASSIFICATION_DENIED = ''DATA_CLASSIFICATION_DENIED''"
| "reason_value APPROVAL_REQUIRED_REASON = ''APPROVAL_REQUIRED''"
| "reason_value UNKNOWN_TOOL = ''UNKNOWN_TOOL''"
| "reason_value POLICY_HOOK_DENIED = ''POLICY_HOOK_DENIED''"
| "reason_value INVALID_VALUE = ''INVALID_VALUE''"
| "reason_value MIN_VALUE_VIOLATED = ''MIN_VALUE_VIOLATED''"
| "reason_value VALUE_REQUIRED = ''VALUE_REQUIRED''"
| "reason_value RECORDS_REQUIRED = ''RECORDS_REQUIRED''"

lemma decision_value_inj [simp]: "decision_value d = decision_value d' \<longleftrightarrow> d = d'"
  by (cases d; cases d') auto

text \<open>
  The order of access modes, by the rank table of \<open>Boundary._check_access_mode\<close>; the
  library's linear orders apply to the modes through it.
\<close>

fun access_rank :: "access_mode \<Rightarrow> nat" where
  "access_rank READ_ONLY = 0"
| "access_rank WRITE = 1"
| "access_rank EXECUTE = 2"
| "access_rank ADMIN = 3"

lemma access_rank_inj: "access_rank m = access_rank n \<longleftrightarrow> m = n"
  by (cases m; cases n) auto

instantiation access_mode :: linorder
begin

definition less_eq_access_mode :: "access_mode \<Rightarrow> access_mode \<Rightarrow> bool" where
  "m \<le> n \<longleftrightarrow> access_rank m \<le> access_rank n"

definition less_access_mode :: "access_mode \<Rightarrow> access_mode \<Rightarrow> bool" where
  "m < n \<longleftrightarrow> access_rank m < access_rank n"

instance
  by standard
    (auto simp: less_eq_access_mode_def less_access_mode_def access_rank_inj[symmetric])

end

section \<open>Permissions\<close>

record tool_permission =
  tp_tool_name :: string
  tp_access_mode :: access_mode
  tp_allowed_operations :: "string set option"
  tp_blocked_operations :: "string set"
  tp_max_calls_per_hour :: "int option"
  tp_max_value :: "pynum option"
  tp_min_value :: "pynum option"
  tp_max_records :: "pynum option"
  tp_requires_approval :: bool

definition operation_allowed :: "tool_permission \<Rightarrow> string option \<Rightarrow> bool" where
  "operation_allowed p opn =
    (if opt_holds (\<lambda>x. x \<in> tp_blocked_operations p) opn then False
     else case tp_allowed_operations p of
        Some A \<Rightarrow> opt_holds (\<lambda>x. x \<in> A) opn
      | None \<Rightarrow> True)"

text \<open>Blocked always wins; with an allow-list, a call must name a listed operation.\<close>

lemma operation_allowed_iff:
  "operation_allowed p opn \<longleftrightarrow>
    (\<forall>x. opn = Some x \<longrightarrow> x \<notin> tp_blocked_operations p) \<and>
    (\<forall>A. tp_allowed_operations p = Some A \<longrightarrow> (\<exists>x \<in> A. opn = Some x))"
  by (cases opn) (auto simp: operation_allowed_def split: option.splits)

section \<open>Exceptions\<close>

datatype violation_class = PlainViolation | KillSwitchActive | RateLimitExceeded

text \<open>
  \<open>BoundaryViolation\<close> with its two subclasses, \<open>ApprovalRequired\<close> and the other
  \<open>ToolBoundaryError\<close>s; \<open>Foreign\<close> is an exception of the runtime or of foreign code,
  with the flag whether its class derives from \<open>Exception\<close> (\<open>KeyboardInterrupt\<close> and
  \<open>SystemExit\<close> do not, and an \<open>except Exception\<close> lets them pass).
\<close>

datatype exn =
    BoundaryViolation (v_class: violation_class) (v_message: string) (v_agent: string)
      (v_tool: "string option") (v_operation: "string option") (v_rule: "string option")
  | ApprovalRequired string string string "string option" "string option"
  | ConfigurationError string
  | ProviderAuthorizationDenied string string string "string option" "string option" "string option"
  | ProviderUnavailable string string string "string option" "string option"
  | AuthorizationConsumed string
  | Foreign pyexc bool

fun is_exception :: "exn \<Rightarrow> bool" where
  "is_exception (Foreign e b) = b"
| "is_exception _ = True"

text \<open>\<open>str(exc)\<close>; a violation adds its context, each part only when it is truthy.\<close>

definition ctx_part :: "string \<Rightarrow> string option \<Rightarrow> string" where
  "ctx_part name v = (if truthy v then '' '' @ name @ ''='' @ repr_str (the v) else [])"

fun exn_text :: "exn \<Rightarrow> string" where
  "exn_text (BoundaryViolation c msg agent tool op rule) =
     msg @ '' (agent='' @ repr_str agent @ ctx_part ''tool'' tool @ ctx_part ''operation'' op @
     ctx_part ''rule'' rule @ '')''"
| "exn_text (ApprovalRequired msg _ _ _ _) = msg"
| "exn_text (ConfigurationError msg) = msg"
| "exn_text (ProviderAuthorizationDenied msg _ _ _ _ _) = msg"
| "exn_text (ProviderUnavailable msg _ _ _ _) = msg"
| "exn_text (AuthorizationConsumed msg) = msg"
| "exn_text (Foreign e _) = exc_text e"

text \<open>\<open>type(exc).__name__\<close>\<close>

fun exn_type :: "exn \<Rightarrow> string" where
  "exn_type (BoundaryViolation PlainViolation _ _ _ _ _) = ''BoundaryViolation''"
| "exn_type (BoundaryViolation KillSwitchActive _ _ _ _ _) = ''KillSwitchActive''"
| "exn_type (BoundaryViolation RateLimitExceeded _ _ _ _ _) = ''RateLimitExceeded''"
| "exn_type (ApprovalRequired _ _ _ _ _) = ''ApprovalRequired''"
| "exn_type (ConfigurationError _) = ''ConfigurationError''"
| "exn_type (ProviderAuthorizationDenied _ _ _ _ _ _) = ''ProviderAuthorizationDenied''"
| "exn_type (ProviderUnavailable _ _ _ _ _) = ''ProviderUnavailable''"
| "exn_type (AuthorizationConsumed _) = ''AuthorizationConsumed''"
| "exn_type (Foreign e _) = exc_type e"

section \<open>The world\<close>

text \<open>
  Readings of the clocks and fresh identifiers are streams, read in order: the \<open>n\<close>-th call
  of \<open>time.time()\<close> returns \<open>wall n\<close>, the \<open>n\<close>-th identifier drawn from
  \<open>secrets\<close> is \<open>secrets n\<close>. Loggers append lines (logger, level, text); files
  are texts by path; \<open>limiters\<close> holds the \<open>_calls\<close> dictionary of every in-memory rate
  limiter object. Hooks, sinks, limiters and providers of foreign code are functions on a
  world that may extend this one with state of their own.
\<close>

record world =
  wall :: "nat \<Rightarrow> rat"
  wall_ix :: nat
  mono :: "nat \<Rightarrow> rat"
  mono_ix :: nat
  uuids :: "nat \<Rightarrow> string"
  uuid_ix :: nat
  secrets :: "nat \<Rightarrow> string"
  secret_ix :: nat
  environ :: "string \<rightharpoonup> string"
  log :: "(string \<times> nat \<times> string) list"
  files :: "string \<rightharpoonup> string"
  unwritable :: "string set"
  posts :: "(string \<times> (string \<times> string) list \<times> string) list"
  limiters :: "nat \<Rightarrow> (string \<rightharpoonup> rat list)"

definition time_time :: "('w world_scheme, exn, rat) eff" where
  "time_time w = (Inr (wall w (wall_ix w)), w\<lparr>wall_ix := Suc (wall_ix w)\<rparr>)"

definition time_monotonic :: "('w world_scheme, exn, rat) eff" where
  "time_monotonic w = (Inr (mono w (mono_ix w)), w\<lparr>mono_ix := Suc (mono_ix w)\<rparr>)"

definition uuid4 :: "('w world_scheme, exn, string) eff" where
  "uuid4 w = (Inr (uuids w (uuid_ix w)), w\<lparr>uuid_ix := Suc (uuid_ix w)\<rparr>)"

definition token_secret :: "('w world_scheme, exn, string) eff" where
  "token_secret w = (Inr (secrets w (secret_ix w)), w\<lparr>secret_ix := Suc (secret_ix w)\<rparr>)"

definition log_line :: "string \<Rightarrow> nat \<Rightarrow> string \<Rightarrow> ('w world_scheme, exn, unit) eff" where
  "log_line logger level text w = (Inr (), w\<lparr>log := log w @ [(logger, level, text)]\<rparr>)"

text \<open>Documented behaviour of \<open>time.monotonic()\<close>: doubles that never decrease.\<close>

definition mono_clock :: "(nat \<Rightarrow> rat) \<Rightarrow> bool" where
  "mono_clock c \<longleftrightarrow> (\<forall>i. is_double (c i)) \<and> (\<forall>i j. i \<le> j \<longrightarrow> c i \<le> c j)"

text \<open>An exception of the runtime as an exception of the program.\<close>

definition of_py :: "pyexc + 'a \<Rightarrow> exn + 'a" where
  "of_py r = (case r of Inl e \<Rightarrow> Inl (Foreign e True) | Inr a \<Rightarrow> Inr a)"

lemma of_py_Inr [simp]: "of_py (Inr a) = Inr a"
  and of_py_Inl [simp]: "of_py (Inl e) = Inl (Foreign e True)"
  and of_py_Inr_iff [simp]: "of_py r = Inr a \<longleftrightarrow> r = Inr a"
  by (auto simp: of_py_def split: sum.splits)

lemma keeps_clock_reads [keeps_intros]:
  "(\<And>w n. g (w\<lparr>wall_ix := n\<rparr>) = g w) \<Longrightarrow> keeps g time_time"
  "(\<And>w n. g (w\<lparr>mono_ix := n\<rparr>) = g w) \<Longrightarrow> keeps g time_monotonic"
  "(\<And>w n. g (w\<lparr>uuid_ix := n\<rparr>) = g w) \<Longrightarrow> keeps g uuid4"
  "(\<And>w n. g (w\<lparr>secret_ix := n\<rparr>) = g w) \<Longrightarrow> keeps g token_secret"
  by (simp_all add: keeps_def time_time_def time_monotonic_def uuid4_def token_secret_def)

lemma keeps_log_line [keeps_intros]:
  "(\<And>w l. g (w\<lparr>log := l\<rparr>) = g w) \<Longrightarrow> keeps g (log_line logger level text)"
  by (simp add: keeps_def log_line_def)

text \<open>A world whose clocks stand still, in which the examples run.\<close>

definition sample_world :: world where
  "sample_world = \<lparr>wall = (\<lambda>_. 1000), wall_ix = 0, mono = (\<lambda>_. 50), mono_ix = 0,
     uuids = (\<lambda>n. ''id-'' @ str_of_nat n), uuid_ix = 0,
     secrets = (\<lambda>n. ''s-'' @ str_of_nat n), secret_ix = 0,
     environ = Map.empty, log = [], files = Map.empty, unwritable = {}, posts = [],
     limiters = (\<lambda>_. Map.empty)\<rparr>"

end
