(* ===== verification/Rate_Limiter.thy ===== *)
theory Rate_Limiter
  imports Policy_Types
begin

text \<open>
  \<open>_rate_limiter.py\<close>: the in-memory sliding-window limiter. \<open>window_step\<close> is what
  \<open>check_and_record\<close> does to the deque of one key; the methods read the clock and update
  the limiter object. The locale \<open>sliding_window\<close> states what a limiter promises its
  client, whatever it stores; the deque discharges it here.
\<close>

section \<open>The limiter object\<close>

text \<open>\<open>while window and window[0] < cutoff: window.popleft()\<close>\<close>

fun prune :: "pyfloat \<Rightarrow> rat list \<Rightarrow> rat list" where
  "prune cutoff [] = []"
| "prune cutoff (t # ts) = (if flt (Fin t) cutoff then prune cutoff ts else t # ts)"

definition window_step :: "pyfloat \<Rightarrow> rat \<Rightarrow> int \<Rightarrow> rat list \<Rightarrow> bool \<times> rat list" where
  "window_step window_seconds now max_calls calls =
    (let calls' = prune (fsub (Fin now) window_seconds) calls
     in if max_calls \<le> int (length calls') then (False, calls') else (True, calls' @ [now]))"

definition check_and_record ::
  "nat \<Rightarrow> string \<Rightarrow> int \<Rightarrow> pyfloat \<Rightarrow> ('w world_scheme, exn, bool) eff" where
  "check_and_record self key max_calls window_seconds =
    bindE time_monotonic (\<lambda>now w.
      let calls = (case limiters w self key of None \<Rightarrow> [] | Some c \<Rightarrow> c);
          (ok, calls') = window_step window_seconds now max_calls calls
      in (Inr ok, w\<lparr>limiters := (limiters w)(self := (limiters w self)(key \<mapsto> calls'))\<rparr>))"

definition current_count :: "nat \<Rightarrow> string \<Rightarrow> pyfloat \<Rightarrow> ('w world_scheme, exn, nat) eff" where
  "current_count self key window_seconds =
    bindE time_monotonic (\<lambda>now w.
      let calls = (case limiters w self key of None \<Rightarrow> [] | Some c \<Rightarrow> c);
          cutoff = fsub (Fin now) window_seconds
      in (Inr (length (filter (\<lambda>t. fle cutoff (Fin t)) calls)), w))"

definition reset :: "nat \<Rightarrow> string option \<Rightarrow> ('w world_scheme, exn, unit) eff" where
  "reset self key w =
    (Inr (), w\<lparr>limiters := (limiters w)(self :=
       (case key of None \<Rightarrow> Map.empty | Some k \<Rightarrow> (limiters w self)(k := None)))\<rparr>)"


section \<open>What a limiter promises\<close>

text \<open>
  The requests of one key are a list of (time, limit) pairs; \<open>admitted\<close> are the times at
  which a limiter let a call pass.
\<close>

fun admitted :: "(rat \<Rightarrow> int \<Rightarrow> 's \<Rightarrow> bool \<times> 's) \<Rightarrow> (rat \<times> int) list \<Rightarrow> 's \<Rightarrow> rat list" where
  "admitted step [] s = []"
| "admitted step ((now, m) # rs) s =
     (case step now m s of (b, s') \<Rightarrow> (if b then [now] else []) @ admitted step rs s')"

fun final :: "(rat \<Rightarrow> int \<Rightarrow> 's \<Rightarrow> bool \<times> 's) \<Rightarrow> (rat \<times> int) list \<Rightarrow> 's \<Rightarrow> 's" where
  "final step [] s = s"
| "final step ((now, m) # rs) s = final step rs (snd (step now m s))"

lemma admitted_append:
  "admitted step (rs @ rs') s = admitted step rs s @ admitted step rs' (final step rs s)"
  by (induction rs arbitrary: s) (auto split: prod.splits)

text \<open>Requests in the order of a clock that never goes back, from time \<open>t\<close> on.\<close>

fun timely :: "rat \<Rightarrow> (rat \<times> int) list \<Rightarrow> bool" where
  "timely t [] = True"
| "timely t ((now, m) # rs) \<longleftrightarrow> t \<le> now \<and> is_double now \<and> timely now rs"

lemma timely_append:
  "timely t (rs @ [(now, m)]) \<longleftrightarrow> timely t rs \<and> (\<forall>r \<in> set rs. fst r \<le> now) \<and> t \<le> now \<and> is_double now"
proof (induction rs arbitrary: t)
  case (Cons r rs)
  obtain u k where "r = (u, k)" by fastforce
  then show ?case using Cons.IH[of u] by auto
qed simp

lemma admitted_times: "x \<in> set (admitted step rs s) \<Longrightarrow> x \<in> fst ` set rs"
proof (induction rs arbitrary: s)
  case (Cons r rs)
  then show ?case
    by (cases r) (fastforce split: prod.splits if_splits)
qed simp

locale sliding_window =
  fixes step :: "rat \<Rightarrow> int \<Rightarrow> 's \<Rightarrow> bool \<times> 's"
    and live :: "'s \<Rightarrow> rat list"
    and wf :: "rat \<Rightarrow> 's \<Rightarrow> bool"
    and recent :: "rat \<Rightarrow> rat \<Rightarrow> bool"
  assumes recent_anti: "now \<le> now' \<Longrightarrow> recent now' x \<Longrightarrow> recent now x"
    and wf_step: "wf t s \<Longrightarrow> t \<le> now \<Longrightarrow> is_double now \<Longrightarrow> wf now (snd (step now m s))"
    and keep_recent: "wf t s \<Longrightarrow> t \<le> now \<Longrightarrow> is_double now \<Longrightarrow> step now m s = (b, s') \<Longrightarrow>
      {#x \<in># mset (live s). recent now x#} + (if b then {#now#} else {#}) \<subseteq># mset (live s')"
    and limit: "wf t s \<Longrightarrow> t \<le> now \<Longrightarrow> is_double now \<Longrightarrow> step now m s = (True, s') \<Longrightarrow>
      int (length (live s')) \<le> m"
begin

text \<open>Everything admitted that is still recent is in the limiter's memory.\<close>

lemma memory_complete:
  assumes "wf t s" "timely t rs" "{#x \<in># A. recent t x#} \<subseteq># mset (live s)"
    and "\<forall>r \<in> set rs. fst r \<le> now" "t \<le> now"
  shows "{#x \<in># A + mset (admitted step rs s). recent now x#} \<subseteq># mset (live (final step rs s))"
  using assms
proof (induction rs arbitrary: t s A)
  case Nil
  have "{#x \<in># A. recent now x#} \<subseteq># {#x \<in># A. recent t x#}"
    using recent_anti[OF Nil.prems(5)] by (intro multiset_filter_mono filter_mset_mono_strong) auto
  then show ?case using Nil.prems(3) by (simp add: subset_mset.order_trans)
next
  case (Cons r rs)
  obtain u m where r: "r = (u, m)" by fastforce
  obtain b s' where st: "step u m s = (b, s')" by fastforce
  have u: "t \<le> u" "is_double u" "timely u rs" "u \<le> now" using Cons.prems r by auto
  let ?A = "A + (if b then {#u#} else {#})"
  have "{#x \<in># A. recent u x#} \<subseteq># {#x \<in># A. recent t x#}"
    using recent_anti[OF u(1)] by (intro filter_mset_mono_strong) auto
  then have "{#x \<in># A. recent u x#} \<subseteq># mset (live s)"
    using Cons.prems(3) by (rule subset_mset.order_trans)
  then have "{#x \<in># {#x \<in># A. recent u x#}. recent u x#} \<subseteq># {#x \<in># mset (live s). recent u x#}"
    by (rule multiset_filter_mono)
  then have "{#x \<in># A. recent u x#} \<subseteq># {#x \<in># mset (live s). recent u x#}"
    by (simp add: filter_filter_mset)
  then have "{#x \<in># A. recent u x#} + (if b then {#u#} else {#})
      \<subseteq># {#x \<in># mset (live s). recent u x#} + (if b then {#u#} else {#})"
    by simp
  also have "\<dots> \<subseteq># mset (live s')" by (rule keep_recent[OF Cons.prems(1) u(1,2) st])
  finally have "{#x \<in># A. recent u x#} + (if b then {#u#} else {#}) \<subseteq># mset (live s')" .
  moreover have "{#x \<in># ?A. recent u x#} \<subseteq># {#x \<in># A. recent u x#} + (if b then {#u#} else {#})"
    by simp
  ultimately have A: "{#x \<in># ?A. recent u x#} \<subseteq># mset (live s')"
    by (rule subset_mset.order_trans[rotated])
  have "wf u s'" using wf_step[OF Cons.prems(1) u(1,2), of m] st by simp
  from Cons.IH[OF this u(3) A _ u(4)] Cons.prems(4)
  have "{#x \<in># ?A + mset (admitted step rs s'). recent now x#} \<subseteq># mset (live (final step rs s'))"
    by simp
  then show ?case by (cases b) (simp_all add: r st)
qed

lemma wf_final: "wf t s \<Longrightarrow> timely t rs \<Longrightarrow> \<exists>u. wf u (final step rs s) \<and> t \<le> u \<and>
    (u = t \<or> u \<in> fst ` set rs)"
proof (induction rs arbitrary: t s)
  case (Cons r rs)
  obtain u m where r: "r = (u, m)" by fastforce
  have "wf u (snd (step u m s))" using Cons.prems wf_step r by simp
  then obtain v where "wf v (final step rs (snd (step u m s)))" "u \<le> v" "v = u \<or> v \<in> fst ` set rs"
    using Cons.IH Cons.prems r by fastforce
  then show ?case using Cons.prems r by (intro exI[of _ v]) auto
qed auto

text \<open>An admitted call is one of at most \<open>m\<close> recent admitted calls, itself included.\<close>

theorem admitted_within_limit:
  assumes "wf t s" "live s = []" "timely t (rs @ [(now, m)])"
    and "fst (step now m (final step rs s))"
  shows "int (length (filter (recent now) (admitted step (rs @ [(now, m)]) s))) \<le> m"
proof -
  let ?s = "final step rs s"
  have tl: "timely t rs" "\<forall>r \<in> set rs. fst r \<le> now" "t \<le> now" "is_double now"
    using assms(3) by (auto simp: timely_append)
  obtain s' where st: "step now m ?s = (True, s')" using assms(4) by (cases "step now m ?s") auto
  obtain u where u: "wf u ?s" "u \<le> now" using wf_final[OF assms(1) tl(1)] tl by auto
  have "{#x \<in># mset (admitted step rs s). recent now x#} \<subseteq># mset (live ?s)"
    using memory_complete[OF assms(1) tl(1), of "{#}" now] tl by simp
  then have "{#x \<in># {#x \<in># mset (admitted step rs s). recent now x#}. recent now x#}
      \<subseteq># {#x \<in># mset (live ?s). recent now x#}"
    by (rule multiset_filter_mono)
  then have "{#x \<in># mset (admitted step rs s). recent now x#} + {#now#}
      \<subseteq># {#x \<in># mset (live ?s). recent now x#} + {#now#}"
    by (simp add: filter_filter_mset)
  also have "\<dots> \<subseteq># mset (live s')" using keep_recent[OF u tl(4) st] by simp
  finally have "size ({#x \<in># mset (admitted step rs s). recent now x#} + {#now#}) \<le> length (live s')"
    using size_mset_mono by fastforce
  moreover have "length (filter (recent now) (admitted step (rs @ [(now, m)]) s))
      \<le> size ({#x \<in># mset (admitted step rs s). recent now x#} + {#now#})"
    by (simp add: admitted_append st mset_filter[symmetric] del: mset_filter)
  ultimately show ?thesis using limit[OF u tl(4) st] by linarith
qed

text \<open>A set of times each recent for the later ones never holds more than \<open>m\<close> admitted calls.\<close>

theorem window_bound:
  assumes "wf t s" "live s = []" "timely t rs" "\<forall>r \<in> set rs. snd r = m" "0 \<le> m"
    and P: "\<And>x y. P x \<Longrightarrow> P y \<Longrightarrow> x \<le> y \<Longrightarrow> recent y x"
  shows "int (length (filter P (admitted step rs s))) \<le> m"
  using assms(3,4)
proof (induction rs rule: rev_induct)
  case Nil
  then show ?case using assms(5) by simp
next
  case (snoc r rs)
  obtain now m' where r: "r = (now, m')" by fastforce
  have m: "m' = m" using snoc.prems r by simp
  have tl: "timely t rs" "\<forall>r \<in> set rs. fst r \<le> now"
    using snoc.prems(1) by (auto simp: r timely_append)
  show ?case
  proof (cases "fst (step now m (final step rs s)) \<and> P now")
    case True
    have le: "x \<le> now" if "x \<in> set (admitted step (rs @ [(now, m)]) s)" for x
      using admitted_times[OF that] tl by auto
    have "length (filter P (admitted step (rs @ [(now, m)]) s))
        \<le> length (filter (recent now) (admitted step (rs @ [(now, m)]) s))"
    proof -
      have "filter P (admitted step (rs @ [(now, m)]) s)
          = filter P (filter (recent now) (admitted step (rs @ [(now, m)]) s))"
        using P True le by (auto simp: filter_filter intro!: filter_cong)
      then show ?thesis by (metis length_filter_le)
    qed
    then show ?thesis
      using admitted_within_limit[OF assms(1,2), of rs now m] True snoc.prems(1) r m by simp
  next
    case False
    then have "filter P (admitted step (rs @ [r]) s) = filter P (admitted step rs s)"
      by (auto simp: admitted_append r m split: prod.splits)
    then show ?thesis using snoc tl by simp
  qed
qed

end

section \<open>The deque keeps the promise\<close>

definition deque_wf :: "rat \<Rightarrow> rat list \<Rightarrow> bool" where
  "deque_wf t calls \<longleftrightarrow> sorted calls \<and> (\<forall>x \<in> set calls. x \<le> t \<and> is_double x)"

lemma prune_dropWhile: "prune cutoff calls = dropWhile (\<lambda>t. flt (Fin t) cutoff) calls"
  by (induction calls) auto

lemma flt_Fin_anti: "x \<le> y \<Longrightarrow> flt (Fin y) c \<Longrightarrow> flt (Fin x) c"
  by (cases c) auto

text \<open>On a sorted deque, popping from the left removes exactly the times below the cutoff.\<close>

lemma prune_filter:
  "sorted calls \<Longrightarrow> prune cutoff calls = filter (\<lambda>t. \<not> flt (Fin t) cutoff) calls"
proof (induction calls)
  case (Cons t ts)
  show ?case
  proof (cases "flt (Fin t) cutoff")
    case True
    then show ?thesis using Cons by simp
  next
    case False
    then have "\<forall>x \<in> set ts. \<not> flt (Fin x) cutoff" using Cons.prems flt_Fin_anti by auto
    then show ?thesis using False by (simp add: filter_id_conv)
  qed
qed simp

lemma deque_wf_step:
  assumes "deque_wf t calls" "t \<le> now" "is_double now"
  shows "deque_wf now (snd (window_step W now m calls))"
  using assms
  by (force simp: deque_wf_def window_step_def Let_def prune_filter sorted_append
      intro: sorted_filter[of "\<lambda>x. x", simplified])

definition deque_recent :: "rat \<Rightarrow> rat \<Rightarrow> rat \<Rightarrow> bool" where
  "deque_recent W now x \<longleftrightarrow> now - W \<le> x"

interpretation deque: sliding_window "window_step (Fin W)" "\<lambda>calls. calls" deque_wf "deque_recent W"
  for W
proof (unfold_locales, goal_cases)
  case (1 now now' x)
  then show ?case by (simp add: deque_recent_def)
next
  case (2 t s now m)
  then show ?case by (rule deque_wf_step)
next
  case (3 t s now m b s')
  have d: "\<forall>x \<in> set s. is_double x" and so: "sorted s" using 3(1) by (auto simp: deque_wf_def)
  have "{#x \<in># mset s. deque_recent W now x#} \<subseteq># {#x \<in># mset s. \<not> flt (Fin x) (fsub (Fin now) (Fin W))#}"
    using d exact_window by (intro filter_mset_mono_strong) (auto simp: deque_recent_def)
  then show ?case
    using 3(4) so by (auto simp: window_step_def Let_def prune_filter split: if_splits)
next
  case (4 t s now m s')
  then show ?case by (auto simp: window_step_def Let_def split: if_splits)
qed

end
