(* ===== verification/Audit_Trail.thy ===== *)
theory Audit_Trail
  imports Policy_Types
begin

text \<open>
  \<open>audit.py\<close>: one event per decision, fanned out to every configured sink. A sink is its
  \<open>emit\<close> method; an exception of a sink is swallowed (debug diagnostics are left out), so
  delivery is best effort and never changes the decision.
\<close>

section \<open>Events\<close>

record audit_event =
  ev_event_id :: string
  ev_timestamp :: rat
  ev_agent_name :: string
  ev_tool_name :: "string option"
  ev_operation :: "string option"
  ev_access_mode :: "string option"
  ev_decision :: string
  ev_reason_code :: "string option"
  ev_message :: string
  ev_correlation_id :: "string option"
  ev_metadata :: pydict

definition event_to_dict :: "audit_event \<Rightarrow> pyval" where
  "event_to_dict e = PDict
     [(KStr ''event_id'', PStr (ev_event_id e)),
      (KStr ''timestamp'', PFloat (Fin (ev_timestamp e))),
      (KStr ''agent_name'', PStr (ev_agent_name e)),
      (KStr ''tool_name'', opt_str (ev_tool_name e)),
      (KStr ''operation'', opt_str (ev_operation e)),
      (KStr ''access_mode'', opt_str (ev_access_mode e)),
      (KStr ''decision'', PStr (ev_decision e)),
      (KStr ''reason_code'', opt_str (ev_reason_code e)),
      (KStr ''message'', PStr (ev_message e)),
      (KStr ''correlation_id'', opt_str (ev_correlation_id e)),
      (KStr ''metadata'', PDict (ev_metadata e))]"

definition event_to_json :: "audit_event \<Rightarrow> pyexc + string" where
  "event_to_json e = dumps
     \<lparr>jo_ascii = True, jo_item_sep = '', '', jo_key_sep = '': '', jo_default_str = True\<rparr>
     (event_to_dict e)"

section \<open>Sinks\<close>

type_synonym 'w sink = "audit_event \<Rightarrow> ('w world_scheme, exn, unit) eff"

definition log_INFO :: nat where "log_INFO = 20"
definition log_WARNING :: nat where "log_WARNING = 30"

definition logging_sink_emit :: "nat \<Rightarrow> 'w sink" where
  "logging_sink_emit self_level event =
    (let level = (if ev_decision event = ''ALLOW'' then self_level else log_WARNING)
     in bindE (liftE (of_py (event_to_json event))) (log_line ''toolboundary.audit'' level))"

definition write_file :: "string \<Rightarrow> string \<Rightarrow> ('w world_scheme, exn, unit) eff" where
  "write_file path text = modifyE (\<lambda>w. w\<lparr>files := (files w)(path \<mapsto>
     (case files w path of None \<Rightarrow> [] | Some c \<Rightarrow> c) @ text)\<rparr>)"

text \<open>Opening for append creates the file; serialisation happens after that.\<close>

definition jsonl_file_sink_emit :: "string \<Rightarrow> 'w sink" where
  "jsonl_file_sink_emit path event w =
    (if path \<in> unwritable w then (Inl (Foreign (PyExc ''OSError'' path) True), w)
     else thenE (write_file path [])
          (bindE (liftE (of_py (event_to_json event)))
             (\<lambda>text. thenE (write_file path text) (write_file path ''\<newline>''))) w)"

text \<open>
  \<open>net url body\<close> says whether building or sending the request raises; every \<open>Exception\<close>
  is swallowed in the sink itself.
\<close>

definition webhook_sink_emit ::
  "(string \<Rightarrow> string \<Rightarrow> exn option) \<Rightarrow> string \<Rightarrow> (string \<times> string) list option \<Rightarrow> 'w sink" where
  "webhook_sink_emit net url headers event w =
    (let hs = (case headers of Some (h # t) \<Rightarrow> h # t
                | _ \<Rightarrow> [(''Content-Type'', ''application/json'')])
     in case event_to_json event of
          Inl e \<Rightarrow> (Inr (), w)
        | Inr text \<Rightarrow>
            (case net url (utf8 text) of
               None \<Rightarrow> (Inr (), w\<lparr>posts := posts w @ [(url, hs, utf8 text)]\<rparr>)
             | Some e \<Rightarrow> (if is_exception e then Inr () else Inl e, w)))"

section \<open>The trail\<close>

text \<open>The loop over the sinks; only exceptions outside \<open>Exception\<close> break it.\<close>

fun emit_all :: "'w sink list \<Rightarrow> audit_event \<Rightarrow> ('w world_scheme, exn, unit) eff" where
  "emit_all [] event w = (Inr (), w)"
| "emit_all (sink # sinks) event w =
     (case sink event w of
        (Inl e, w') \<Rightarrow> if is_exception e then emit_all sinks event w' else (Inl e, w')
      | (Inr _, w') \<Rightarrow> emit_all sinks event w')"

definition default_sinks :: "'w sink list" where
  "default_sinks = [logging_sink_emit log_INFO]"

definition make_trail :: "'w sink list option \<Rightarrow> 'w sink list" where
  "make_trail sinks = (case sinks of None \<Rightarrow> default_sinks | Some s \<Rightarrow> s)"

definition add_sink :: "'w sink \<Rightarrow> 'w sink list \<Rightarrow> 'w sink list" where
  "add_sink sink sinks = sinks @ [sink]"

definition audit_record ::
  "'w sink list \<Rightarrow> string \<Rightarrow> string \<Rightarrow> string \<Rightarrow> string option \<Rightarrow> string option \<Rightarrow> string option \<Rightarrow>
   string option \<Rightarrow> string option \<Rightarrow> pydict \<Rightarrow> ('w world_scheme, exn, audit_event) eff" where
  "audit_record sinks agent_name decision message tool_name operation access_mode reason_code
     correlation_id metadata =
    bindE uuid4 (\<lambda>event_id.
    bindE time_time (\<lambda>timestamp.
      let event = \<lparr>ev_event_id = event_id, ev_timestamp = timestamp, ev_agent_name = agent_name,
            ev_tool_name = tool_name, ev_operation = operation, ev_access_mode = access_mode,
            ev_decision = decision, ev_reason_code = reason_code, ev_message = message,
            ev_correlation_id = correlation_id, ev_metadata = metadata\<rparr>
      in thenE (emit_all sinks event) (returnE event)))"

section \<open>Delivery\<close>

text \<open>A sink whose failures are ordinary exceptions.\<close>

definition tame_sink :: "'w sink \<Rightarrow> bool" where
  "tame_sink s \<longleftrightarrow> (\<forall>ev w e. fst (s ev w) = Inl e \<longrightarrow> is_exception e)"

lemma tame_sinkD: "tame_sink s \<Longrightarrow> s ev w = (Inl e, w') \<Longrightarrow> is_exception e"
  unfolding tame_sink_def by (metis fst_conv)

lemma tame_logging_sink: "tame_sink (logging_sink_emit level)"
  by (auto simp: tame_sink_def logging_sink_emit_def Let_def bindE_def log_line_def of_py_def
      split: sum.splits)

lemma tame_jsonl_sink: "tame_sink (jsonl_file_sink_emit path)"
  by (auto simp: tame_sink_def jsonl_file_sink_emit_def bindE_def thenE_def write_file_def of_py_def
      split: sum.splits)

lemma tame_webhook_sink:
  "(\<And>u b e. net u b = Some e \<Longrightarrow> is_exception e) \<Longrightarrow> tame_sink (webhook_sink_emit net url headers)"
  by (auto simp: tame_sink_def webhook_sink_emit_def Let_def split: sum.splits option.splits if_splits)

text \<open>With tame sinks every sink sees the event, in order, whatever the others raised.\<close>

lemma emit_all_fold:
  assumes "\<forall>s \<in> set sinks. tame_sink s"
  shows "emit_all sinks ev w = (Inr (), fold (\<lambda>s w. snd (s ev w)) sinks w)"
  using assms
proof (induction sinks arbitrary: w)
  case (Cons s sinks)
  then show ?case
    by (auto split: prod.splits sum.splits dest: tame_sinkD)
qed simp

lemma audit_record_ok:
  assumes "\<forall>s \<in> set sinks. tame_sink s"
  shows "\<exists>ev w'. audit_record sinks agent dec msg tool op mode reason corr md w = (Inr ev, w') \<and>
     ev_decision ev = dec \<and> ev_reason_code ev = reason"
  by (simp add: audit_record_def bindE_def uuid4_def time_time_def Let_def thenE_def
      emit_all_fold[OF assms])

text \<open>A component of the world that the sinks leave alone survives the record.\<close>

lemma moves_emit_all:
  assumes "reflp R" "transp R" "\<And>s ev. s \<in> set sinks \<Longrightarrow> moves R (s ev)"
  shows "moves R (emit_all sinks ev)"
proof (rule movesI)
  fix w
  show "R w (snd (emit_all sinks ev w))"
    using assms(3)
  proof (induction sinks arbitrary: w)
    case Nil
    then show ?case using assms(1) by (simp add: reflp_def)
  next
    case (Cons s sinks)
    obtain r w' where sw: "s ev w = (r, w')" by fastforce
    have w': "R w w'" using Cons.prems[of s ev] sw by (auto simp: moves_def dest: spec[of _ w])
    moreover have "R w' (snd (emit_all sinks ev w'))" using Cons by simp
    ultimately have "R w (snd (emit_all sinks ev w'))" using assms(2) by (meson transpD)
    then show ?case using w' sw by (auto split: sum.splits)
  qed
qed

lemma keeps_emit_all [keeps_intros]:
  assumes "\<And>s ev. s \<in> set sinks \<Longrightarrow> keeps g (s ev)"
  shows "keeps g (emit_all sinks ev)"
  using assms unfolding keeps_moves by (rule moves_emit_all[OF reflp_keeps transp_keeps])

lemma keeps_audit_record [keeps_intros]:
  assumes "\<And>s ev. s \<in> set sinks \<Longrightarrow> keeps g (s ev)"
    and "\<And>w n. g (w\<lparr>wall_ix := n\<rparr>) = g w" "\<And>w n. g (w\<lparr>uuid_ix := n\<rparr>) = g w"
  shows "keeps g (audit_record sinks agent dec msg tool op mode reason corr md)"
  unfolding audit_record_def Let_def
  by (intro keeps_intros assms)


text \<open>An event can be written whenever its metadata can.\<close>

lemma event_to_json_ok:
  assumes "\<And>jo. \<exists>t. dumps jo (PDict (ev_metadata e)) = Inr t"
  shows "\<exists>t. event_to_json e = Inr t"
proof -
  have "\<exists>t. dump_dict jo (map (\<lambda>(k, v). (k, dumps jo v))
     [(KStr ''event_id'', PStr (ev_event_id e)),
      (KStr ''timestamp'', PFloat (Fin (ev_timestamp e))),
      (KStr ''agent_name'', PStr (ev_agent_name e)),
      (KStr ''tool_name'', opt_str (ev_tool_name e)),
      (KStr ''operation'', opt_str (ev_operation e)),
      (KStr ''access_mode'', opt_str (ev_access_mode e)),
      (KStr ''decision'', PStr (ev_decision e)),
      (KStr ''reason_code'', opt_str (ev_reason_code e)),
      (KStr ''message'', PStr (ev_message e)),
      (KStr ''correlation_id'', opt_str (ev_correlation_id e)),
      (KStr ''metadata'', PDict (ev_metadata e))]) = Inr t" for jo
    using dumps_opt_str assms
    by (intro dump_dict_ok) (auto simp del: dumps.simps(8))
  then show ?thesis by (simp only: event_to_json_def event_to_dict_def dumps.simps)
qed

lemma logging_sink_emit_ok:
  "event_to_json ev = Inr text \<Longrightarrow> logging_sink_emit level ev w =
     (Inr (), w\<lparr>log := log w @ [(''toolboundary.audit'',
        if ev_decision ev = ''ALLOW'' then level else log_WARNING, text)]\<rparr>)"
  by (simp add: logging_sink_emit_def Let_def bindE_def log_line_def)


text \<open>The event of a record, and the one line the default trail writes for it.\<close>

lemma audit_record_event:
  assumes "ev = \<lparr>ev_event_id = uuids w (uuid_ix w), ev_timestamp = wall w (wall_ix w),
     ev_agent_name = agent, ev_tool_name = tool, ev_operation = opn, ev_access_mode = mode,
     ev_decision = dec, ev_reason_code = reason, ev_message = msg, ev_correlation_id = corr,
     ev_metadata = md\<rparr>"
  shows "audit_record sinks agent dec msg tool opn mode reason corr md w =
    thenE (emit_all sinks ev) (returnE ev) (w\<lparr>uuid_ix := Suc (uuid_ix w), wall_ix := Suc (wall_ix w)\<rparr>)"
  by (simp add: assms audit_record_def bindE_def uuid4_def time_time_def Let_def)

lemma audit_record_default:
  assumes "\<And>jo. \<exists>t. dumps jo (PDict md) = Inr t"
  shows "\<exists>ev line. audit_record default_sinks agent dec msg tool opn mode reason corr md w =
      (Inr ev, w\<lparr>uuid_ix := Suc (uuid_ix w), wall_ix := Suc (wall_ix w),
        log := log w @ [(''toolboundary.audit'', if dec = ''ALLOW'' then log_INFO else log_WARNING, line)]\<rparr>) \<and>
     event_to_json ev = Inr line \<and> ev_agent_name ev = agent \<and> ev_tool_name ev = tool \<and>
     ev_decision ev = dec \<and> ev_reason_code ev = reason \<and> ev_message ev = msg \<and> ev_metadata ev = md"
proof -
  define ev where "ev = \<lparr>ev_event_id = uuids w (uuid_ix w), ev_timestamp = wall w (wall_ix w),
     ev_agent_name = agent, ev_tool_name = tool, ev_operation = opn, ev_access_mode = mode,
     ev_decision = dec, ev_reason_code = reason, ev_message = msg, ev_correlation_id = corr,
     ev_metadata = md\<rparr>"
  obtain line where t: "event_to_json ev = Inr line"
    using event_to_json_ok[of ev] assms by (auto simp: ev_def)
  have d: "ev_decision ev = dec" by (simp add: ev_def)
  have "audit_record default_sinks agent dec msg tool opn mode reason corr md w =
      (Inr ev, w\<lparr>uuid_ix := Suc (uuid_ix w), wall_ix := Suc (wall_ix w),
        log := log w @ [(''toolboundary.audit'', if dec = ''ALLOW'' then log_INFO else log_WARNING, line)]\<rparr>)"
    by (subst audit_record_event[OF ev_def])
      (simp add: logging_sink_emit_ok[OF t] default_sinks_def thenE_def bindE_def d)
  then show ?thesis using t by (intro exI[of _ ev] exI[of _ line]) (simp add: ev_def)
qed

end
