(* ===== verification/Evidence.thy ===== *)
theory Evidence
  imports Py_Hash Policy_Types
begin

text \<open>
  \<open>provider.py\<close> and \<open>evidence.py\<close>: the frozen call and its digest, the records exchanged
  with an external provider, and the evidence of an execution. A provider is its two methods; nothing checks that foreign code
  returns a grant or a receipt, so each may return \<open>None\<close>.
\<close>

section \<open>Records of the provider contract\<close>

datatype provider_mode = OBSERVE | ENFORCE

record frozen_tool_call =
  fc_agent_name :: string
  fc_tool_name :: string
  fc_operation :: "string option"
  fc_arguments :: pydict
  fc_resource :: "string option"
  fc_tool_version :: "string option"
  fc_schema_hash :: "string option"
  fc_manifest_hash :: "string option"
  fc_approval_id :: "string option"
  fc_approval_state :: "string option"
  fc_call_digest :: string

record local_decision =
  ld_decision :: string
  ld_decision_id :: string
  ld_agent_name :: string
  ld_tool_name :: string
  ld_operation :: "string option"
  ld_reason_code :: "string option"
  ld_approval_id :: "string option"
  ld_policy_version :: "string option"

record provider_grant =
  pg_allowed :: bool
  pg_provider :: string
  pg_authorization_id :: "string option"
  pg_attempt_id :: "string option"
  pg_expires_at :: "pynum option"
  pg_reason :: "string option"
  pg_metadata :: pydict

record execution_record =
  er_call_digest :: string
  er_status :: string
  er_started_at :: rat
  er_finished_at :: rat
  er_result_digest :: "string option"
  er_error_type :: "string option"
  er_error_message :: "string option"
  er_observed_by :: string

record provider_receipt =
  pr_recorded :: bool
  pr_provider :: string
  pr_evidence_id :: "string option"
  pr_signature :: "string option"
  pr_metadata :: pydict

record authorization_context =
  ac_local_decision :: local_decision
  ac_frozen_call :: frozen_tool_call
  ac_provider_grant :: "provider_grant option"
  ac_consumed :: bool
  ac_authorization_id :: string

definition mark_consumed :: "authorization_context \<Rightarrow> authorization_context" where
  "mark_consumed a = a\<lparr>ac_consumed := True\<rparr>"

text \<open>The constructor with \<open>__post_init__\<close>: an empty identifier is replaced by a fresh one.\<close>

definition make_authorization ::
  "local_decision \<Rightarrow> frozen_tool_call \<Rightarrow> provider_grant option \<Rightarrow> string \<Rightarrow>
   ('w world_scheme, exn, authorization_context) eff" where
  "make_authorization ld fc grant auth_id =
    (let mk = (\<lambda>i. \<lparr>ac_local_decision = ld, ac_frozen_call = fc, ac_provider_grant = grant,
                 ac_consumed = False, ac_authorization_id = i\<rparr>)
     in if auth_id = [] then bindE uuid4 (\<lambda>i. returnE (mk i)) else returnE (mk auth_id))"

record 'w provider =
  prov_authorize :: "frozen_tool_call \<Rightarrow> local_decision \<Rightarrow> ('w world_scheme, exn, provider_grant option) eff"
  prov_record :: "provider_grant \<Rightarrow> execution_record \<Rightarrow> ('w world_scheme, exn, provider_receipt option) eff"

section \<open>Canonical form and digests\<close>

definition canonical_opts :: json_opts where
  "canonical_opts = \<lparr>jo_ascii = False, jo_item_sep = '','', jo_key_sep = '':'', jo_default_str = True\<rparr>"

definition canonicalize :: "pyval \<Rightarrow> pyexc + string" where
  "canonicalize v = dumps canonical_opts v"

definition sha256 :: "string \<Rightarrow> string" where
  "sha256 data = sha256_hex (utf8 data)"

definition call_binding :: "frozen_tool_call \<Rightarrow> pyval" where
  "call_binding call = PDict
     [(KStr ''agent_name'', PStr (fc_agent_name call)),
      (KStr ''tool_name'', PStr (fc_tool_name call)),
      (KStr ''operation'', opt_str (fc_operation call)),
      (KStr ''arguments'', PDict (fc_arguments call)),
      (KStr ''resource'', opt_str (fc_resource call)),
      (KStr ''tool_version'', opt_str (fc_tool_version call)),
      (KStr ''schema_hash'', opt_str (fc_schema_hash call)),
      (KStr ''manifest_hash'', opt_str (fc_manifest_hash call)),
      (KStr ''approval_id'', opt_str (fc_approval_id call)),
      (KStr ''approval_state'', opt_str (fc_approval_state call))]"

definition digest_of :: "pyval \<Rightarrow> pyexc + string" where
  "digest_of v = (case canonicalize v of Inl e \<Rightarrow> Inl e | Inr s \<Rightarrow> Inr (sha256 s))"

definition call_digest :: "frozen_tool_call \<Rightarrow> pyexc + string" where
  "call_digest call = digest_of (call_binding call)"

definition result_digest :: "pyval \<Rightarrow> pyexc + string" where
  "result_digest result = digest_of result"

definition freeze_with_digest :: "frozen_tool_call \<Rightarrow> pyexc + frozen_tool_call" where
  "freeze_with_digest call = (case call_digest call of Inl e \<Rightarrow> Inl e
     | Inr d \<Rightarrow> Inr (call\<lparr>fc_call_digest := d\<rparr>))"

text \<open>
  The outcome of a tool: \<open>result = None\<close> stands for the sentinel \<open>_UNSET\<close>,
  \<open>Some PNone\<close> for a returned \<open>None\<close>.
\<close>

definition build_execution_record ::
  "string \<Rightarrow> rat \<Rightarrow> rat \<Rightarrow> pyval option \<Rightarrow> exn option \<Rightarrow> pyexc + execution_record" where
  "build_execution_record digest started_at finished_at result error =
    (let base = \<lparr>er_call_digest = digest, er_status = ''unknown'', er_started_at = started_at,
           er_finished_at = finished_at, er_result_digest = None, er_error_type = None,
           er_error_message = None, er_observed_by = ''runtime''\<rparr>
     in case error of
          Some e \<Rightarrow> Inr (base\<lparr>er_status := ''error'', er_error_type := Some (exn_type e),
                       er_error_message := Some (exn_text e)\<rparr>)
        | None \<Rightarrow>
           (case result of
              None \<Rightarrow> Inr base
            | Some PNone \<Rightarrow> Inr (base\<lparr>er_status := ''success''\<rparr>)
            | Some v \<Rightarrow> (case result_digest v of Inl e \<Rightarrow> Inl e
                | Inr d \<Rightarrow> Inr (base\<lparr>er_status := ''success'', er_result_digest := Some d\<rparr>))))"

end
