(* ===== verification/Tokens.thy ===== *)
theory Tokens
  imports Py_Hash Policy_Types
begin

text \<open>
  \<open>tokens.py\<close>: short-lived HMAC-signed tokens and the in-memory ledger that makes them
  single-use. The fields of a token read from the wire are whatever JSON they held, so they are
  dynamic values; \<open>issue\<close> fills them with strings and floats.
\<close>

section \<open>Errors\<close>

definition TokenInvalid :: "string \<Rightarrow> exn" where
  "TokenInvalid msg = Foreign (PyExc ''TokenInvalid'' msg) True"

definition TokenExpired :: "string \<Rightarrow> exn" where
  "TokenExpired msg = Foreign (PyExc ''TokenExpired'' msg) True"

fun is_TokenInvalid :: "exn \<Rightarrow> bool" where
  "is_TokenInvalid (Foreign e _) = (exc_type e = ''TokenInvalid'')"
| "is_TokenInvalid _ = False"

fun is_TokenExpired :: "exn \<Rightarrow> bool" where
  "is_TokenExpired (Foreign e _) = (exc_type e = ''TokenExpired'')"
| "is_TokenExpired _ = False"

lemma token_error_kinds [simp]:
  "is_TokenInvalid (TokenInvalid m)" "\<not> is_TokenExpired (TokenInvalid m)"
  "is_TokenExpired (TokenExpired m)" "\<not> is_TokenInvalid (TokenExpired m)"
  by (simp_all add: TokenInvalid_def TokenExpired_def)

section \<open>Tokens\<close>

record authorization_token =
  at_token_id :: pyval
  at_agent_name :: pyval
  at_tool_name :: pyval
  at_operation :: pyval
  at_issued_at :: pyval
  at_expires_at :: pyval
  at_signature :: string

definition token_payload :: "authorization_token \<Rightarrow> pyval" where
  "token_payload t = PDict
     [(KStr ''token_id'', at_token_id t),
      (KStr ''agent_name'', at_agent_name t),
      (KStr ''tool_name'', at_tool_name t),
      (KStr ''operation'', at_operation t),
      (KStr ''issued_at'', at_issued_at t),
      (KStr ''expires_at'', at_expires_at t)]"

definition token_opts :: json_opts where
  "token_opts = \<lparr>jo_ascii = True, jo_item_sep = '','', jo_key_sep = '':'', jo_default_str = False\<rparr>"

section \<open>The issuer\<close>

record token_issuer =
  ti_secret :: string
  ti_ttl_seconds :: pyfloat

text \<open>The secret as bytes; a missing or empty one is drawn at random.\<close>

definition make_issuer ::
  "string option \<Rightarrow> pyfloat \<Rightarrow> ('w world_scheme, exn, token_issuer) eff" where
  "make_issuer secret ttl =
    (if truthy secret then returnE \<lparr>ti_secret = utf8 (the secret), ti_ttl_seconds = ttl\<rparr>
     else bindE token_secret (\<lambda>s. returnE \<lparr>ti_secret = utf8 s, ti_ttl_seconds = ttl\<rparr>))"

definition sign :: "token_issuer \<Rightarrow> pyval \<Rightarrow> pyexc + string" where
  "sign self payload = (case dumps token_opts payload of Inl e \<Rightarrow> Inl e
     | Inr raw \<Rightarrow> Inr (hmac_sha256_hex (ti_secret self) (utf8 raw)))"

definition issue ::
  "token_issuer \<Rightarrow> string \<Rightarrow> string \<Rightarrow> string option \<Rightarrow>
   ('w world_scheme, exn, authorization_token) eff" where
  "issue self agent_name tool_name operation =
    bindE time_time (\<lambda>now.
    bindE token_secret (\<lambda>token_id.
      let t = \<lparr>at_token_id = PStr token_id, at_agent_name = PStr agent_name,
               at_tool_name = PStr tool_name, at_operation = opt_str operation,
               at_issued_at = PFloat (Fin now),
               at_expires_at = PFloat (fadd (Fin now) (ti_ttl_seconds self)), at_signature = []\<rparr>
      in bindE (liftE (of_py (sign self (token_payload t))))
           (\<lambda>signature. returnE (t\<lparr>at_signature := signature\<rparr>))))"

text \<open>Numbers among dynamic values, as \<open><\<close> takes them; None is \<open>TypeError\<close>.\<close>

fun as_num :: "pyval \<Rightarrow> pynum option" where
  "as_num (PInt n) = Some (NInt n)"
| "as_num (PBool b) = Some (NInt (if b then 1 else 0))"
| "as_num (PFloat x) = Some (NFloat x)"
| "as_num _ = None"

definition ascii :: "string \<Rightarrow> bool" where
  "ascii s \<longleftrightarrow> (\<forall>c \<in> set s. of_char c < (128 :: nat))"

text \<open>\<open>hmac.compare_digest\<close> on two strings refuses non-ASCII characters.\<close>

definition compare_digest :: "string \<Rightarrow> string \<Rightarrow> exn + bool" where
  "compare_digest a b = (if ascii a \<and> ascii b then Inr (a = b)
     else Inl (Foreign (PyExc ''TypeError''
       ''comparing strings with non-ASCII characters is not supported'') True))"

definition check_expected :: "string option \<Rightarrow> pyval \<Rightarrow> string \<Rightarrow> exn + unit" where
  "check_expected expected v msg = (case expected of None \<Rightarrow> Inr ()
     | Some x \<Rightarrow> if v = PStr x then Inr () else Inl (TokenInvalid msg))"

text \<open>The expiry check reads the clock, and once more for its message when it raises.\<close>

definition check_expiry :: "pyval \<Rightarrow> ('w world_scheme, exn, unit) eff" where
  "check_expiry expires_at =
    bindE time_time (\<lambda>now.
      case as_num expires_at of
        None \<Rightarrow> throwE (Foreign (PyExc ''TypeError'' ''> not supported for this expires_at'') True)
      | Some x \<Rightarrow>
          if num_lt x (NFloat (Fin now))
          then bindE time_time (\<lambda>now'. throwE (TokenExpired
                 (''Token expired at '' @ str_of_num x @ '', current time '' @
                  repr_float (Fin now') @ ''.'')))
          else returnE ())"

definition verify ::
  "token_issuer \<Rightarrow> authorization_token \<Rightarrow> string option \<Rightarrow> string option \<Rightarrow> string option \<Rightarrow>
   ('w world_scheme, exn, unit) eff" where
  "verify self token expected_agent_name expected_tool_name expected_operation =
    bindE (liftE (of_py (sign self (token_payload token)))) (\<lambda>expected_sig.
    bindE (liftE (compare_digest expected_sig (at_signature token))) (\<lambda>same.
    thenE (whenE (\<not> same) (TokenInvalid
       ''Token signature does not match; token may be forged or corrupted.''))
    (thenE (check_expiry (at_expires_at token))
    (thenE (liftE (check_expected expected_agent_name (at_agent_name token)
       ''Token was not issued for this agent.''))
    (thenE (liftE (check_expected expected_tool_name (at_tool_name token)
       ''Token was not issued for this tool.''))
     (liftE (check_expected expected_operation (at_operation token)
       ''Token was not issued for this operation.'')))))))"

section \<open>The ledger of used tokens\<close>

text \<open>
  \<open>_used\<close>, from token identifier to expiry. \<open>_gc\<close> and \<open>mark_used\<close> at the clock reading
  \<open>now\<close> that \<open>_gc\<close> takes.
\<close>

type_synonym token_store = "string \<rightharpoonup> pynum"

definition gc_at :: "rat \<Rightarrow> token_store \<Rightarrow> token_store" where
  "gc_at now used = (\<lambda>tid. case used tid of None \<Rightarrow> None
     | Some x \<Rightarrow> if num_lt x (NFloat (Fin now)) then None else Some x)"

definition mark_used_at :: "rat \<Rightarrow> string \<Rightarrow> pynum \<Rightarrow> token_store \<Rightarrow> bool \<times> token_store" where
  "mark_used_at now token_id expires_at used =
    (let used' = gc_at now used
     in if token_id \<in> dom used' then (False, used') else (True, used'(token_id \<mapsto> expires_at)))"

definition is_used :: "string \<Rightarrow> token_store \<Rightarrow> bool" where
  "is_used token_id used \<longleftrightarrow> token_id \<in> dom used"

section \<open>What a verified token guarantees\<close>

lemma compare_digest_Inr: "compare_digest a b = Inr r \<longleftrightarrow> ascii a \<and> ascii b \<and> r = (a = b)"
  by (auto simp: compare_digest_def)

lemma check_expected_ok:
  "check_expected expected v msg = Inr u \<longleftrightarrow> (\<forall>x. expected = Some x \<longrightarrow> v = PStr x)"
  by (auto simp: check_expected_def split: option.splits)

lemma check_expiry_ok:
  "check_expiry v w = (Inr u, w') \<longleftrightarrow>
    (\<exists>x. as_num v = Some x \<and> \<not> num_lt x (NFloat (Fin (wall w (wall_ix w))))) \<and>
    w' = w\<lparr>wall_ix := Suc (wall_ix w)\<rparr>"
  by (auto simp: check_expiry_def bindE_def time_time_def split: option.splits if_splits)

lemma verify_ok_iff:
  "verify self t ag tool opn w = (Inr u, w') \<longleftrightarrow>
    sign self (token_payload t) = Inr (at_signature t) \<and> ascii (at_signature t) \<and>
    (\<exists>x. as_num (at_expires_at t) = Some x \<and> \<not> num_lt x (NFloat (Fin (wall w (wall_ix w))))) \<and>
    (\<forall>x. ag = Some x \<longrightarrow> at_agent_name t = PStr x) \<and>
    (\<forall>x. tool = Some x \<longrightarrow> at_tool_name t = PStr x) \<and>
    (\<forall>x. opn = Some x \<longrightarrow> at_operation t = PStr x) \<and>
    w' = w\<lparr>wall_ix := Suc (wall_ix w)\<rparr>"
  by (auto simp: verify_def bindE_Inr_iff thenE_Inr_iff compare_digest_Inr check_expected_ok
      check_expiry_ok)

lemma sign_ascii: "sign self p = Inr s \<Longrightarrow> ascii s"
  by (auto simp: sign_def ascii_def dest: hmac_ascii split: sum.splits)

text \<open>Signing a token of strings and floats never fails.\<close>

lemma issue_ok: "\<exists>t w'. issue self agent tool opn w = (Inr t, w')"
proof -
  have d: "\<exists>s. dump_dict token_opts (map (\<lambda>(k, v). (k, dumps token_opts v))
     [(KStr ''token_id'', PStr i), (KStr ''agent_name'', PStr agent), (KStr ''tool_name'', PStr tool),
      (KStr ''operation'', opt_str opn), (KStr ''issued_at'', PFloat x), (KStr ''expires_at'', PFloat y)]) = Inr s"
    for i x y
    using dumps_opt_str by (intro dump_dict_ok) (auto simp del: dumps.simps(8))
  have "\<exists>s. sign self (PDict
     [(KStr ''token_id'', PStr i), (KStr ''agent_name'', PStr agent), (KStr ''tool_name'', PStr tool),
      (KStr ''operation'', opt_str opn), (KStr ''issued_at'', PFloat x), (KStr ''expires_at'', PFloat y)]) = Inr s"
    for i x y
    using d[of i x y] unfolding sign_def dumps.simps by auto
  then show ?thesis
    by (auto simp: issue_def bindE_Inr_iff time_time_def token_secret_def Let_def token_payload_def)
qed

end
