(* ===== verification/Boundary_Policy.thy ===== *)
theory Boundary_Policy
  imports Rate_Limiter Audit_Trail Evidence Tokens
begin

text \<open>
  \<open>boundary.py\<close>, first half: the \<open>Boundary\<close> object, the thirteen checks of a prospective
  call in the code's order, and the two entry points that run them, \<open>check\<close> (raises) and
  \<open>evaluate\<close> (returns a decision).
\<close>

section \<open>The object\<close>

record call_context =
  ctx_agent_name :: string
  ctx_tool_name :: string
  ctx_operation :: "string option"
  ctx_access_mode :: access_mode
  ctx_value :: pyval
  ctx_record_count :: pyval
  ctx_correlation_id :: "string option"
  ctx_metadata :: pydict

text \<open>A rate limiter is its \<open>check_and_record\<close>; a hook is its \<open>repr\<close> and its call.\<close>

type_synonym 'w limiter = "string \<Rightarrow> int \<Rightarrow> pyfloat \<Rightarrow> ('w world_scheme, exn, bool) eff"
type_synonym 'w hook = "string \<times> (call_context \<Rightarrow> ('w world_scheme, exn, string option) eff)"

record 'w boundary =
  b_agent_name :: string
  b_autonomy :: autonomy_level
  b_permissions :: "string \<rightharpoonup> tool_permission"
  b_blocked_operations :: "string set"
  b_allowed_environments :: "string set option"
  b_environment :: string
  b_max_actions_per_hour :: "int option"
  b_kill_switch :: bool
  b_kill_switch_env :: "string option"
  b_valid_from :: "pynum option"
  b_valid_to :: "pynum option"
  b_audit :: "'w sink list"
  b_policy_hooks :: "'w hook list"
  b_fail_closed_on_hook_error :: bool
  b_strict_limits :: bool
  b_token_issuer :: "token_issuer option"
  b_rate_limiter :: "'w limiter"
  b_provider :: "'w provider option"
  b_provider_mode :: provider_mode
  b_policy_version :: "string option"

definition permission_map :: "tool_permission list \<Rightarrow> string \<rightharpoonup> tool_permission" where
  "permission_map ps = foldl (\<lambda>m p. m(tp_tool_name p \<mapsto> p)) Map.empty ps"

text \<open>
  The constructor. A missing limiter is a new in-memory one, the limiter object \<open>fresh\<close>; a
  missing trail logs.
\<close>

definition make_boundary ::
  "string \<Rightarrow> autonomy_level \<Rightarrow> tool_permission list option \<Rightarrow> string set \<Rightarrow> string set option \<Rightarrow>
   string \<Rightarrow> int option \<Rightarrow> bool \<Rightarrow> string option \<Rightarrow> pynum option \<Rightarrow> pynum option \<Rightarrow>
   'w sink list option \<Rightarrow> 'w hook list option \<Rightarrow> bool \<Rightarrow> bool \<Rightarrow> token_issuer option \<Rightarrow>
   'w limiter option \<Rightarrow> nat \<Rightarrow> 'w provider option \<Rightarrow> provider_mode \<Rightarrow> string option \<Rightarrow>
   exn + 'w boundary" where
  "make_boundary agent_name autonomy permissions blocked_operations allowed_environments environment
     max_actions_per_hour kill_switch kill_switch_env valid_from valid_to audit policy_hooks
     fail_closed_on_hook_error strict_limits token_issuer rate_limiter fresh provider provider_mode
     policy_version =
    (if agent_name = [] then Inl (ConfigurationError ''Boundary requires a non-empty agent_name.'')
     else Inr \<lparr>b_agent_name = agent_name, b_autonomy = autonomy,
       b_permissions = permission_map (case permissions of None \<Rightarrow> [] | Some ps \<Rightarrow> ps),
       b_blocked_operations = blocked_operations, b_allowed_environments = allowed_environments,
       b_environment = environment, b_max_actions_per_hour = max_actions_per_hour,
       b_kill_switch = kill_switch, b_kill_switch_env = kill_switch_env, b_valid_from = valid_from,
       b_valid_to = valid_to, b_audit = make_trail audit,
       b_policy_hooks = (case policy_hooks of None \<Rightarrow> [] | Some hs \<Rightarrow> hs),
       b_fail_closed_on_hook_error = fail_closed_on_hook_error, b_strict_limits = strict_limits,
       b_token_issuer = token_issuer,
       b_rate_limiter = (case rate_limiter of None \<Rightarrow> check_and_record fresh | Some l \<Rightarrow> l),
       b_provider = provider, b_provider_mode = provider_mode,
       b_policy_version = policy_version\<rparr>)"

definition kill_switch_engaged :: "'w boundary \<Rightarrow> 'w world_scheme \<Rightarrow> bool" where
  "kill_switch_engaged b w =
    (if b_kill_switch b then True
     else if truthy (b_kill_switch_env b) then
       (let val = (case environ w (the (b_kill_switch_env b)) of None \<Rightarrow> [] | Some v \<Rightarrow> v)
        in py_lower (py_strip val) \<in> {''1'', ''true'', ''yes'', ''on''})
     else False)"

definition engage_kill_switch :: "'w boundary \<Rightarrow> 'w boundary" where
  "engage_kill_switch b = b\<lparr>b_kill_switch := True\<rparr>"

definition disengage_kill_switch :: "'w boundary \<Rightarrow> 'w boundary" where
  "disengage_kill_switch b = b\<lparr>b_kill_switch := False\<rparr>"

definition add_permission :: "tool_permission \<Rightarrow> 'w boundary \<Rightarrow> 'w boundary" where
  "add_permission p b = b\<lparr>b_permissions := (b_permissions b)(tp_tool_name p \<mapsto> p)\<rparr>"

definition get_permission :: "'w boundary \<Rightarrow> string \<Rightarrow> tool_permission option" where
  "get_permission b tool_name = b_permissions b tool_name"

section \<open>The checks\<close>

text \<open>\<open>_as_finite_number\<close>\<close>

definition finite_of :: "pyfloat option \<Rightarrow> rat option" where
  "finite_of x = (case x of Some (Fin q) \<Rightarrow> Some q | _ \<Rightarrow> None)"

fun float_of_decimal :: "pydecimal \<Rightarrow> pyfloat option" where
  "float_of_decimal (DFin q) = Some (round_double q)"
| "float_of_decimal DPosInf = Some PosInf"
| "float_of_decimal DNegInf = Some NegInf"
| "float_of_decimal DQuietNaN = Some NaN"
| "float_of_decimal DSignalNaN = None"

fun as_finite_number :: "pyval \<Rightarrow> rat option" where
  "as_finite_number (PBool b) = None"
| "as_finite_number (PInt n) = finite_of (float_of_int n)"
| "as_finite_number (PFloat x) = finite_of (Some x)"
| "as_finite_number (PDecimal d s) = finite_of (float_of_decimal d)"
| "as_finite_number (PStr s) = finite_of (parse_float (py_strip s))"
| "as_finite_number _ = None"

abbreviation violation :: "call_context \<Rightarrow> string \<Rightarrow> string option \<Rightarrow> violation_reason \<Rightarrow> exn" where
  "violation ctx msg op rule \<equiv> BoundaryViolation PlainViolation msg (ctx_agent_name ctx)
     (Some (ctx_tool_name ctx)) op (Some (reason_value rule))"

definition check_kill_switch :: "'w boundary \<Rightarrow> call_context \<Rightarrow> ('w world_scheme, exn, unit) eff" where
  "check_kill_switch b ctx w = whenE (kill_switch_engaged b w)
     (BoundaryViolation KillSwitchActive ''Kill switch is engaged; all actions are denied.''
        (ctx_agent_name ctx) (Some (ctx_tool_name ctx)) (ctx_operation ctx)
        (Some (reason_value KILL_SWITCH_ACTIVE))) w"

definition check_quarantine :: "'w boundary \<Rightarrow> call_context \<Rightarrow> ('w world_scheme, exn, unit) eff" where
  "check_quarantine b ctx = whenE (b_autonomy b = QUARANTINED)
     (violation ctx ''Agent is quarantined; all governed actions are denied.'' (ctx_operation ctx)
        AGENT_QUARANTINED)"

definition check_validity_window :: "'w boundary \<Rightarrow> call_context \<Rightarrow> ('w world_scheme, exn, unit) eff" where
  "check_validity_window b ctx = bindE time_time (\<lambda>now.
     thenE (whenE (opt_holds (num_lt (NFloat (Fin now))) (b_valid_from b))
       (violation ctx ''Boundary is not yet valid (before valid_from).'' None OUTSIDE_VALID_PERIOD))
     (whenE (opt_holds (\<lambda>t. num_lt t (NFloat (Fin now))) (b_valid_to b))
       (violation ctx ''Boundary has expired (after valid_to).'' None OUTSIDE_VALID_PERIOD)))"

definition check_environment :: "'w boundary \<Rightarrow> call_context \<Rightarrow> ('w world_scheme, exn, unit) eff" where
  "check_environment b ctx =
     whenE (opt_holds (\<lambda>E. b_environment b \<notin> E) (b_allowed_environments b))
       (violation ctx (''Environment '' @ repr_str (b_environment b) @
          '' is not in allowed_environments.'') None ENVIRONMENT_NOT_ALLOWED)"

definition repr_opt :: "string option \<Rightarrow> string" where
  "repr_opt s = (case s of None \<Rightarrow> ''None'' | Some x \<Rightarrow> repr_str x)"

definition check_global_blocked_operations ::
  "'w boundary \<Rightarrow> call_context \<Rightarrow> ('w world_scheme, exn, unit) eff" where
  "check_global_blocked_operations b ctx =
     whenE (opt_holds (\<lambda>opn. opn \<in> b_blocked_operations b) (ctx_operation ctx))
       (violation ctx (''Operation '' @ repr_opt (ctx_operation ctx) @
          '' is globally blocked for this agent.'') (ctx_operation ctx) OPERATION_BLOCKED)"

definition check_tool_permission ::
  "'w boundary \<Rightarrow> call_context \<Rightarrow> ('w world_scheme, exn, tool_permission) eff" where
  "check_tool_permission b ctx = (case b_permissions b (ctx_tool_name ctx) of
       None \<Rightarrow> throwE (violation ctx (''Tool '' @ repr_str (ctx_tool_name ctx) @
          '' is not in this agent'' @ [CHR 0x27] @ ''s permitted tool list.'') None TOOL_NOT_ALLOWED)
     | Some p \<Rightarrow> returnE p)"

definition check_operation ::
  "call_context \<Rightarrow> tool_permission \<Rightarrow> ('w world_scheme, exn, unit) eff" where
  "check_operation ctx p = whenE (\<not> operation_allowed p (ctx_operation ctx))
     (violation ctx (''Operation '' @ repr_opt (ctx_operation ctx) @ '' is not allowed for tool '' @
        repr_str (ctx_tool_name ctx) @ ''.'') (ctx_operation ctx) OPERATION_BLOCKED)"

definition check_access_mode ::
  "call_context \<Rightarrow> tool_permission \<Rightarrow> ('w world_scheme, exn, unit) eff" where
  "check_access_mode ctx p =
     whenE (access_rank (tp_access_mode p) < access_rank (ctx_access_mode ctx))
     (violation ctx (''Requested access_mode '' @ access_value (ctx_access_mode ctx) @
        '' exceeds granted '' @ access_value (tp_access_mode p) @ '' for tool '' @
        repr_str (ctx_tool_name ctx) @ ''.'') (ctx_operation ctx) ACCESS_MODE_EXCEEDED)"

text \<open>A message that shows a value by \<open>repr\<close>, which may itself raise.\<close>

definition throw_repr ::
  "call_context \<Rightarrow> string \<Rightarrow> pyval \<Rightarrow> string \<Rightarrow> violation_reason \<Rightarrow> ('w world_scheme, exn, 'a) eff" where
  "throw_repr ctx before v after rule = bindE (liftE (of_py (repr_val v)))
     (\<lambda>r. throwE (violation ctx (before @ r @ after) (ctx_operation ctx) rule))"

definition check_value_limit ::
  "'w boundary \<Rightarrow> call_context \<Rightarrow> tool_permission \<Rightarrow> ('w world_scheme, exn, unit) eff" where
  "check_value_limit b ctx p =
    (if ctx_value ctx = PNone then
       whenE (b_strict_limits b \<and> tp_max_value p \<noteq> None)
         (violation ctx (''A value is required to enforce max_value for tool '' @
            repr_str (ctx_tool_name ctx) @ ''.'') (ctx_operation ctx) VALUE_REQUIRED)
     else if tp_max_value p = None \<and> tp_min_value p = None then returnE ()
     else
       (case as_finite_number (ctx_value ctx) of
          None \<Rightarrow> throw_repr ctx ''Value '' (ctx_value ctx)
            ('' is not a valid finite number for tool '' @ repr_str (ctx_tool_name ctx) @ ''.'')
            INVALID_VALUE
        | Some v \<Rightarrow>
            thenE (case tp_min_value p of None \<Rightarrow> returnE () | Some lo \<Rightarrow>
              whenE (num_lt (NFloat (Fin v)) lo)
                (violation ctx (''Value '' @ repr_float (Fin v) @ '' is below min_value '' @
                   str_of_num lo @ '' for tool '' @ repr_str (ctx_tool_name ctx) @ ''.'')
                   (ctx_operation ctx) MIN_VALUE_VIOLATED))
            (case tp_max_value p of None \<Rightarrow> returnE () | Some hi \<Rightarrow>
              whenE (num_lt hi (NFloat (Fin v)))
                (violation ctx (''Value '' @ repr_float (Fin v) @ '' exceeds max_value '' @
                   str_of_num hi @ '' for tool '' @ repr_str (ctx_tool_name ctx) @ ''.'')
                   (ctx_operation ctx) MAX_VALUE_EXCEEDED))))"

definition check_record_limit ::
  "'w boundary \<Rightarrow> call_context \<Rightarrow> tool_permission \<Rightarrow> ('w world_scheme, exn, unit) eff" where
  "check_record_limit b ctx p =
    (if ctx_record_count ctx = PNone then
       whenE (b_strict_limits b \<and> tp_max_records p \<noteq> None)
         (violation ctx (''A record_count is required to enforce max_records for tool '' @
            repr_str (ctx_tool_name ctx) @ ''.'') (ctx_operation ctx) RECORDS_REQUIRED)
     else (case tp_max_records p of None \<Rightarrow> returnE () | Some hi \<Rightarrow>
       (case as_finite_number (ctx_record_count ctx) of
          Some n \<Rightarrow>
            if n < 0 \<or> of_int \<lfloor>n\<rfloor> \<noteq> n then
              throw_repr ctx ''record_count '' (ctx_record_count ctx)
                '' must be a non-negative integer.'' INVALID_VALUE
            else whenE (num_lt hi (NFloat (Fin n)))
              (violation ctx (''record_count '' @ fmt_g n @ '' exceeds max_records '' @
                 str_of_num hi @ '' for tool '' @ repr_str (ctx_tool_name ctx) @ ''.'')
                 (ctx_operation ctx) MAX_RECORDS_EXCEEDED)
        | None \<Rightarrow> throw_repr ctx ''record_count '' (ctx_record_count ctx)
                '' must be a non-negative integer.'' INVALID_VALUE)))"

definition global_key :: "string \<Rightarrow> string" where
  "global_key agent = agent @ ''::__global__''"

definition tool_key :: "string \<Rightarrow> string \<Rightarrow> string" where
  "tool_key agent tool = agent @ ''::'' @ tool"

abbreviation rate_violation :: "call_context \<Rightarrow> string \<Rightarrow> exn" where
  "rate_violation ctx msg \<equiv> BoundaryViolation RateLimitExceeded msg (ctx_agent_name ctx)
     (Some (ctx_tool_name ctx)) None (Some (reason_value RATE_LIMIT_EXCEEDED))"

definition check_global_rate ::
  "'w boundary \<Rightarrow> call_context \<Rightarrow> ('w world_scheme, exn, unit) eff" where
  "check_global_rate b ctx = (case b_max_actions_per_hour b of None \<Rightarrow> returnE () | Some m \<Rightarrow>
     bindE (b_rate_limiter b (global_key (b_agent_name b)) m (Fin 3600)) (\<lambda>ok.
       whenE (\<not> ok) (rate_violation ctx (''Agent exceeded global limit of '' @ str_of_int m @
         '' actions/hour.''))))"

definition check_tool_rate ::
  "'w boundary \<Rightarrow> call_context \<Rightarrow> ('w world_scheme, exn, unit) eff" where
  "check_tool_rate b ctx =
    (case Option.bind (b_permissions b (ctx_tool_name ctx)) tp_max_calls_per_hour of
       None \<Rightarrow> returnE ()
     | Some m \<Rightarrow>
        bindE (b_rate_limiter b (tool_key (b_agent_name b) (ctx_tool_name ctx)) m (Fin 3600))
          (\<lambda>ok. whenE (\<not> ok) (rate_violation ctx (''Tool '' @ repr_str (ctx_tool_name ctx) @
            '' exceeded limit of '' @ str_of_int m @ '' calls/hour for this agent.''))))"

definition check_rate_limit :: "'w boundary \<Rightarrow> call_context \<Rightarrow> ('w world_scheme, exn, unit) eff" where
  "check_rate_limit b ctx = thenE (check_global_rate b ctx) (check_tool_rate b ctx)"

text \<open>The loop over the hooks. Only an \<open>Exception\<close> of a hook is caught.\<close>

fun run_hooks :: "bool \<Rightarrow> call_context \<Rightarrow> 'w hook list \<Rightarrow> ('w world_scheme, exn, unit) eff" where
  "run_hooks fail_closed ctx [] w = (Inr (), w)"
| "run_hooks fail_closed ctx ((name, hook) # hooks) w =
     (case hook ctx w of
        (Inl e, w') \<Rightarrow>
          if is_exception e then
            if fail_closed then
              (Inl (violation ctx (''Policy hook '' @ name @
                 '' raised an error; failing closed: '' @ exn_text e) (ctx_operation ctx)
                 POLICY_HOOK_DENIED), w')
            else run_hooks fail_closed ctx hooks w'
          else (Inl e, w')
      | (Inr denial, w') \<Rightarrow>
          if truthy denial then
            (Inl (violation ctx (the denial) (ctx_operation ctx) POLICY_HOOK_DENIED), w')
          else run_hooks fail_closed ctx hooks w')"

definition check_policy_hooks :: "'w boundary \<Rightarrow> call_context \<Rightarrow> ('w world_scheme, exn, unit) eff" where
  "check_policy_hooks b ctx = run_hooks (b_fail_closed_on_hook_error b) ctx (b_policy_hooks b)"

definition needs_approval :: "'w boundary \<Rightarrow> call_context \<Rightarrow> tool_permission \<Rightarrow> bool" where
  "needs_approval b ctx p \<longleftrightarrow>
     tp_requires_approval p \<or> b_autonomy b = HUMAN_APPROVAL_REQUIRED \<or>
     (b_autonomy b = RECOMMEND_ONLY \<and> ctx_access_mode ctx \<noteq> READ_ONLY)"

text \<open>\<open>operation or '*'\<close>\<close>

definition op_or_star :: "string option \<Rightarrow> string" where
  "op_or_star op = (if truthy op then the op else ''*'')"

definition check_requires_approval ::
  "'w boundary \<Rightarrow> call_context \<Rightarrow> tool_permission \<Rightarrow> ('w world_scheme, exn, unit) eff" where
  "check_requires_approval b ctx p = whenE (needs_approval b ctx p)
     (ApprovalRequired (ctx_tool_name ctx @ ''.'' @ op_or_star (ctx_operation ctx) @
        '' requires human approval (autonomy='' @ autonomy_value (b_autonomy b) @ '').'')
        (ctx_agent_name ctx) (ctx_tool_name ctx) (ctx_operation ctx) None)"

section \<open>The decision\<close>

text \<open>The \<open>try\<close> block of \<open>check\<close>: the checks that need no permission, then those of the permission.\<close>

definition permission_checks ::
  "'w boundary \<Rightarrow> call_context \<Rightarrow> tool_permission \<Rightarrow> ('w world_scheme, exn, unit) eff" where
  "permission_checks b ctx p =
     thenE (check_operation ctx p)
    (thenE (check_access_mode ctx p)
    (thenE (check_value_limit b ctx p)
    (thenE (check_record_limit b ctx p)
    (thenE (check_rate_limit b ctx)
    (thenE (check_policy_hooks b ctx)
           (check_requires_approval b ctx p))))))"

definition local_checks :: "'w boundary \<Rightarrow> call_context \<Rightarrow> ('w world_scheme, exn, unit) eff" where
  "local_checks b ctx =
     thenE (check_kill_switch b ctx)
    (thenE (check_quarantine b ctx)
    (thenE (check_validity_window b ctx)
    (thenE (check_environment b ctx)
    (thenE (check_global_blocked_operations b ctx)
    (bindE (check_tool_permission b ctx) (permission_checks b ctx))))))"

text \<open>The keyword arguments of a call.\<close>

record call_request =
  rq_tool_name :: string
  rq_operation :: "string option"
  rq_access_mode :: access_mode
  rq_value :: pyval
  rq_record_count :: pyval
  rq_correlation_id :: "string option"
  rq_metadata :: "pydict option"

definition or_empty :: "pydict option \<Rightarrow> pydict" where
  "or_empty d = (case d of None \<Rightarrow> [] | Some x \<Rightarrow> x)"

definition context_of :: "'w boundary \<Rightarrow> call_request \<Rightarrow> call_context" where
  "context_of b rq = \<lparr>ctx_agent_name = b_agent_name b, ctx_tool_name = rq_tool_name rq,
     ctx_operation = rq_operation rq, ctx_access_mode = rq_access_mode rq,
     ctx_value = rq_value rq, ctx_record_count = rq_record_count rq,
     ctx_correlation_id = rq_correlation_id rq, ctx_metadata = or_empty (rq_metadata rq)\<rparr>"

text \<open>The \<open>try\<close> block of \<open>evaluate\<close> is a list of its own in the code.\<close>

definition evaluate_checks :: "'w boundary \<Rightarrow> call_context \<Rightarrow> ('w world_scheme, exn, unit) eff" where
  "evaluate_checks b ctx =
     thenE (check_kill_switch b ctx)
    (thenE (check_quarantine b ctx)
    (thenE (check_validity_window b ctx)
    (thenE (check_environment b ctx)
    (thenE (check_global_blocked_operations b ctx)
    (bindE (check_tool_permission b ctx) (\<lambda>permission.
     thenE (check_operation ctx permission)
    (thenE (check_access_mode ctx permission)
    (thenE (check_value_limit b ctx permission)
    (thenE (check_record_limit b ctx permission)
    (thenE (check_rate_limit b ctx)
    (thenE (check_policy_hooks b ctx)
           (check_requires_approval b ctx permission))))))))))))"

definition evaluate :: "'w boundary \<Rightarrow> call_request \<Rightarrow> ('w world_scheme, exn, local_decision) eff" where
  "evaluate b rq = bindE uuid4 (\<lambda>decision_id w.
     let mk = (\<lambda>d reason approval_id. \<lparr>ld_decision = decision_value d, ld_decision_id = decision_id,
           ld_agent_name = b_agent_name b, ld_tool_name = rq_tool_name rq,
           ld_operation = rq_operation rq, ld_reason_code = reason, ld_approval_id = approval_id,
           ld_policy_version = b_policy_version b\<rparr>)
     in case evaluate_checks b (context_of b rq) w of
          (Inl (ApprovalRequired msg ag tool opn aid), w') \<Rightarrow>
            (Inr (mk APPROVAL_REQUIRED (Some (reason_value APPROVAL_REQUIRED_REASON)) aid), w')
        | (Inl (BoundaryViolation c msg ag tool opn rule), w') \<Rightarrow> (Inr (mk DENY rule None), w')
        | (Inl e, w') \<Rightarrow> (Inl e, w')
        | (Inr _, w') \<Rightarrow> (Inr (mk ALLOW None None), w'))"

definition audit_check ::
  "'w boundary \<Rightarrow> call_request \<Rightarrow> decision_type \<Rightarrow> string \<Rightarrow> string option \<Rightarrow>
   ('w world_scheme, exn, audit_event) eff" where
  "audit_check b rq d message reason_code =
     audit_record (b_audit b) (b_agent_name b) (decision_value d) message (Some (rq_tool_name rq))
       (rq_operation rq) (Some (access_value (rq_access_mode rq))) reason_code
       (rq_correlation_id rq) (or_empty (rq_metadata rq))"

definition check :: "'w boundary \<Rightarrow> call_request \<Rightarrow> ('w world_scheme, exn, unit) eff" where
  "check b rq w =
    (case local_checks b (context_of b rq) w of
       (Inl e, w') \<Rightarrow>
         (case e of
            ApprovalRequired msg ag tool opn aid \<Rightarrow>
              bindE (audit_check b rq APPROVAL_REQUIRED (exn_text e)
                (Some (reason_value APPROVAL_REQUIRED_REASON))) (\<lambda>_. throwE e) w'
          | BoundaryViolation c msg ag tool opn rule \<Rightarrow>
              bindE (audit_check b rq DENY (exn_text e) rule) (\<lambda>_. throwE e) w'
          | _ \<Rightarrow> (Inl e, w'))
     | (Inr _, w') \<Rightarrow>
         bindE (audit_check b rq ALLOW
           (rq_tool_name rq @ ''.'' @ op_or_star (rq_operation rq) @ '' allowed'') None)
           (\<lambda>_. returnE ()) w')"

definition check_and_authorize ::
  "'w boundary \<Rightarrow> call_request \<Rightarrow> ('w world_scheme, exn, authorization_token) eff" where
  "check_and_authorize b rq = (case b_token_issuer b of
       None \<Rightarrow> throwE (ConfigurationError (''check_and_authorize() requires a token_issuer to be '' @
         ''configured on this Boundary. Pass token_issuer=TokenIssuer(...) when constructing it, '' @
         ''or use plain check() if you don'' @ [CHR 0x27] @ ''t need network-layer enforcement.''))
     | Some issuer \<Rightarrow> thenE (check b rq)
         (issue issuer (b_agent_name b) (rq_tool_name rq) (rq_operation rq)))"

named_theorems check_ok "when one check lets a call pass"

section \<open>When each check passes\<close>

lemma whenE_ok [check_ok]: "whenE c e w = (Inr u, w') \<longleftrightarrow> \<not> c \<and> w' = w"
  by auto

lemma check_kill_switch_ok [check_ok]:
  "check_kill_switch b ctx w = (Inr u, w') \<longleftrightarrow> \<not> kill_switch_engaged b w \<and> w' = w"
  by (auto simp: check_kill_switch_def)

lemma check_quarantine_ok [check_ok]:
  "check_quarantine b ctx w = (Inr u, w') \<longleftrightarrow> b_autonomy b \<noteq> QUARANTINED \<and> w' = w"
  by (auto simp: check_quarantine_def)

text \<open>The wall-clock reading a check takes, and the validity window at that time.\<close>

definition now_of :: "'w world_scheme \<Rightarrow> rat" where
  "now_of w = wall w (wall_ix w)"

definition tick :: "'w world_scheme \<Rightarrow> 'w world_scheme" where
  "tick w = w\<lparr>wall_ix := Suc (wall_ix w)\<rparr>"

definition within_validity :: "'w boundary \<Rightarrow> rat \<Rightarrow> bool" where
  "within_validity b now \<longleftrightarrow>
     \<not> opt_holds (num_lt (NFloat (Fin now))) (b_valid_from b) \<and>
     \<not> opt_holds (\<lambda>t. num_lt t (NFloat (Fin now))) (b_valid_to b)"

lemma check_validity_window_ok [check_ok]:
  "check_validity_window b ctx w = (Inr u, w') \<longleftrightarrow> within_validity b (now_of w) \<and> w' = tick w"
  by (auto simp: check_validity_window_def bindE_def thenE_def time_time_def within_validity_def
      now_of_def tick_def)

definition environment_ok :: "'w boundary \<Rightarrow> bool" where
  "environment_ok b \<longleftrightarrow> (\<forall>E. b_allowed_environments b = Some E \<longrightarrow> b_environment b \<in> E)"

lemma check_environment_ok [check_ok]:
  "check_environment b ctx w = (Inr u, w') \<longleftrightarrow> environment_ok b \<and> w' = w"
  by (auto simp: check_environment_def opt_holds_iff environment_ok_def)

lemma check_global_blocked_operations_ok [check_ok]:
  "check_global_blocked_operations b ctx w = (Inr u, w') \<longleftrightarrow>
     (\<forall>x. ctx_operation ctx = Some x \<longrightarrow> x \<notin> b_blocked_operations b) \<and> w' = w"
  by (auto simp: check_global_blocked_operations_def opt_holds_iff)

lemma check_tool_permission_ok [check_ok]:
  "check_tool_permission b ctx w = (Inr p, w') \<longleftrightarrow>
     b_permissions b (ctx_tool_name ctx) = Some p \<and> w' = w"
  by (auto simp: check_tool_permission_def split: option.splits)

lemma check_operation_ok [check_ok]:
  "check_operation ctx p w = (Inr u, w') \<longleftrightarrow> operation_allowed p (ctx_operation ctx) \<and> w' = w"
  by (auto simp: check_operation_def)

lemma check_access_mode_ok [check_ok]:
  "check_access_mode ctx p w = (Inr u, w') \<longleftrightarrow> ctx_access_mode ctx \<le> tp_access_mode p \<and> w' = w"
  by (auto simp: check_access_mode_def less_eq_access_mode_def)

lemma throw_repr_not_ok [simp]: "throw_repr ctx x v y rule w \<noteq> (Inr a, w')"
  by (auto simp: throw_repr_def bindE_Inr_iff)

text \<open>The numeric limits as predicates on the supplied value.\<close>

definition value_ok :: "bool \<Rightarrow> tool_permission \<Rightarrow> pyval \<Rightarrow> bool" where
  "value_ok strict p v \<longleftrightarrow>
    (if v = PNone then \<not> (strict \<and> tp_max_value p \<noteq> None)
     else (tp_max_value p = None \<and> tp_min_value p = None) \<or>
       (case as_finite_number v of None \<Rightarrow> False
        | Some q \<Rightarrow> \<not> opt_holds (num_lt (NFloat (Fin q))) (tp_min_value p) \<and>
            \<not> opt_holds (\<lambda>hi. num_lt hi (NFloat (Fin q))) (tp_max_value p)))"

definition records_ok :: "bool \<Rightarrow> tool_permission \<Rightarrow> pyval \<Rightarrow> bool" where
  "records_ok strict p v \<longleftrightarrow>
    (if v = PNone then \<not> (strict \<and> tp_max_records p \<noteq> None)
     else (case tp_max_records p of None \<Rightarrow> True | Some hi \<Rightarrow>
       (case as_finite_number v of None \<Rightarrow> False
        | Some q \<Rightarrow> 0 \<le> q \<and> of_int \<lfloor>q\<rfloor> = q \<and> \<not> num_lt hi (NFloat (Fin q)))))"

lemma check_value_limit_ok [check_ok]:
  "check_value_limit b ctx p w = (Inr u, w') \<longleftrightarrow>
     value_ok (b_strict_limits b) p (ctx_value ctx) \<and> w' = w"
  by (auto simp: check_value_limit_def value_ok_def thenE_Inr_iff check_ok split: option.splits)

lemma check_record_limit_ok [check_ok]:
  "check_record_limit b ctx p w = (Inr u, w') \<longleftrightarrow>
     records_ok (b_strict_limits b) p (ctx_record_count ctx) \<and> w' = w"
  by (auto simp: check_record_limit_def records_ok_def check_ok split: option.splits)

lemma check_requires_approval_ok [check_ok]:
  "check_requires_approval b ctx p w = (Inr u, w') \<longleftrightarrow> \<not> needs_approval b ctx p \<and> w' = w"
  by (auto simp: check_requires_approval_def)

section \<open>When a call is allowed\<close>

text \<open>Everything a call must satisfy before the limiter is asked.\<close>

definition static_ok :: "'w boundary \<Rightarrow> call_context \<Rightarrow> tool_permission \<Rightarrow> 'w world_scheme \<Rightarrow> bool" where
  "static_ok b ctx p w \<longleftrightarrow>
     \<not> kill_switch_engaged b w \<and> b_autonomy b \<noteq> QUARANTINED \<and> within_validity b (now_of w) \<and>
     environment_ok b \<and> (\<forall>x. ctx_operation ctx = Some x \<longrightarrow> x \<notin> b_blocked_operations b) \<and>
     b_permissions b (ctx_tool_name ctx) = Some p \<and> operation_allowed p (ctx_operation ctx) \<and>
     ctx_access_mode ctx \<le> tp_access_mode p \<and>
     value_ok (b_strict_limits b) p (ctx_value ctx) \<and>
     records_ok (b_strict_limits b) p (ctx_record_count ctx)"

lemma local_checks_ok:
  "local_checks b ctx w = (Inr u, w') \<longleftrightarrow>
    (\<exists>p w1. static_ok b ctx p w \<and> check_rate_limit b ctx (tick w) = (Inr (), w1) \<and>
       check_policy_hooks b ctx w1 = (Inr (), w') \<and> \<not> needs_approval b ctx p)"
  unfolding local_checks_def permission_checks_def thenE_Inr_iff bindE_Inr_iff check_ok static_ok_def
  by auto

section \<open>The first violated rule\<close>

text \<open>
  The policy as an ordered list of rules, each with the condition under which it is violated:
  the abstract specification of the static part of the decision.
\<close>

definition value_rules :: "bool \<Rightarrow> tool_permission \<Rightarrow> pyval \<Rightarrow> (violation_reason \<times> bool) list" where
  "value_rules strict p v =
    (if v = PNone then [(VALUE_REQUIRED, strict \<and> tp_max_value p \<noteq> None)]
     else if tp_max_value p = None \<and> tp_min_value p = None then []
     else (case as_finite_number v of
         None \<Rightarrow> [(INVALID_VALUE, True)]
       | Some q \<Rightarrow> [(MIN_VALUE_VIOLATED, opt_holds (num_lt (NFloat (Fin q))) (tp_min_value p)),
                    (MAX_VALUE_EXCEEDED, opt_holds (\<lambda>hi. num_lt hi (NFloat (Fin q))) (tp_max_value p))]))"

definition record_rules :: "bool \<Rightarrow> tool_permission \<Rightarrow> pyval \<Rightarrow> (violation_reason \<times> bool) list" where
  "record_rules strict p v =
    (if v = PNone then [(RECORDS_REQUIRED, strict \<and> tp_max_records p \<noteq> None)]
     else (case tp_max_records p of None \<Rightarrow> []
       | Some hi \<Rightarrow> (case as_finite_number v of
           None \<Rightarrow> [(INVALID_VALUE, True)]
         | Some q \<Rightarrow> [(INVALID_VALUE, q < 0 \<or> of_int \<lfloor>q\<rfloor> \<noteq> q),
                      (MAX_RECORDS_EXCEEDED, num_lt hi (NFloat (Fin q)))])))"

definition permission_rules ::
  "'w boundary \<Rightarrow> call_context \<Rightarrow> tool_permission \<Rightarrow> (violation_reason \<times> bool) list" where
  "permission_rules b ctx p =
     [(OPERATION_BLOCKED, \<not> operation_allowed p (ctx_operation ctx)),
      (ACCESS_MODE_EXCEEDED, \<not> ctx_access_mode ctx \<le> tp_access_mode p)] @
     value_rules (b_strict_limits b) p (ctx_value ctx) @
     record_rules (b_strict_limits b) p (ctx_record_count ctx)"

definition static_rules ::
  "'w boundary \<Rightarrow> call_context \<Rightarrow> 'w world_scheme \<Rightarrow> (violation_reason \<times> bool) list" where
  "static_rules b ctx w =
     [(KILL_SWITCH_ACTIVE, kill_switch_engaged b w),
      (AGENT_QUARANTINED, b_autonomy b = QUARANTINED),
      (OUTSIDE_VALID_PERIOD, \<not> within_validity b (now_of w)),
      (ENVIRONMENT_NOT_ALLOWED, \<not> environment_ok b),
      (OPERATION_BLOCKED, opt_holds (\<lambda>x. x \<in> b_blocked_operations b) (ctx_operation ctx)),
      (TOOL_NOT_ALLOWED, b_permissions b (ctx_tool_name ctx) = None)] @
     (case b_permissions b (ctx_tool_name ctx) of None \<Rightarrow> [] | Some p \<Rightarrow> permission_rules b ctx p)"

fun first_violated :: "('a \<times> bool) list \<Rightarrow> 'a option" where
  "first_violated [] = None"
| "first_violated ((r, v) # rs) = (if v then Some r else first_violated rs)"

lemma first_violated_append:
  "first_violated (rs @ rs') =
    (case first_violated rs of None \<Rightarrow> first_violated rs' | Some r \<Rightarrow> Some r)"
  by (induction rs) auto

lemma first_violated_None: "first_violated rs = None \<longleftrightarrow> (\<forall>r \<in> set rs. \<not> snd r)"
  by (induction rs) (auto split: if_splits)

lemma value_rules_ok: "first_violated (value_rules strict p v) = None \<longleftrightarrow> value_ok strict p v"
  by (auto simp: value_rules_def value_ok_def split: option.splits)

lemma record_rules_ok: "first_violated (record_rules strict p v) = None \<longleftrightarrow> records_ok strict p v"
  by (auto simp: record_rules_def records_ok_def split: option.splits)

lemma permission_rules_ok:
  "first_violated (permission_rules b ctx p) = None \<longleftrightarrow>
     operation_allowed p (ctx_operation ctx) \<and> ctx_access_mode ctx \<le> tp_access_mode p \<and>
     value_ok (b_strict_limits b) p (ctx_value ctx) \<and>
     records_ok (b_strict_limits b) p (ctx_record_count ctx)"
  unfolding permission_rules_def first_violated_append value_rules_ok[symmetric]
    record_rules_ok[symmetric]
  by (auto split: option.splits)

lemma static_rules_ok:
  "first_violated (static_rules b ctx w) = None \<longleftrightarrow> (\<exists>p. static_ok b ctx p w)"
proof (cases "b_permissions b (ctx_tool_name ctx)")
  case None
  then show ?thesis by (auto simp: static_rules_def static_ok_def)
next
  case (Some p)
  then have "first_violated (static_rules b ctx w) = None \<longleftrightarrow>
      \<not> kill_switch_engaged b w \<and> b_autonomy b \<noteq> QUARANTINED \<and> within_validity b (now_of w) \<and>
      environment_ok b \<and> \<not> opt_holds (\<lambda>x. x \<in> b_blocked_operations b) (ctx_operation ctx) \<and>
      first_violated (permission_rules b ctx p) = None"
    by (simp add: static_rules_def)
  then show ?thesis
    using Some by (auto simp: permission_rules_ok static_ok_def opt_holds_iff)
qed

text \<open>The error a check raises for a violated rule.\<close>

definition raises :: "violation_reason \<Rightarrow> exn + 'a \<Rightarrow> bool" where
  "raises r x \<longleftrightarrow> (case x of Inl e \<Rightarrow> (case e of
       BoundaryViolation c m ag tool opn rule \<Rightarrow> rule = Some (reason_value r) | _ \<Rightarrow> False)
     | Inr _ \<Rightarrow> False)"

lemma raises_Inl [simp]:
  "raises r (Inl (BoundaryViolation c m ag tool opn rule)) \<longleftrightarrow> rule = Some (reason_value r)"
  by (simp add: raises_def)

lemma raises_iff:
  "raises r x \<longleftrightarrow> (\<exists>c m ag tool opn. x = Inl (BoundaryViolation c m ag tool opn (Some (reason_value r))))"
  by (auto simp: raises_def split: sum.splits exn.splits)

definition shown :: "pyval \<Rightarrow> bool" where
  "shown v \<longleftrightarrow> (\<exists>s. repr_val v = Inr s)"

lemma throw_repr_shown:
  "shown v \<Longrightarrow> raises r (fst (throw_repr ctx x v y r w)) \<and> snd (throw_repr ctx x v y r w) = w"
  by (auto simp: shown_def throw_repr_def bindE_def)

lemma throw_repr_raises [simp]:
  "shown v \<Longrightarrow> raises r (fst (throw_repr ctx x v y r w))"
  "shown v \<Longrightarrow> snd (throw_repr ctx x v y r w) = w"
  using throw_repr_shown by blast+

text \<open>
  A computation \<open>m\<close> stages the rules \<open>rs\<close>: it raises the first violated one, ending in
  \<open>S\<close>; \<open>passes\<close> is the other case. Stages compose as the rule lists do.
\<close>

definition staged ::
  "'s set \<Rightarrow> (violation_reason \<times> bool) list \<Rightarrow> ('s, exn, 'a) eff \<Rightarrow> 's \<Rightarrow> bool" where
  "staged S rs m w \<longleftrightarrow>
     (\<forall>r. first_violated rs = Some r \<longrightarrow> raises r (fst (m w)) \<and> snd (m w) \<in> S)"

definition passes :: "(violation_reason \<times> bool) list \<Rightarrow> ('s, exn, unit) eff \<Rightarrow> 's \<Rightarrow> 's \<Rightarrow> bool" where
  "passes rs m w w' \<longleftrightarrow> (first_violated rs = None \<longrightarrow> m w = (Inr (), w'))"

lemma staged_thenE:
  assumes "staged S rs m w" "passes rs m w w'" "staged S rs' k w'"
  shows "staged S (rs @ rs') (thenE m k) w"
proof (unfold staged_def, intro allI impI)
  fix r
  assume f: "first_violated (rs @ rs') = Some r"
  show "raises r (fst (thenE m k w)) \<and> snd (thenE m k w) \<in> S"
  proof (cases "first_violated rs")
    case None
    then have "thenE m k w = k w'" using assms(2) by (simp add: passes_def thenE_Inr)
    then show ?thesis using assms(3) f None by (simp add: staged_def first_violated_append)
  next
    case (Some r')
    then have "raises r (fst (m w)) \<and> snd (m w) \<in> S"
      using assms(1) f by (simp add: staged_def first_violated_append)
    then show ?thesis by (cases "m w") (auto simp: raises_iff thenE_def bindE_def)
  qed
qed

lemmas staged_cons = staged_thenE [where rs = "[x]" for x, simplified]

lemma staged_Nil [simp]: "staged S [] m w"
  by (simp add: staged_def)

lemma staged_value_limit:
  "shown (ctx_value ctx) \<Longrightarrow> w \<in> S \<Longrightarrow>
   staged S (value_rules (b_strict_limits b) p (ctx_value ctx)) (check_value_limit b ctx p) w"
  by (auto simp: staged_def check_value_limit_def value_rules_def thenE_def bindE_def
      split: option.splits)

lemma staged_record_limit:
  "shown (ctx_record_count ctx) \<Longrightarrow> w \<in> S \<Longrightarrow>
   staged S (record_rules (b_strict_limits b) p (ctx_record_count ctx)) (check_record_limit b ctx p) w"
  by (auto simp: staged_def check_record_limit_def record_rules_def split: option.splits)

lemma staged_permission_checks:
  assumes "shown (ctx_value ctx)" "shown (ctx_record_count ctx)" "w \<in> S"
  shows "staged S (permission_rules b ctx p) (permission_checks b ctx p) w"
  unfolding permission_rules_def permission_checks_def append_Cons append_Nil
proof (intro staged_cons staged_thenE)
  show "staged S [(OPERATION_BLOCKED, \<not> operation_allowed p (ctx_operation ctx))]
      (check_operation ctx p) w"
    using assms(3) by (auto simp: staged_def check_operation_def)
  show "staged S [(ACCESS_MODE_EXCEEDED, \<not> ctx_access_mode ctx \<le> tp_access_mode p)]
      (check_access_mode ctx p) w"
    using assms(3) by (auto simp: staged_def check_access_mode_def less_eq_access_mode_def)
  show "staged S (value_rules (b_strict_limits b) p (ctx_value ctx)) (check_value_limit b ctx p) w"
    by (rule staged_value_limit[OF assms(1,3)])
  show "passes [(OPERATION_BLOCKED, \<not> operation_allowed p (ctx_operation ctx))] (check_operation ctx p) w w"
    and "passes [(ACCESS_MODE_EXCEEDED, \<not> ctx_access_mode ctx \<le> tp_access_mode p)] (check_access_mode ctx p) w w"
    and "passes (value_rules (b_strict_limits b) p (ctx_value ctx)) (check_value_limit b ctx p) w w"
    by (simp_all add: passes_def check_ok value_rules_ok)
  show "staged S (record_rules (b_strict_limits b) p (ctx_record_count ctx))
     (thenE (check_record_limit b ctx p) (thenE (check_rate_limit b ctx)
        (thenE (check_policy_hooks b ctx) (check_requires_approval b ctx p)))) w"
    using staged_thenE[OF staged_record_limit[OF assms(2,3)], of b p w "[]"]
    by (simp add: passes_def check_ok record_rules_ok)
qed

text \<open>
  The detailed checks implement the ordered list: the first violated rule is the one reported,
  and nothing but the clock was touched on the way.
\<close>

lemma staged_local_checks:
  assumes "shown (ctx_value ctx)" "shown (ctx_record_count ctx)"
  shows "staged {w, tick w} (static_rules b ctx w) (local_checks b ctx) w"
  unfolding static_rules_def local_checks_def append_Cons append_Nil
proof (intro staged_cons)
  let ?S = "{w, tick w}"
  show "staged ?S [(KILL_SWITCH_ACTIVE, kill_switch_engaged b w)] (check_kill_switch b ctx) w"
    by (auto simp: staged_def check_kill_switch_def)
  show "staged ?S [(AGENT_QUARANTINED, b_autonomy b = QUARANTINED)] (check_quarantine b ctx) w"
    by (auto simp: staged_def check_quarantine_def)
  show "staged ?S [(OUTSIDE_VALID_PERIOD, \<not> within_validity b (now_of w))] (check_validity_window b ctx) w"
    by (auto simp: staged_def check_validity_window_def bindE_def thenE_def time_time_def
        within_validity_def now_of_def tick_def)
  show "staged ?S [(ENVIRONMENT_NOT_ALLOWED, \<not> environment_ok b)] (check_environment b ctx) (tick w)"
    by (auto simp: staged_def check_environment_def environment_ok_def opt_holds_iff)
  show "staged ?S [(OPERATION_BLOCKED, opt_holds (\<lambda>x. x \<in> b_blocked_operations b) (ctx_operation ctx))]
      (check_global_blocked_operations b ctx) (tick w)"
    by (auto simp: staged_def check_global_blocked_operations_def)
  show "passes [(KILL_SWITCH_ACTIVE, kill_switch_engaged b w)] (check_kill_switch b ctx) w w"
    and "passes [(AGENT_QUARANTINED, b_autonomy b = QUARANTINED)] (check_quarantine b ctx) w w"
    and "passes [(OUTSIDE_VALID_PERIOD, \<not> within_validity b (now_of w))] (check_validity_window b ctx) w (tick w)"
    and "passes [(ENVIRONMENT_NOT_ALLOWED, \<not> environment_ok b)] (check_environment b ctx) (tick w) (tick w)"
    and "passes [(OPERATION_BLOCKED, opt_holds (\<lambda>x. x \<in> b_blocked_operations b) (ctx_operation ctx))]
      (check_global_blocked_operations b ctx) (tick w) (tick w)"
    by (auto simp: passes_def check_ok opt_holds_iff)
  show "staged ?S ((TOOL_NOT_ALLOWED, b_permissions b (ctx_tool_name ctx) = None) #
        (case b_permissions b (ctx_tool_name ctx) of None \<Rightarrow> [] | Some p \<Rightarrow> permission_rules b ctx p))
      (bindE (check_tool_permission b ctx) (permission_checks b ctx)) (tick w)"
  proof (cases "b_permissions b (ctx_tool_name ctx)")
    case None
    then show ?thesis by (simp add: staged_def check_tool_permission_def bindE_def)
  next
    case (Some p)
    then have "bindE (check_tool_permission b ctx) (permission_checks b ctx) (tick w)
        = permission_checks b ctx p (tick w)"
      by (simp add: check_tool_permission_def bindE_def)
    then show ?thesis
      using staged_permission_checks[OF assms, of "tick w" ?S b p] Some by (simp add: staged_def)
  qed
qed

end
