(* ===== verification/Boundary_Decision.thy ===== *)
theory Boundary_Decision
  imports Boundary_Policy
begin

text \<open>
  What the decision of \<open>Boundary_Policy\<close> guarantees: which calls \<open>check\<close> lets pass, what
  it reports and logs for the others, and what a token minted for a call is good for.
\<close>

section \<open>Outcomes\<close>

text \<open>The decision an outcome of the checks stands for; other exceptions are no decision.\<close>

fun decision_of :: "exn + unit \<Rightarrow> decision_type option" where
  "decision_of (Inr _) = Some ALLOW"
| "decision_of (Inl (BoundaryViolation c m ag tool opn rule)) = Some DENY"
| "decision_of (Inl (ApprovalRequired m ag tool opn aid)) = Some APPROVAL_REQUIRED"
| "decision_of (Inl _) = None"

fun reason_of :: "exn + unit \<Rightarrow> string option" where
  "reason_of (Inl (BoundaryViolation c m ag tool opn rule)) = rule"
| "reason_of (Inl (ApprovalRequired m ag tool opn aid)) = Some (reason_value APPROVAL_REQUIRED_REASON)"
| "reason_of _ = None"

definition tame_boundary :: "'w boundary \<Rightarrow> bool" where
  "tame_boundary b \<longleftrightarrow> (\<forall>s \<in> set (b_audit b). tame_sink s)"

lemma audit_check_ok:
  assumes "tame_boundary b"
  obtains ev w' where "audit_check b rq d msg reason w = (Inr ev, w')"
  using audit_record_ok[of "b_audit b"] assms unfolding audit_check_def tame_boundary_def by metis

text \<open>With tame sinks, auditing never changes the outcome.\<close>

text \<open>\<open>check\<close> in one line: run the checks, audit a decision, pass the outcome on.\<close>

definition audit_message :: "call_request \<Rightarrow> exn + unit \<Rightarrow> string" where
  "audit_message rq r = (case r of Inl e \<Rightarrow> exn_text e
     | Inr _ \<Rightarrow> rq_tool_name rq @ ''.'' @ op_or_star (rq_operation rq) @ '' allowed'')"

lemma check_shape:
  assumes "local_checks b (context_of b rq) w = (r, w1)"
  shows "check b rq w = (case decision_of r of None \<Rightarrow> (r, w1)
     | Some d \<Rightarrow> bindE (audit_check b rq d (audit_message rq r) (reason_of r)) (\<lambda>_. liftE r) w1)"
proof (cases r)
  case (Inl e)
  then show ?thesis
    using assms by (cases e) (auto simp: check_def audit_message_def bindE_def split: prod.splits sum.splits)
next
  case (Inr u)
  then show ?thesis
    using assms by (auto simp: check_def audit_message_def bindE_def split: prod.splits sum.splits)
qed

lemma check_outcome:
  assumes "tame_boundary b"
  shows "fst (check b rq w) = fst (local_checks b (context_of b rq) w)"
proof -
  obtain r w1 where l: "local_checks b (context_of b rq) w = (r, w1)" by fastforce
  have "fst (bindE (audit_check b rq d msg reason) (\<lambda>_. liftE r) w1) = r" for d msg reason
    by (rule audit_check_ok[OF assms, of rq d msg reason w1]) (simp add: bindE_def)
  then show ?thesis by (simp add: check_shape[OF l] l split: option.splits)
qed

text \<open>The list of \<open>evaluate\<close> and that of \<open>check\<close> are the same checks in the same order.\<close>

lemma evaluate_checks_run: "evaluate_checks b ctx = local_checks b ctx"
  by (simp add: evaluate_checks_def local_checks_def permission_checks_def[abs_def])

lemma evaluate_shape:
  assumes "local_checks b (context_of b rq) (w\<lparr>uuid_ix := Suc (uuid_ix w)\<rparr>) = (r, w1)"
  shows "evaluate b rq w = ((case decision_of r of None \<Rightarrow> Inl (projl r)
     | Some dt \<Rightarrow> Inr \<lparr>ld_decision = decision_value dt, ld_decision_id = uuids w (uuid_ix w),
            ld_agent_name = b_agent_name b, ld_tool_name = rq_tool_name rq,
            ld_operation = rq_operation rq, ld_reason_code = reason_of r,
            ld_approval_id = (case r of Inl (ApprovalRequired m ag tool opn aid) \<Rightarrow> aid | _ \<Rightarrow> None),
            ld_policy_version = b_policy_version b\<rparr>), w1)"
  using assms
  by (cases r rule: decision_of.cases) (simp_all add: evaluate_def evaluate_checks_run bindE_def uuid4_def)

lemma evaluate_outcome:
  "evaluate b rq w = (Inr d, w') \<longleftrightarrow>
    (\<exists>r dt. local_checks b (context_of b rq) (w\<lparr>uuid_ix := Suc (uuid_ix w)\<rparr>) = (r, w') \<and>
       decision_of r = Some dt \<and>
       d = \<lparr>ld_decision = decision_value dt, ld_decision_id = uuids w (uuid_ix w),
            ld_agent_name = b_agent_name b, ld_tool_name = rq_tool_name rq,
            ld_operation = rq_operation rq, ld_reason_code = reason_of r,
            ld_approval_id = (case r of Inl (ApprovalRequired m ag tool opn aid) \<Rightarrow> aid | _ \<Rightarrow> None),
            ld_policy_version = b_policy_version b\<rparr>)"
proof -
  obtain r w1 where l: "local_checks b (context_of b rq) (w\<lparr>uuid_ix := Suc (uuid_ix w)\<rparr>) = (r, w1)" by fastforce
  show ?thesis by (auto simp: evaluate_shape[OF l] l split: option.splits)
qed

lemma keeps_whole:
  assumes "\<And>w. snd (m w) = w"
  shows "keeps g m"
  using assms by (simp add: keeps_def)

lemma moves_run_hooks:
  assumes "reflp R" "transp R" "\<And>h ctx. h \<in> set hooks \<Longrightarrow> moves R (snd h ctx)"
  shows "moves R (run_hooks fc ctx hooks)"
proof (rule movesI)
  fix w
  show "R w (snd (run_hooks fc ctx hooks w))"
    using assms(3)
  proof (induction hooks arbitrary: w)
    case Nil
    then show ?case using assms(1) by (simp add: reflp_def)
  next
    case (Cons h hooks)
    obtain name f where h: "h = (name, f)" by fastforce
    obtain r w' where f: "f ctx w = (r, w')" by fastforce
    have w': "R w w'" using Cons.prems[of h ctx] f h by (auto simp: moves_def dest: spec[of _ w])
    moreover have "R w' (snd (run_hooks fc ctx hooks w'))" using Cons by simp
    ultimately have "R w (snd (run_hooks fc ctx hooks w'))" using assms(2) by (meson transpD)
    then show ?case using w' f h by (auto split: sum.splits)
  qed
qed

lemma keeps_run_hooks:
  assumes "\<And>h ctx. h \<in> set hooks \<Longrightarrow> keeps g (snd h ctx)"
  shows "keeps g (run_hooks fc ctx hooks)"
  using assms unfolding keeps_moves by (rule moves_run_hooks[OF reflp_keeps transp_keeps])

lemma keeps_throw_repr: "keeps g (throw_repr ctx x v y rule)"
  unfolding throw_repr_def by (intro keeps_intros)

lemma keeps_rate_limit:
  assumes "\<And>k m win. keeps g (b_rate_limiter b k m win)"
  shows "keeps g (check_rate_limit b ctx)"
  unfolding check_rate_limit_def check_global_rate_def check_tool_rate_def
  using assms by (intro keeps_thenE) (auto split: option.splits intro!: keeps_intros)

lemma keeps_static:
  "keeps g (check_kill_switch b ctx)" "keeps g (check_quarantine b ctx)"
  "keeps g (check_environment b ctx)" "keeps g (check_global_blocked_operations b ctx)"
  "keeps g (check_tool_permission b ctx)" "keeps g (check_operation ctx p)"
  "keeps g (check_access_mode ctx p)" "keeps g (check_requires_approval b ctx p)"
  by (rule keeps_whole; simp add: check_kill_switch_def check_quarantine_def check_environment_def
      check_global_blocked_operations_def check_tool_permission_def check_operation_def
      check_access_mode_def check_requires_approval_def split: option.splits)+

lemma keeps_limits:
  "keeps g (check_value_limit b ctx p)" "keeps g (check_record_limit b ctx p)"
  unfolding check_value_limit_def check_record_limit_def
  by (auto split: option.splits intro!: keeps_intros keeps_throw_repr)

text \<open>A component of the world that limiter and hooks leave alone survives the checks.\<close>

lemma keeps_local_checks:
  assumes "\<And>k m win. keeps g (b_rate_limiter b k m win)"
    and "\<And>h ctx. h \<in> set (b_policy_hooks b) \<Longrightarrow> keeps g (snd h ctx)"
    and "\<And>w n. g (w\<lparr>wall_ix := n\<rparr>) = g w"
  shows "keeps g (local_checks b ctx)"
proof -
  have v: "keeps g (check_validity_window b ctx)"
    unfolding check_validity_window_def using assms(3) by (intro keeps_intros)
  have h: "keeps g (check_policy_hooks b ctx)"
    unfolding check_policy_hooks_def using assms(2) by (rule keeps_run_hooks)
  have "keeps g (permission_checks b ctx p)" for p
    unfolding permission_checks_def
    by (intro keeps_thenE keeps_static keeps_limits keeps_rate_limit assms(1) h)
  then show ?thesis
    unfolding local_checks_def by (intro keeps_thenE keeps_bindE keeps_static v)
qed


lemma keeps_check:
  assumes "keeps g (local_checks b (context_of b rq))"
    and "\<And>s ev. s \<in> set (b_audit b) \<Longrightarrow> keeps g (s ev)"
    and "\<And>w n. g (w\<lparr>wall_ix := n\<rparr>) = g w" "\<And>w n. g (w\<lparr>uuid_ix := n\<rparr>) = g w"
  shows "keeps g (check b rq)"
proof (rule keepsI)
  fix w
  have a: "keeps g (bindE (audit_check b rq d msg reason) (\<lambda>_. liftE r))"
    for d msg reason and r :: "exn + unit"
    unfolding audit_check_def by (intro keeps_intros assms)
  obtain r w' where l: "local_checks b (context_of b rq) w = (r, w')" by fastforce
  have "g w' = g w" by (rule keepsE[OF assms(1) l])
  then show "g (snd (check b rq w)) = g w"
    using keepsD[OF a] by (simp add: check_shape[OF l] split: option.splits)
qed

text \<open>The audit trail of a constructor without one writes one line.\<close>

lemma audit_check_default:
  assumes "b_audit b = default_sinks"
    and "\<And>jo. \<exists>t. dumps jo (PDict (or_empty (rq_metadata rq))) = Inr t"
  shows "\<exists>ev line. fst (audit_check b rq d msg reason w) = Inr ev \<and> event_to_json ev = Inr line \<and>
     ev_decision ev = decision_value d \<and> ev_reason_code ev = reason \<and>
     ev_agent_name ev = b_agent_name b \<and> ev_tool_name ev = Some (rq_tool_name rq) \<and>
     log (snd (audit_check b rq d msg reason w)) = log w @
       [(''toolboundary.audit'', if d = ALLOW then log_INFO else log_WARNING, line)]"
proof -
  have "decision_value d = ''ALLOW'' \<longleftrightarrow> d = ALLOW" by (cases d) simp_all
  then show ?thesis
    using audit_record_default[OF assms(2), of "b_agent_name b" "decision_value d" msg
        "Some (rq_tool_name rq)" "rq_operation rq" "Some (access_value (rq_access_mode rq))" reason
        "rq_correlation_id rq" w]
    by (auto simp: audit_check_def assms(1))
qed

lemma default_sinks_tame: "b_audit b = default_sinks \<Longrightarrow> tame_boundary b"
  by (simp add: tame_boundary_def default_sinks_def tame_logging_sink)

lemma run_hooks_refuses:
  assumes "h \<in> set hooks"
    and "\<And>w d. fst (snd h ctx w) = Inr d \<Longrightarrow> truthy d"
    and "fc \<or> (\<forall>w e. fst (snd h ctx w) = Inl e \<longrightarrow> \<not> is_exception e)"
  shows "fst (run_hooks fc ctx hooks w) \<noteq> Inr ()"
  using assms(1)
proof (induction hooks arbitrary: w)
  case (Cons g hooks)
  obtain name f where g: "g = (name, f)" by fastforce
  obtain r w' where f: "f ctx w = (r, w')" by fastforce
  show ?case
  proof (cases "g = h")
    case True
    have fw: "fst (snd h ctx w) = r" using True f g by auto
    show ?thesis
    proof (cases r)
      case (Inl e)
      then have "is_exception e \<Longrightarrow> fc" using assms(3) fw by blast
      then show ?thesis using Inl f g by auto
    next
      case (Inr d)
      then show ?thesis using assms(2) fw f g by simp
    qed
  next
    case False
    then have "fst (run_hooks fc ctx hooks w') \<noteq> Inr ()" using Cons by simp
    then show ?thesis using f g by (cases r) auto
  qed
qed simp

text \<open>Integers a double can hold are taken exactly.\<close>

lemma as_finite_int: "\<bar>n\<bar> \<le> 2 ^ 53 \<Longrightarrow> as_finite_number (PInt n) = Some (of_int n)"
  using is_double_int[of n] by (simp add: float_of_int_def is_double_def finite_of_def)

lemma as_finite_float: "as_finite_number (PFloat x) = (case x of Fin q \<Rightarrow> Some q | _ \<Rightarrow> None)"
  by (simp add: finite_of_def)

lemma check_static_ok:
  assumes "tame_boundary b" and "fst (check b rq w) = Inr ()"
  obtains p where "static_ok b (context_of b rq) p w"
proof -
  obtain w' where "local_checks b (context_of b rq) w = (Inr (), w')"
    using assms by (metis check_outcome eq_fst_iff)
  then show ?thesis using that by (auto simp: local_checks_ok)
qed

lemma local_checks_kill_switch:
  "kill_switch_engaged b w \<Longrightarrow> local_checks b ctx w =
     (Inl (BoundaryViolation KillSwitchActive ''Kill switch is engaged; all actions are denied.''
        (ctx_agent_name ctx) (Some (ctx_tool_name ctx)) (ctx_operation ctx)
        (Some (reason_value KILL_SWITCH_ACTIVE))), w)"
  by (simp add: local_checks_def thenE_def bindE_def check_kill_switch_def)

text \<open>A limiter that answers and never raises.\<close>

definition answering_limiter :: "'w boundary \<Rightarrow> bool" where
  "answering_limiter b \<longleftrightarrow> (\<forall>k m win w. \<exists>ok. fst (b_rate_limiter b k m win w) = Inr ok)"

text \<open>Only the last check asks for approval.\<close>

named_theorems no_approval

lemma run_hooks_no_approval:
  "run_hooks fc ctx hooks w \<noteq> (Inl (ApprovalRequired m ag tool opn aid), w')"
proof (induction hooks arbitrary: w)
  case (Cons h hooks)
  obtain name f where h: "h = (name, f)" by fastforce
  obtain r w1 where f: "f ctx w = (r, w1)" by fastforce
  show ?case
    using Cons[of w1] f h by (cases r) (auto split: if_splits)
qed simp

lemma throw_repr_no_approval:
  "throw_repr ctx x v y rule w \<noteq> (Inl (ApprovalRequired m ag tool opn aid), w')"
  by (auto simp: throw_repr_def bindE_Inl_iff of_py_def split: sum.splits)

lemma checks_no_approval [no_approval]:
  "check_kill_switch b ctx w \<noteq> (Inl (ApprovalRequired m ag tool opn aid), w')"
  "check_quarantine b ctx w \<noteq> (Inl (ApprovalRequired m ag tool opn aid), w')"
  "check_validity_window b ctx w \<noteq> (Inl (ApprovalRequired m ag tool opn aid), w')"
  "check_environment b ctx w \<noteq> (Inl (ApprovalRequired m ag tool opn aid), w')"
  "check_global_blocked_operations b ctx w \<noteq> (Inl (ApprovalRequired m ag tool opn aid), w')"
  "check_tool_permission b ctx w \<noteq> (Inl (ApprovalRequired m ag tool opn aid), w')"
  "check_operation ctx p w \<noteq> (Inl (ApprovalRequired m ag tool opn aid), w')"
  "check_access_mode ctx p w \<noteq> (Inl (ApprovalRequired m ag tool opn aid), w')"
  "check_policy_hooks b ctx w \<noteq> (Inl (ApprovalRequired m ag tool opn aid), w')"
  by (auto simp: check_kill_switch_def check_quarantine_def check_validity_window_def
      check_environment_def check_global_blocked_operations_def check_tool_permission_def
      check_operation_def check_access_mode_def check_policy_hooks_def run_hooks_no_approval
      bindE_Inl_iff thenE_Inl_iff time_time_def split: option.splits if_splits)

lemma check_limits_no_approval [no_approval]:
  "check_value_limit b ctx p w \<noteq> (Inl (ApprovalRequired m ag tool opn aid), w')"
  "check_record_limit b ctx p w \<noteq> (Inl (ApprovalRequired m ag tool opn aid), w')"
  by (auto simp: check_value_limit_def check_record_limit_def throw_repr_no_approval thenE_Inl_iff
      split: option.splits if_splits)

lemma check_rate_limit_no_approval:
  assumes "answering_limiter b"
  shows "check_rate_limit b ctx w \<noteq> (Inl (ApprovalRequired m ag tool opn aid), w')"
proof -
  have "b_rate_limiter b k n win v \<noteq> (Inl e, v')" for k n win v e v'
    using assms by (metis Inl_Inr_False answering_limiter_def fst_conv)
  then show ?thesis
    by (auto simp: check_rate_limit_def check_global_rate_def check_tool_rate_def thenE_Inl_iff
        bindE_Inl_iff split: option.splits if_splits)
qed

lemma check_requires_approval_asks:
  "check_requires_approval b ctx p w = (Inl e, w') \<longleftrightarrow>
     needs_approval b ctx p \<and> w' = w \<and> e = ApprovalRequired (ctx_tool_name ctx @ ''.'' @
        op_or_star (ctx_operation ctx) @ '' requires human approval (autonomy='' @
        autonomy_value (b_autonomy b) @ '').'')
        (ctx_agent_name ctx) (ctx_tool_name ctx) (ctx_operation ctx) None"
  by (auto simp: check_requires_approval_def)

lemma local_checks_ask_approval:
  assumes "answering_limiter b"
  shows "(\<exists>m ag tool opn aid w'. local_checks b ctx w = (Inl (ApprovalRequired m ag tool opn aid), w')) \<longleftrightarrow>
    (\<exists>p w1 w2. static_ok b ctx p w \<and> check_rate_limit b ctx (tick w) = (Inr (), w1) \<and>
       check_policy_hooks b ctx w1 = (Inr (), w2) \<and> needs_approval b ctx p)"
  unfolding local_checks_def permission_checks_def thenE_Inl_iff bindE_Inl_iff thenE_Inr_iff bindE_Inr_iff
  by (simp add: no_approval check_rate_limit_no_approval[OF assms] check_ok
      check_requires_approval_asks static_ok_def) blast

lemma decision_approval_iff:
  "decision_of r = Some APPROVAL_REQUIRED \<longleftrightarrow> (\<exists>m ag tool opn aid. r = Inl (ApprovalRequired m ag tool opn aid))"
  by (cases r rule: decision_of.cases) auto

lemma check_and_authorize_ok:
  assumes "b_token_issuer b = Some issuer" and "fst (check b rq w) = Inr ()"
  shows "\<exists>t w'. check_and_authorize b rq w = (Inr t, w')"
proof -
  obtain w1 where "check b rq w = (Inr (), w1)" using assms(2) by (metis prod.collapse)
  then show ?thesis
    using issue_ok[of issuer _ _ _ w1] assms(1) by (simp add: check_and_authorize_def thenE_Inr)
qed

section \<open>A concrete boundary\<close>

text \<open>
  The instances the examples below evaluate, in \<open>sample_world\<close>: a payments tool
  with limits, and an agent with one action per hour that logs its decisions.
\<close>

definition payments :: tool_permission where
  "payments = \<lparr>tp_tool_name = ''pay'', tp_access_mode = WRITE,
     tp_allowed_operations = Some {''send''}, tp_blocked_operations = {''refund''},
     tp_max_calls_per_hour = None, tp_max_value = Some (NInt 500), tp_min_value = Some (NInt 1),
     tp_max_records = None, tp_requires_approval = False\<rparr>"

definition sample_boundary :: "unit boundary" where
  "sample_boundary = \<lparr>b_agent_name = ''bot'', b_autonomy = AUTONOMOUS,
     b_permissions = permission_map [payments], b_blocked_operations = {}, b_allowed_environments = None,
     b_environment = ''prod'', b_max_actions_per_hour = Some 1, b_kill_switch = False,
     b_kill_switch_env = Some ''KILL'', b_valid_from = None, b_valid_to = None,
     b_audit = default_sinks, b_policy_hooks = [], b_fail_closed_on_hook_error = True,
     b_strict_limits = True, b_token_issuer = Some \<lparr>ti_secret = ''k'', ti_ttl_seconds = Fin 30\<rparr>, b_rate_limiter = check_and_record 0,
     b_provider = None, b_provider_mode = OBSERVE, b_policy_version = None\<rparr>"

definition send_request :: "pyval \<Rightarrow> call_request" where
  "send_request v = \<lparr>rq_tool_name = ''pay'', rq_operation = Some ''send'', rq_access_mode = WRITE,
     rq_value = v, rq_record_count = PNone, rq_correlation_id = None, rq_metadata = None\<rparr>"

lemma sample_tame: "tame_boundary sample_boundary"
  by (rule default_sinks_tame) (simp add: sample_boundary_def)

lemma sample_switch_off [simp]: "\<not> kill_switch_engaged sample_boundary sample_world"
  by (simp add: kill_switch_engaged_def sample_boundary_def sample_world_def py_lower_def py_strip_def)

lemma sample_fields [simp]:
  "b_agent_name sample_boundary = ''bot''" "b_autonomy sample_boundary = AUTONOMOUS"
  "b_permissions sample_boundary ''pay'' = Some payments"
  "b_blocked_operations sample_boundary = {}" "b_allowed_environments sample_boundary = None"
  "b_valid_from sample_boundary = None" "b_valid_to sample_boundary = None"
  "b_strict_limits sample_boundary" "b_audit sample_boundary = default_sinks"
  "b_max_actions_per_hour sample_boundary = Some 1" "b_policy_hooks sample_boundary = []"
  "b_rate_limiter sample_boundary = check_and_record 0"
  "b_provider sample_boundary = None"
  "b_token_issuer sample_boundary = Some \<lparr>ti_secret = ''k'', ti_ttl_seconds = Fin 30\<rparr>"
  by (simp_all add: sample_boundary_def permission_map_def payments_def)

lemma payments_fields [simp]:
  "tp_tool_name payments = ''pay''" "tp_access_mode payments = WRITE"
  "tp_allowed_operations payments = Some {''send''}" "tp_blocked_operations payments = {''refund''}"
  "tp_max_calls_per_hour payments = None" "tp_max_value payments = Some (NInt 500)"
  "tp_min_value payments = Some (NInt 1)" "tp_max_records payments = None"
  "\<not> tp_requires_approval payments"
  by (simp_all add: payments_def)

lemma shown_PNone [simp]: "shown PNone"
  by (simp add: shown_def)

lemma shown_int: "length (str_of_nat (nat \<bar>n\<bar>)) \<le> 4300 \<Longrightarrow> shown (PInt n)"
  by (simp add: shown_def jint_def)

lemma request_fields [simp]:
  "rq_tool_name (send_request v) = ''pay''" "rq_operation (send_request v) = Some ''send''"
  "rq_access_mode (send_request v) = WRITE" "rq_value (send_request v) = v"
  "rq_record_count (send_request v) = PNone" "rq_metadata (send_request v) = None"
  by (simp_all add: send_request_def)

lemma kill_switch_uuid [simp]:
  "kill_switch_engaged b (w\<lparr>uuid_ix := i\<rparr>) = kill_switch_engaged b w"
  by (simp add: kill_switch_engaged_def)

lemma sample_static_ok:
  assumes "1 \<le> n" "n \<le> 500"
  shows "static_ok sample_boundary (context_of sample_boundary (send_request (PInt n))) payments
    (sample_world\<lparr>uuid_ix := i\<rparr>)"
  using as_finite_int[of n] assms
  by (simp add: static_ok_def context_of_def within_validity_def environment_ok_def
      operation_allowed_iff value_ok_def records_ok_def num_lt_def del: as_finite_number.simps)

lemma sample_rate_ok:
  "check_rate_limit sample_boundary (context_of sample_boundary (send_request v))
     (tick (sample_world\<lparr>uuid_ix := i\<rparr>)) =
    (Inr (), (tick (sample_world\<lparr>uuid_ix := i\<rparr>))\<lparr>mono_ix := 1,
     limiters := (\<lambda>_. Map.empty)(0 := [''bot::__global__'' \<mapsto> [50]])\<rparr>)"
  by (simp add: check_rate_limit_def check_global_rate_def check_tool_rate_def thenE_def bindE_def
      context_of_def check_and_record_def time_monotonic_def
      tick_def sample_world_def window_step_def global_key_def)

lemma sample_uuid_ix: "sample_world\<lparr>uuid_ix := 0\<rparr> = sample_world"
  by (simp add: sample_world_def)

lemma sample_allowed:
  assumes "1 \<le> n" "n \<le> 500"
  shows "fst (check sample_boundary (send_request (PInt n)) (sample_world\<lparr>uuid_ix := i\<rparr>)) = Inr ()"
proof -
  let ?c = "context_of sample_boundary (send_request (PInt n))"
  have "check_policy_hooks sample_boundary ?c v = (Inr (), v)" for v
    by (simp add: check_policy_hooks_def)
  moreover have "\<not> needs_approval sample_boundary ?c payments"
    by (simp add: needs_approval_def)
  ultimately have "\<exists>w'. local_checks sample_boundary ?c (sample_world\<lparr>uuid_ix := i\<rparr>) = (Inr (), w')"
    using sample_static_ok[OF assms] sample_rate_ok unfolding local_checks_ok by blast
  then show ?thesis using check_outcome[OF sample_tame] by fastforce
qed

text \<open>When a call passes.\<close>

lemma check_passes_iff:
  assumes "tame_boundary b"
  shows "fst (check b rq w) = Inr () \<longleftrightarrow>
    (\<exists>p w1 w2. static_ok b (context_of b rq) p w \<and>
       check_rate_limit b (context_of b rq) (tick w) = (Inr (), w1) \<and>
       check_policy_hooks b (context_of b rq) w1 = (Inr (), w2) \<and>
       \<not> needs_approval b (context_of b rq) p)"
proof -
  have "fst (check b rq w) = Inr () \<longleftrightarrow>
      (\<exists>w2. local_checks b (context_of b rq) w = (Inr (), w2))"
    using check_outcome[OF assms] by (metis eq_fst_iff)
  then show ?thesis by (auto simp: local_checks_ok)
qed

section \<open>Properties\<close>

text \<open>C2: \<open>check\<close> lets a call pass exactly when every static rule holds (kill switch,
  quarantine, validity window, environment, blocked operations, permission, operation, access
  mode, value and record limits), the limiter then admits it, every hook then passes it, and no
  approval is needed. Sinks whose failures are ordinary exceptions have no influence.\<close>

theorem check_allows_iff:
  assumes "tame_boundary b"
  shows "fst (check b rq w) = Inr () \<longleftrightarrow>
    (\<exists>p w1 w2. static_ok b (context_of b rq) p w \<and>
       check_rate_limit b (context_of b rq) (tick w) = (Inr (), w1) \<and>
       check_policy_hooks b (context_of b rq) w1 = (Inr (), w2) \<and>
       \<not> needs_approval b (context_of b rq) p)"
  by (rule check_passes_iff[OF assms])

theorem check_allows_iff_witness:
  "fst (check sample_boundary (send_request (PInt 120)) sample_world) = Inr ()"
proof (rule check_allows_iff[THEN iffD2, OF sample_tame], intro exI conjI)
  let ?c = "context_of sample_boundary (send_request (PInt 120))"
  show "static_ok sample_boundary ?c payments sample_world"
    using sample_static_ok[of 120 0] by (simp add: sample_uuid_ix)
  show "check_rate_limit sample_boundary ?c (tick sample_world) = (Inr (), (tick sample_world)
      \<lparr>mono_ix := 1, limiters := (\<lambda>_. Map.empty)(0 := [''bot::__global__'' \<mapsto> [50]])\<rparr>)" (is "_ = (_, ?w)")
    using sample_rate_ok[of _ 0] by (simp add: sample_uuid_ix)
  show "check_policy_hooks sample_boundary ?c ?w = (Inr (), ?w)"
    by (simp add: check_policy_hooks_def)
  show "\<not> needs_approval sample_boundary ?c payments"
    by (simp add: needs_approval_def)
qed

text \<open>Identifiers drawn do not matter to the static rules.\<close>

lemma static_rules_uuid: "static_rules b ctx (w\<lparr>uuid_ix := i\<rparr>) = static_rules b ctx w"
  by (simp add: static_rules_def now_of_def)

text \<open>C1: When a static rule is violated, \<open>check\<close> raises the violation of the first one in the
  code's order: the checks end, with the limiter and the hooks not called and at most one reading
  of the clock taken, and what follows is the one audit event with that reason. \<open>evaluate\<close>
  draws its identifier and returns DENY with the same reason, having done as little.\<close>

theorem first_violated_rule_is_reported:
  assumes "tame_boundary b" and "shown (rq_value rq)" "shown (rq_record_count rq)"
    and "first_violated (static_rules b (context_of b rq) w) = Some r"
  shows "(\<exists>e w1. raises r (Inl e :: exn + unit) \<and> w1 \<in> {w, tick w} \<and>
      check b rq w = (Inl e, snd (audit_check b rq DENY (exn_text e) (Some (reason_value r)) w1))) \<and>
    (\<exists>d w2. w2 \<in> {w\<lparr>uuid_ix := Suc (uuid_ix w)\<rparr>, tick (w\<lparr>uuid_ix := Suc (uuid_ix w)\<rparr>)} \<and>
      evaluate b rq w = (Inr d, w2) \<and> ld_decision d = ''DENY'' \<and> ld_reason_code d = Some (reason_value r))"
proof
  let ?c = "context_of b rq" and ?v = "w\<lparr>uuid_ix := Suc (uuid_ix w)\<rparr>"
  have st: "staged {v, tick v} (static_rules b ?c v) (local_checks b ?c) v" for v
    using assms(2,3) by (intro staged_local_checks) (simp_all add: context_of_def)
  obtain e w1 where l: "local_checks b ?c w = (Inl e, w1)" "raises r (Inl e :: exn + unit)" "w1 \<in> {w, tick w}"
    using st[of w] assms(4) by (cases "local_checks b ?c w") (auto simp: staged_def raises_iff)
  obtain ev w' where "audit_check b rq DENY (exn_text e) (Some (reason_value r)) w1 = (Inr ev, w')"
    using audit_check_ok[OF assms(1)] by blast
  then have "check b rq w = (Inl e, snd (audit_check b rq DENY (exn_text e) (Some (reason_value r)) w1))"
    using check_shape[OF l(1)] l(2) by (auto simp: raises_iff audit_message_def bindE_def)
  then show "\<exists>e w1. raises r (Inl e :: exn + unit) \<and> w1 \<in> {w, tick w} \<and>
      check b rq w = (Inl e, snd (audit_check b rq DENY (exn_text e) (Some (reason_value r)) w1))"
    using l(2,3) by blast
  have "first_violated (static_rules b ?c ?v) = Some r" using assms(4) by (simp add: static_rules_uuid)
  then obtain e' w2 where l': "local_checks b ?c ?v = (Inl e', w2)" "raises r (Inl e' :: exn + unit)" "w2 \<in> {?v, tick ?v}"
    using st[of ?v] by (cases "local_checks b ?c ?v") (auto simp: staged_def raises_iff)
  show "\<exists>d w2. w2 \<in> {?v, tick ?v} \<and> evaluate b rq w = (Inr d, w2) \<and> ld_decision d = ''DENY'' \<and>
      ld_reason_code d = Some (reason_value r)"
    using evaluate_shape[OF l'(1)] l'(2,3) by (auto simp: raises_iff)
qed

theorem first_violated_rule_is_reported_witness:
  "raises MAX_VALUE_EXCEEDED (fst (check sample_boundary (send_request (PInt 501)) sample_world))"
proof -
  have "first_violated (static_rules sample_boundary (context_of sample_boundary
      (send_request (PInt 501))) sample_world) = Some MAX_VALUE_EXCEEDED"
    using as_finite_int[of 501]
    by (simp add: static_rules_def permission_rules_def value_rules_def send_request_def
        context_of_def within_validity_def environment_ok_def num_lt_def
        operation_allowed_iff less_eq_access_mode_def del: as_finite_number.simps)
  moreover have "shown (PInt 501)" by (rule shown_int) code_simp
  ultimately show ?thesis
    using first_violated_rule_is_reported[OF sample_tame, of "send_request (PInt 501)"] by fastforce
qed

text \<open>C27: \<open>evaluate\<close> reports what \<open>check\<close> would do in the same state, although the code lists the
  checks twice: it returns exactly when \<open>check\<close> makes a decision, with that decision, its reason
  code and the call's agent, tool and operation; an error that is no decision escapes from both.
  Both ask the limiter and the hooks, so an evaluation takes a rate-limit slot too.\<close>

theorem evaluate_agrees_with_check:
  fixes w :: "'w world_scheme"
  assumes "tame_boundary b"
  defines "v \<equiv> w\<lparr>uuid_ix := Suc (uuid_ix w)\<rparr>"
  shows "case decision_of (fst (check b rq v)) of
      None \<Rightarrow> \<exists>e. fst (check b rq v) = Inl e \<and> evaluate b rq w = (Inl e, snd (check b rq v))
    | Some dt \<Rightarrow> \<exists>d w1. evaluate b rq w = (Inr d, w1) \<and> ld_decision d = decision_value dt \<and>
        ld_reason_code d = reason_of (fst (check b rq v)) \<and>
        ld_agent_name d = b_agent_name b \<and> ld_tool_name d = rq_tool_name rq \<and> ld_operation d = rq_operation rq \<and>
        snd (check b rq v) = snd (audit_check b rq dt (audit_message rq (fst (check b rq v))) (ld_reason_code d) w1)"
proof -
  obtain r w1 where l: "local_checks b (context_of b rq) v = (r, w1)" by fastforce
  have c: "fst (check b rq v) = r" using check_outcome[OF assms(1), of rq v] l by simp
  show ?thesis
  proof (cases "decision_of r")
    case None
    then obtain e where "r = Inl e" by (cases r) auto
    then show ?thesis using None evaluate_shape[OF l[unfolded v_def]] check_shape[OF l] c by simp
  next
    case (Some dt)
    obtain ev w2 where a: "audit_check b rq dt (audit_message rq r) (reason_of r) w1 = (Inr ev, w2)"
      using audit_check_ok[OF assms(1)] by blast
    then have "snd (check b rq v) = w2" using check_shape[OF l] Some by (simp add: bindE_def)
    then show ?thesis using Some evaluate_shape[OF l[unfolded v_def]] c a by simp
  qed
qed

text \<open>C8: With the default audit trail, hooks and a limiter that write no log and metadata that
  serialises, every decision of \<open>check\<close> writes exactly one log line, the JSON text of an
  event that carries the decision, its reason and the agent and tool; its level is INFO
  exactly for ALLOW. An error that is no decision writes nothing.\<close>

theorem every_decision_logged_once:
  assumes "b_audit b = default_sinks"
    and "\<And>k m win. keeps log (b_rate_limiter b k m win)"
    and "\<And>h ctx. h \<in> set (b_policy_hooks b) \<Longrightarrow> keeps log (snd h ctx)"
    and "\<And>jo. \<exists>t. dumps jo (PDict (or_empty (rq_metadata rq))) = Inr t"
  shows "case decision_of (fst (check b rq w)) of
      None \<Rightarrow> log (snd (check b rq w)) = log w
    | Some d \<Rightarrow> \<exists>ev line. event_to_json ev = Inr line \<and> ev_decision ev = decision_value d \<and>
        ev_reason_code ev = reason_of (fst (check b rq w)) \<and>
        ev_agent_name ev = b_agent_name b \<and> ev_tool_name ev = Some (rq_tool_name rq) \<and>
        log (snd (check b rq w)) = log w @
          [(''toolboundary.audit'', if d = ALLOW then log_INFO else log_WARNING, line)]"
proof -
  obtain r w1 where l: "local_checks b (context_of b rq) w = (r, w1)" by fastforce
  have k: "log w1 = log w"
    by (rule keepsE[OF keeps_local_checks l]) (use assms in auto)
  show ?thesis
  proof (cases "decision_of r")
    case None
    then show ?thesis using check_shape[OF l] k by simp
  next
    case (Some d)
    obtain ev line w2 where a: "audit_check b rq d (audit_message rq r) (reason_of r) w1 = (Inr ev, w2)"
      "event_to_json ev = Inr line" "ev_decision ev = decision_value d"
      "ev_reason_code ev = reason_of r" "ev_agent_name ev = b_agent_name b"
      "ev_tool_name ev = Some (rq_tool_name rq)"
      "log w2 = log w1 @ [(''toolboundary.audit'', if d = ALLOW then log_INFO else log_WARNING, line)]"
      using audit_check_default[OF assms(1,4), of d "audit_message rq r" "reason_of r" w1]
      by (metis prod.collapse)
    then have "check b rq w = (r, w2)" using check_shape[OF l] Some by (simp add: bindE_def)
    then show ?thesis using Some a k by auto
  qed
qed

theorem every_decision_logged_once_witness:
  "\<exists>d. decision_of (fst (check sample_boundary (send_request (PInt 120)) sample_world)) = Some d \<and>
     length (log (snd (check sample_boundary (send_request (PInt 120)) sample_world))) = 1"
proof -
  have k: "keeps log (check_and_record self k m win :: (world, exn, bool) eff)" for self k m win
    by (simp add: keeps_def check_and_record_def bindE_def time_monotonic_def Let_def split: prod.splits)
  have m: "\<exists>t. dumps jo (PDict (or_empty (rq_metadata (send_request (PInt 120))))) = Inr t" for jo
    by (simp add: or_empty_def dump_dict_def sort_items_def)
  have "log sample_world = []" by (simp add: sample_world_def)
  then show ?thesis
    using every_decision_logged_once[of sample_boundary "send_request (PInt 120)" sample_world]
      sample_allowed[of 120 0] k m by (auto simp: sample_uuid_ix)
qed

theorem evaluate_agrees_with_check_witness:
  "\<exists>d w'. evaluate sample_boundary (send_request (PInt 120)) sample_world = (Inr d, w') \<and>
     ld_decision d = ''ALLOW''"
proof -
  let ?rq = "send_request (PInt 120)"
  let ?w = "sample_world\<lparr>uuid_ix := Suc (uuid_ix sample_world)\<rparr>"
  have c: "fst (check sample_boundary ?rq ?w) = Inr ()" by (rule sample_allowed) simp_all
  from evaluate_agrees_with_check[OF sample_tame, of ?rq sample_world] show ?thesis
    unfolding c by auto
qed

text \<open>An engaged kill switch denies every call with the error of its own, whatever the
  request, the hooks and the limits, and without taking a rate-limit slot; \<open>engage\<close> engages it.\<close>

theorem kill_switch_denies_everything:
  assumes "tame_boundary b" and "kill_switch_engaged b w \<or> b = engage_kill_switch b0"
  shows "fst (check b rq w) = Inl (BoundaryViolation KillSwitchActive
      ''Kill switch is engaged; all actions are denied.'' (b_agent_name b) (Some (rq_tool_name rq))
      (rq_operation rq) (Some ''KILL_SWITCH_ACTIVE'')) \<and>
    snd (local_checks b (context_of b rq) w) = w"
proof -
  have "kill_switch_engaged b w"
    using assms(2)
  proof
    assume "b = engage_kill_switch b0"
    then show ?thesis by (simp add: kill_switch_engaged_def engage_kill_switch_def)
  qed
  then show ?thesis
    using assms(1) by (simp add: check_outcome local_checks_kill_switch context_of_def)
qed

theorem kill_switch_denies_everything_witness:
  "v_class (projl (fst (check (engage_kill_switch sample_boundary) (send_request (PInt 120)) sample_world)))
     = KillSwitchActive"
proof -
  have "tame_boundary (engage_kill_switch sample_boundary)"
    by (simp add: tame_boundary_def engage_kill_switch_def default_sinks_def tame_logging_sink)
  from kill_switch_denies_everything[OF this, of sample_world sample_boundary "send_request (PInt 120)"]
  show ?thesis by simp
qed

text \<open>C28: A call that \<open>check\<close> lets pass respects every numeric limit of its tool. Under a maximum
  value, and under a maximum of records, a strict boundary has seen a number; a value supplied
  under any bound is a finite number that is not below the minimum, where there is one, and not above
  the maximum, where there is one; a record count supplied under a maximum is a whole number from
  0 to the maximum. For integers up to 2^53 and integer bounds these are the bounds of the
  integers themselves.\<close>

theorem allowed_value_within_limits:
  assumes "tame_boundary b" and "fst (check b rq w) = Inr ()"
    and "b_permissions b (rq_tool_name rq) = Some p"
  shows "(b_strict_limits b \<and> tp_max_value p \<noteq> None \<longrightarrow> rq_value rq \<noteq> PNone) \<and>
    (b_strict_limits b \<and> tp_max_records p \<noteq> None \<longrightarrow> rq_record_count rq \<noteq> PNone) \<and>
    (rq_value rq \<noteq> PNone \<and> (tp_max_value p \<noteq> None \<or> tp_min_value p \<noteq> None) \<longrightarrow>
      (\<exists>q. as_finite_number (rq_value rq) = Some q \<and>
        (\<forall>hi. tp_max_value p = Some hi \<longrightarrow> \<not> num_lt hi (NFloat (Fin q))) \<and>
        (\<forall>lo. tp_min_value p = Some lo \<longrightarrow> \<not> num_lt (NFloat (Fin q)) lo))) \<and>
    (\<forall>hi. rq_record_count rq \<noteq> PNone \<and> tp_max_records p = Some hi \<longrightarrow>
      (\<exists>n. as_finite_number (rq_record_count rq) = Some (of_int n) \<and> 0 \<le> n \<and> \<not> num_lt hi (NFloat (Fin (of_int n))))) \<and>
    (\<forall>n m. rq_value rq = PInt n \<and> \<bar>n\<bar> \<le> 2 ^ 53 \<longrightarrow>
      (tp_max_value p = Some (NInt m) \<longrightarrow> n \<le> m) \<and> (tp_min_value p = Some (NInt m) \<longrightarrow> m \<le> n)) \<and>
    (\<forall>n m. rq_record_count rq = PInt n \<and> \<bar>n\<bar> \<le> 2 ^ 53 \<and> tp_max_records p = Some (NInt m) \<longrightarrow> 0 \<le> n \<and> n \<le> m)"
proof -
  obtain p' where "static_ok b (context_of b rq) p' w" using assms(1,2) by (rule check_static_ok)
  then have v: "value_ok (b_strict_limits b) p (rq_value rq)"
    and r: "records_ok (b_strict_limits b) p (rq_record_count rq)"
    using assms(3) by (auto simp: static_ok_def context_of_def)
  have vq: "\<exists>q. as_finite_number (rq_value rq) = Some q \<and>
      \<not> opt_holds (num_lt (NFloat (Fin q))) (tp_min_value p) \<and> \<not> opt_holds (\<lambda>hi. num_lt hi (NFloat (Fin q))) (tp_max_value p)"
    if "rq_value rq \<noteq> PNone" "tp_max_value p \<noteq> None \<or> tp_min_value p \<noteq> None"
    using v that by (auto simp: value_ok_def split: option.splits)
  have rq: "\<exists>n. as_finite_number (rq_record_count rq) = Some (of_int n) \<and> 0 \<le> n \<and> \<not> num_lt hi (NFloat (Fin (of_int n)))"
    if "rq_record_count rq \<noteq> PNone" "tp_max_records p = Some hi" for hi
  proof -
    from r that obtain q where q: "as_finite_number (rq_record_count rq) = Some q" "0 \<le> q" "of_int \<lfloor>q\<rfloor> = q"
      "\<not> num_lt hi (NFloat (Fin q))" by (auto simp: records_ok_def split: option.splits)
    then have "0 \<le> \<lfloor>q\<rfloor>" by simp
    then show ?thesis using q by metis
  qed
  show ?thesis
  proof (intro conjI allI impI, goal_cases)
    case 1
    then show ?case using v by (auto simp: value_ok_def)
  next
    case 2
    then show ?case using r by (auto simp: records_ok_def)
  next
    case 3
    then show ?case using vq by (auto simp: opt_holds_iff)
  next
    case (4 hi)
    then show ?case using rq by blast
  next
    case (5 n m)
    then show ?case using vq as_finite_int[of n] by (auto simp: num_lt_def simp del: as_finite_number.simps)
  next
    case (6 n m)
    then show ?case using vq as_finite_int[of n] by (auto simp: num_lt_def simp del: as_finite_number.simps)
  next
    case (7 n m)
    then show ?case using rq[of "NInt m"] as_finite_int[of n] by (auto simp del: as_finite_number.simps)
  next
    case (8 n m)
    then show ?case using rq[of "NInt m"] as_finite_int[of n]
      by (auto simp: num_lt_def simp del: as_finite_number.simps)
  qed
qed

theorem allowed_value_within_limits_witness:
  "fst (check sample_boundary (send_request (PInt 120)) sample_world) = Inr () \<and>
   (\<exists>q. as_finite_number (PInt 120) = Some q \<and> \<not> num_lt (NInt 500) (NFloat (Fin q)) \<and> \<not> num_lt (NFloat (Fin q)) (NInt 1))"
proof -
  have c: "fst (check sample_boundary (send_request (PInt 120)) sample_world) = Inr ()"
    using sample_allowed[of 120 0] by (simp add: sample_uuid_ix)
  have "b_permissions sample_boundary (rq_tool_name (send_request (PInt 120))) = Some payments" by simp
  from allowed_value_within_limits[OF sample_tame c this] show ?thesis
    using c by (simp del: as_finite_number.simps)
qed

text \<open>A fail-closed boundary lets no call pass a hook that never passes one: a hook that
  always denies with a message or raises blocks every call, and an open boundary's hook that
  always denies with a message does.\<close>

theorem hooks_fail_closed:
  assumes "tame_boundary b" and "h \<in> set (b_policy_hooks b)"
    and "\<And>v d. fst (snd h (context_of b rq) v) = Inr d \<Longrightarrow> truthy d"
    and "b_fail_closed_on_hook_error b \<or> (\<forall>v. \<exists>d. fst (snd h (context_of b rq) v) = Inr d)"
  shows "fst (check b rq w) \<noteq> Inr ()"
proof
  assume "fst (check b rq w) = Inr ()"
  then obtain w1 w2 where "check_policy_hooks b (context_of b rq) w1 = (Inr (), w2)"
    using assms(1) by (metis check_outcome eq_fst_iff local_checks_ok)
  moreover have "b_fail_closed_on_hook_error b \<or>
      (\<forall>v e. fst (snd h (context_of b rq) v) = Inl e \<longrightarrow> \<not> is_exception e)"
    using assms(4) by (metis Inl_Inr_False)
  ultimately show False
    using run_hooks_refuses[OF assms(2), of "context_of b rq"] assms(3)
    unfolding check_policy_hooks_def by (metis fst_conv)
qed

text \<open>Approval is asked for only when everything else has passed: with a limiter that only
  answers, the outcome is \<open>ApprovalRequired\<close> exactly when the static rules hold, the limiter
  admitted the call, every hook passed it, and the permission or the autonomy level needs it.\<close>

theorem approval_is_decided_last:
  assumes "tame_boundary b" and "answering_limiter b"
  shows "decision_of (fst (check b rq w)) = Some APPROVAL_REQUIRED \<longleftrightarrow>
    (\<exists>p w1 w2. static_ok b (context_of b rq) p w \<and>
       check_rate_limit b (context_of b rq) (tick w) = (Inr (), w1) \<and>
       check_policy_hooks b (context_of b rq) w1 = (Inr (), w2) \<and>
       needs_approval b (context_of b rq) p)"
  unfolding check_outcome[OF assms(1)] decision_approval_iff local_checks_ask_approval[OF assms(2), symmetric]
  by (metis fst_conv prod.collapse)


theorem hooks_fail_closed_witness:
  "fst (check (sample_boundary\<lparr>b_policy_hooks := [(''freeze'', \<lambda>_. returnE (Some ''frozen''))]\<rparr>)
     (send_request (PInt 120)) sample_world) \<noteq> Inr ()"
proof (rule hooks_fail_closed)
  show "tame_boundary (sample_boundary\<lparr>b_policy_hooks := [(''freeze'', \<lambda>_. returnE (Some ''frozen''))]\<rparr>)"
    by (rule default_sinks_tame) simp
qed auto

lemma check_and_record_answers: "\<exists>ok. fst (check_and_record self k m win w) = Inr ok"
  by (simp add: check_and_record_def bindE_def time_monotonic_def split: prod.splits)

theorem approval_is_decided_last_witness:
  "decision_of (fst (check sample_boundary (send_request (PInt 120)) sample_world)) \<noteq> Some APPROVAL_REQUIRED"
proof -
  have "answering_limiter sample_boundary"
    by (simp add: answering_limiter_def check_and_record_answers)
  from approval_is_decided_last[OF sample_tame this, of "send_request (PInt 120)" sample_world]
  show ?thesis by (auto simp: static_ok_def needs_approval_def context_of_def)
qed

text \<open>C20: A token of \<open>check_and_authorize\<close> is minted only for a call that \<open>check\<close> lets
  pass, and it verifies for the boundary's agent, the call's tool and operation at every
  clock reading up to its expiry and at none after; it verifies for no other agent or tool.\<close>

theorem minted_token_speaks_for_the_call:
  assumes "b_token_issuer b = Some issuer" and "check_and_authorize b rq w = (Inr t, w')"
  shows "fst (check b rq w) = Inr () \<and>
    (\<exists>now x. at_issued_at t = PFloat (Fin now) \<and> at_expires_at t = PFloat x \<and>
      x = fadd (Fin now) (ti_ttl_seconds issuer) \<and> (\<forall>agent tool opn v :: 'w world_scheme.
      fst (verify issuer t (Some agent) (Some tool) opn v) = Inr () \<longleftrightarrow>
        \<not> flt x (Fin (now_of v)) \<and> agent = b_agent_name b \<and> tool = rq_tool_name rq \<and>
        (\<forall>p. opn = Some p \<longrightarrow> rq_operation rq = Some p)))"
proof -
  obtain w1 where c: "check b rq w = (Inr (), w1)"
    and i: "issue issuer (b_agent_name b) (rq_tool_name rq) (rq_operation rq) w1 = (Inr t, w')"
    using assms by (auto simp: check_and_authorize_def thenE_Inr_iff)
  have t: "at_agent_name t = PStr (b_agent_name b)" "at_tool_name t = PStr (rq_tool_name rq)"
    "at_operation t = opt_str (rq_operation rq)" "at_issued_at t = PFloat (Fin (now_of w1))"
    "at_expires_at t = PFloat (fadd (Fin (now_of w1)) (ti_ttl_seconds issuer))"
    "sign issuer (token_payload t) = Inr (at_signature t)"
    using i by (auto simp: issue_def bindE_Inr_iff time_time_def token_secret_def Let_def now_of_def
        token_payload_def)
  let ?x = "fadd (Fin (now_of w1)) (ti_ttl_seconds issuer)"
  have v: "fst (verify issuer t (Some agent) (Some tool) opn v) = Inr () \<longleftrightarrow>
        \<not> flt ?x (Fin (now_of v)) \<and> agent = b_agent_name b \<and> tool = rq_tool_name rq \<and>
        (\<forall>p. opn = Some p \<longrightarrow> rq_operation rq = Some p)" for agent tool opn and v :: "'w world_scheme"
  proof -
    have "fst (verify issuer t (Some agent) (Some tool) opn v) = Inr () \<longleftrightarrow>
        (\<exists>v'. verify issuer t (Some agent) (Some tool) opn v = (Inr (), v'))"
      by (metis fst_conv prod.collapse)
    then show ?thesis
      using t sign_ascii[OF t(6)]
      by (auto simp: verify_ok_iff num_lt_def now_of_def opt_str_def split: option.splits)
  qed
  show ?thesis using c t(4,5) v by auto
qed

theorem minted_token_speaks_for_the_call_witness:
  "\<exists>t w'. check_and_authorize sample_boundary (send_request (PInt 120)) sample_world = (Inr t, w') \<and>
     fst (verify \<lparr>ti_secret = ''k'', ti_ttl_seconds = Fin 30\<rparr> t (Some ''bot'') (Some ''wire'') None sample_world)
       \<noteq> Inr ()"
proof -
  have i: "b_token_issuer sample_boundary = Some \<lparr>ti_secret = ''k'', ti_ttl_seconds = Fin 30\<rparr>"
    by simp
  have "fst (check sample_boundary (send_request (PInt 120)) sample_world) = Inr ()"
    using sample_allowed[of 120 0] by (simp add: sample_uuid_ix)
  then obtain t w' where t: "check_and_authorize sample_boundary (send_request (PInt 120)) sample_world = (Inr t, w')"
    using check_and_authorize_ok[OF i] by blast
  let ?verify = "fst (verify \<lparr>ti_secret = ''k'', ti_ttl_seconds = Fin 30\<rparr> t (Some ''bot'') (Some ''wire'') None sample_world)"
  from minted_token_speaks_for_the_call[OF i t] obtain x where
    "?verify = Inr () \<longleftrightarrow> \<not> flt x (Fin (now_of sample_world)) \<and> ''bot'' = b_agent_name sample_boundary \<and>
       ''wire'' = rq_tool_name (send_request (PInt 120)) \<and>
       (\<forall>p. None = Some p \<longrightarrow> rq_operation (send_request (PInt 120)) = Some p)"
    by blast
  then have "?verify \<noteq> Inr ()" by simp
  then show ?thesis using t by blast
qed


text \<open>A value that is no number and cannot be shown defeats the policy's promise of a decision:
  when the rules before the value limit hold and \<open>repr\<close> raises on the value, \<open>check\<close>
  ends with that foreign exception without any audit event, and \<open>evaluate\<close>, which documents
  that it never raises, raises it too. The call is still refused.\<close>

theorem unprintable_value_is_no_decision:
  assumes "\<not> kill_switch_engaged b w" "b_autonomy b \<noteq> QUARANTINED" "within_validity b (now_of w)"
    and "environment_ok b" "\<forall>x. rq_operation rq = Some x \<longrightarrow> x \<notin> b_blocked_operations b"
    and "b_permissions b (rq_tool_name rq) = Some p" "operation_allowed p (rq_operation rq)"
    and "rq_access_mode rq \<le> tp_access_mode p" "tp_max_value p \<noteq> None"
    and "rq_value rq \<noteq> PNone" "as_finite_number (rq_value rq) = None" "repr_val (rq_value rq) = Inl e"
  shows "check b rq w = (Inl (Foreign e True), tick w) \<and> fst (evaluate b rq w) = Inl (Foreign e True)"
proof -
  have l: "local_checks b (context_of b rq) v = (Inl (Foreign e True), tick v)"
    if "\<not> kill_switch_engaged b v" "within_validity b (now_of v)" for v :: "'a world_scheme"
  proof -
    let ?c = "context_of b rq"
    have "check_kill_switch b ?c v = (Inr (), v)" "check_quarantine b ?c v = (Inr (), v)"
      "check_validity_window b ?c v = (Inr (), tick v)" "check_environment b ?c (tick v) = (Inr (), tick v)"
      "check_global_blocked_operations b ?c (tick v) = (Inr (), tick v)"
      "check_tool_permission b ?c (tick v) = (Inr p, tick v)"
      "check_operation ?c p (tick v) = (Inr (), tick v)" "check_access_mode ?c p (tick v) = (Inr (), tick v)"
      using assms that by (auto simp: check_ok context_of_def)
    moreover have "check_value_limit b ?c p (tick v) = (Inl (Foreign e True), tick v)"
      using assms(9-12) by (simp add: check_value_limit_def context_of_def throw_repr_def bindE_def)
    ultimately show ?thesis
      by (simp add: local_checks_def permission_checks_def thenE_Inr bindE_Inr thenE_Inl)
  qed
  let ?v = "w\<lparr>uuid_ix := Suc (uuid_ix w)\<rparr>"
  have "local_checks b (context_of b rq) ?v = (Inl (Foreign e True), tick ?v)"
    using assms by (intro l) (simp_all add: now_of_def)
  then show ?thesis
    using check_shape[OF l[OF assms(1,3)]] by (simp add: evaluate_shape)
qed

theorem unprintable_value_is_no_decision_witness:
  "check sample_boundary (send_request (PObj ''Lazy'' (Inr ''lazy'') (Inl (PyExc ''RuntimeError'' ''detached''))))
     sample_world = (Inl (Foreign (PyExc ''RuntimeError'' ''detached'') True), tick sample_world)"
  by (rule unprintable_value_is_no_decision[where p = payments, THEN conjunct1])
    (simp_all add: within_validity_def environment_ok_def operation_allowed_iff)

end
