(* ===== verification/Boundary_Flow.thy ===== *)
theory Boundary_Flow
  imports Boundary_Decision
begin

text \<open>
  \<open>boundary.py\<close>, second half: \<open>authorize_call\<close>, which freezes a locally allowed call and
  consults the provider, and \<open>record_execution\<close>, which consumes the authorization once
  and keeps evidence of the outcome.
\<close>

section \<open>Authorizing a call\<close>

record authorize_request = call_request +
  rq_arguments :: pydict
  rq_resource :: "string option"
  rq_tool_version :: "string option"
  rq_schema_hash :: "string option"
  rq_manifest_hash :: "string option"
  rq_approval_id :: "string option"
  rq_approval_state :: "string option"

text \<open>\<open>f"{x}"\<close> of a string or \<open>None\<close>\<close>

definition show_opt :: "string option \<Rightarrow> string" where
  "show_opt s = (case s of None \<Rightarrow> ''None'' | Some x \<Rightarrow> x)"

definition boundary_logger :: string where
  "boundary_logger = ''toolboundary.boundary''"

definition frozen_of :: "'w boundary \<Rightarrow> authorize_request \<Rightarrow> frozen_tool_call" where
  "frozen_of b rq = \<lparr>fc_agent_name = b_agent_name b, fc_tool_name = rq_tool_name rq,
     fc_operation = rq_operation rq, fc_arguments = rq_arguments rq, fc_resource = rq_resource rq,
     fc_tool_version = rq_tool_version rq, fc_schema_hash = rq_schema_hash rq,
     fc_manifest_hash = rq_manifest_hash rq, fc_approval_id = rq_approval_id rq,
     fc_approval_state = rq_approval_state rq, fc_call_digest = []\<rparr>"

definition degraded_grant :: "exn \<Rightarrow> provider_grant" where
  "degraded_grant e = \<lparr>pg_allowed = True, pg_provider = ''unavailable'',
     pg_authorization_id = None, pg_attempt_id = None, pg_expires_at = None,
     pg_reason = Some (''Provider unavailable (observe mode): '' @ exn_text e),
     pg_metadata = [(KStr ''evidence_degraded'', PBool True)]\<rparr>"

text \<open>Step 6: the provider's answer; an \<open>Exception\<close> of it blocks or degrades, by the mode.\<close>

definition ask_provider ::
  "'w boundary \<Rightarrow> 'w provider \<Rightarrow> frozen_tool_call \<Rightarrow> local_decision \<Rightarrow>
   ('w world_scheme, exn, provider_grant option) eff" where
  "ask_provider b p frozen ld w =
    (case prov_authorize p frozen ld w of
       (Inr grant, w') \<Rightarrow> (Inr grant, w')
     | (Inl e, w') \<Rightarrow>
         if \<not> is_exception e then (Inl e, w')
         else if b_provider_mode b = ENFORCE then
           (Inl (ProviderUnavailable (''Provider unavailable in enforce mode: '' @ exn_text e)
              (b_agent_name b) (fc_tool_name frozen) (fc_operation frozen) None), w')
         else thenE (log_line boundary_logger log_WARNING
             (''Provider unavailable in observe mode; proceeding without external authorization: '' @
              exn_text e)) (returnE (Some (degraded_grant e))) w')"

text \<open>Step 7: a denial blocks in enforce mode and is logged in observe mode.\<close>

definition heed_denial ::
  "'w boundary \<Rightarrow> frozen_tool_call \<Rightarrow> provider_grant option \<Rightarrow> ('w world_scheme, exn, unit) eff" where
  "heed_denial b frozen grant = (case grant of None \<Rightarrow> returnE () | Some g \<Rightarrow>
     if pg_allowed g then returnE ()
     else if b_provider_mode b = ENFORCE then
       throwE (ProviderAuthorizationDenied (''Provider denied the action: '' @ show_opt (pg_reason g))
         (b_agent_name b) (fc_tool_name frozen) (fc_operation frozen) (Some (pg_provider g)) (pg_reason g))
     else log_line boundary_logger log_WARNING
       (''Provider denied action in observe mode (proceeding): '' @ show_opt (pg_reason g)))"

definition set_truthy :: "string \<Rightarrow> string option \<Rightarrow> pydict \<Rightarrow> pydict" where
  "set_truthy k v d = (if truthy v then dict_set d (KStr k) (PStr (the v)) else d)"

definition evidence_metadata ::
  "authorize_request \<Rightarrow> frozen_tool_call \<Rightarrow> local_decision \<Rightarrow> provider_grant option \<Rightarrow> pydict" where
  "evidence_metadata rq frozen ld grant =
    (let d = dict_set (dict_set (or_empty (rq_metadata rq))
               (KStr ''call_digest'') (PStr (fc_call_digest frozen)))
               (KStr ''decision_id'') (PStr (ld_decision_id ld))
     in case grant of None \<Rightarrow> d | Some g \<Rightarrow>
       set_truthy ''authorization_id'' (pg_authorization_id g)
         (set_truthy ''attempt_id'' (pg_attempt_id g)
           (dict_set (dict_set d (KStr ''provider'') (PStr (pg_provider g)))
              (KStr ''provider_decision'') (PStr (if pg_allowed g then ''allow'' else ''deny'')))))"

definition local_allow :: "'w boundary \<Rightarrow> authorize_request \<Rightarrow> string \<Rightarrow> local_decision" where
  "local_allow b rq decision_id = \<lparr>ld_decision = decision_value ALLOW, ld_decision_id = decision_id,
     ld_agent_name = b_agent_name b, ld_tool_name = rq_tool_name rq, ld_operation = rq_operation rq,
     ld_reason_code = None, ld_approval_id = None, ld_policy_version = b_policy_version b\<rparr>"

text \<open>Steps 5 to 8, from the frozen call on.\<close>

definition authorize_frozen ::
  "'w boundary \<Rightarrow> authorize_request \<Rightarrow> local_decision \<Rightarrow> frozen_tool_call \<Rightarrow>
   ('w world_scheme, exn, authorization_context) eff" where
  "authorize_frozen b rq ld frozen = (case b_provider b of
       None \<Rightarrow> make_authorization ld frozen None []
     | Some p \<Rightarrow>
         bindE (ask_provider b p frozen ld) (\<lambda>grant.
         thenE (heed_denial b frozen grant)
        (bindE (audit_record (b_audit b) (b_agent_name b) ''ALLOW''
             (rq_tool_name rq @ ''.'' @ op_or_star (rq_operation rq) @
              '' authorized (provider: '' @
              (case grant of None \<Rightarrow> ''none'' | Some g \<Rightarrow> pg_provider g) @ '')'')
             (Some (rq_tool_name rq)) (rq_operation rq)
             (Some (access_value (rq_access_mode rq))) None (rq_correlation_id rq)
             (evidence_metadata rq frozen ld grant)) (\<lambda>_.
           make_authorization ld frozen grant []))))"

definition authorize_call ::
  "'w boundary \<Rightarrow> authorize_request \<Rightarrow> ('w world_scheme, exn, authorization_context) eff" where
  "authorize_call b rq =
    thenE (check b (call_request.truncate rq))
   (bindE uuid4 (\<lambda>decision_id.
      bindE (liftE (of_py (freeze_with_digest (frozen_of b rq)))) (\<lambda>frozen.
        authorize_frozen b rq (local_allow b rq decision_id) frozen)))"

section \<open>Recording the execution\<close>

text \<open>The authorization object is mutable: the computation threads it beside the world.\<close>

definition on_world ::
  "('w world_scheme, exn, 'r) eff \<Rightarrow> (authorization_context \<times> 'w world_scheme, exn, 'r) eff" where
  "on_world m s = (case m (snd s) of (r, w') \<Rightarrow> (r, (fst s, w')))"

definition execution_metadata :: "authorization_context \<Rightarrow> execution_record \<Rightarrow> pydict" where
  "execution_metadata a ex =
    (let d = set_truthy ''result_digest'' (er_result_digest ex)
               [(KStr ''call_digest'', PStr (fc_call_digest (ac_frozen_call a))),
                (KStr ''decision_id'', PStr (ld_decision_id (ac_local_decision a))),
                (KStr ''execution_status'', PStr (er_status ex))]
     in case ac_provider_grant a of None \<Rightarrow> d
          | Some g \<Rightarrow> dict_set d (KStr ''provider'') (PStr (pg_provider g)))"

text \<open>The provider's receipt; its \<open>Exception\<close> becomes a receipt that says so.\<close>

definition provider_receipt_of ::
  "'w provider \<Rightarrow> provider_grant \<Rightarrow> execution_record \<Rightarrow>
   ('w world_scheme, exn, provider_receipt option) eff" where
  "provider_receipt_of p g ex w =
    (case prov_record p g ex w of
       (Inr receipt, w') \<Rightarrow> (Inr receipt, w')
     | (Inl e, w') \<Rightarrow>
         if \<not> is_exception e then (Inl e, w')
         else thenE (log_line boundary_logger log_WARNING
             (''Provider failed to record execution evidence (local record preserved): '' @ exn_text e))
           (returnE (Some \<lparr>pr_recorded = False, pr_provider = pg_provider g, pr_evidence_id = None,
              pr_signature = None, pr_metadata = [(KStr ''error'', PStr (exn_text e))]\<rparr>)) w')"

definition record_execution ::
  "'w boundary \<Rightarrow> pyval option \<Rightarrow> exn option \<Rightarrow> rat \<Rightarrow> rat \<Rightarrow> string option \<Rightarrow>
   (authorization_context \<times> 'w world_scheme, exn, provider_receipt option) eff" where
  "record_execution b result error started_at finished_at correlation_id =
    bindE (getE fst) (\<lambda>a.
    thenE (whenE (ac_consumed a) (AuthorizationConsumed
      ''This authorization has already been consumed and cannot be reused.''))
   (thenE (modifyE (apfst mark_consumed))
   (bindE (liftE (of_py (build_execution_record (fc_call_digest (ac_frozen_call a)) started_at
      finished_at result error))) (\<lambda>ex.
   (bindE (on_world (audit_record (b_audit b) (b_agent_name b) ''ALLOW''
        (''Execution recorded: '' @ er_status ex) (Some (fc_tool_name (ac_frozen_call a)))
        (fc_operation (ac_frozen_call a)) None None correlation_id (execution_metadata a ex))) (\<lambda>_.
      case (b_provider b, ac_provider_grant a) of
        (Some p, Some g) \<Rightarrow> on_world (provider_receipt_of p g ex)
      | _ \<Rightarrow> returnE None))))))"


section \<open>Inversion\<close>

lemma make_authorization_fresh:
  "make_authorization ld fc grant [] w =
    (Inr \<lparr>ac_local_decision = ld, ac_frozen_call = fc, ac_provider_grant = grant, ac_consumed = False,
       ac_authorization_id = uuids w (uuid_ix w)\<rparr>, w\<lparr>uuid_ix := Suc (uuid_ix w)\<rparr>)"
  by (simp add: make_authorization_def Let_def bindE_def uuid4_def)

lemma freeze_with_digest_Inr:
  "freeze_with_digest call = Inr frozen \<longleftrightarrow>
    (\<exists>d. call_digest call = Inr d \<and> frozen = call\<lparr>fc_call_digest := d\<rparr>)"
  by (auto simp: freeze_with_digest_def split: sum.splits)

text \<open>What the answer of \<open>ask_provider\<close> and the passage of \<open>heed_denial\<close> mean in enforce mode.\<close>

lemma ask_provider_enforced:
  assumes "ask_provider b p frozen ld w = (Inr grant, w')" and "b_provider_mode b = ENFORCE"
  shows "prov_authorize p frozen ld w = (Inr grant, w')"
  using assms by (auto simp: ask_provider_def split: prod.splits sum.splits if_splits)

lemma heed_denial_enforced:
  assumes "heed_denial b frozen grant w = (Inr (), w')" and "b_provider_mode b = ENFORCE"
  shows "\<forall>g. grant = Some g \<longrightarrow> pg_allowed g"
  using assms by (auto simp: heed_denial_def split: option.splits if_splits)

lemma authorize_call_Inr:
  assumes "authorize_call b rq w = (Inr a, w')"
  obtains w1 d where "check b (call_request.truncate rq) w = (Inr (), w1)"
    and "call_digest (frozen_of b rq) = Inr d"
    and "ac_frozen_call a = (frozen_of b rq)\<lparr>fc_call_digest := d\<rparr>"
    and "ac_local_decision a = local_allow b rq (uuids w1 (uuid_ix w1))"
    and "\<not> ac_consumed a"
    and "case b_provider b of None \<Rightarrow> ac_provider_grant a = None
      | Some p \<Rightarrow> \<exists>v1 v2 v3. ask_provider b p (ac_frozen_call a) (ac_local_decision a) v1 =
            (Inr (ac_provider_grant a), v2) \<and>
          heed_denial b (ac_frozen_call a) (ac_provider_grant a) v2 = (Inr (), v3)"
proof -
  obtain w1 d where c: "check b (call_request.truncate rq) w = (Inr (), w1)"
    and d: "call_digest (frozen_of b rq) = Inr d"
    using assms by (auto simp: authorize_call_def authorize_frozen_def thenE_Inr_iff bindE_Inr_iff Let_def uuid4_def
        freeze_with_digest_Inr)
  let ?f = "(frozen_of b rq)\<lparr>fc_call_digest := d\<rparr>"
  let ?ld = "local_allow b rq (uuids w1 (uuid_ix w1))"
  have f: "freeze_with_digest (frozen_of b rq) = Inr ?f" using d by (simp add: freeze_with_digest_Inr)
  show thesis
  proof (cases "b_provider b")
    case None
    then show thesis
      using assms that[OF c d] f c
      by (auto simp: authorize_call_def authorize_frozen_def thenE_Inr bindE_Inr_iff Let_def uuid4_def
          make_authorization_fresh)
  next
    case (Some p)
    from assms f c Some obtain grant v1 v2 v3 where
      "ask_provider b p ?f ?ld v1 = (Inr grant, v2)" "heed_denial b ?f grant v2 = (Inr (), v3)"
      "ac_frozen_call a = ?f" "ac_local_decision a = ?ld" "\<not> ac_consumed a" "ac_provider_grant a = grant"
      by (auto simp: authorize_call_def authorize_frozen_def thenE_Inr_iff bindE_Inr_iff Let_def uuid4_def
          make_authorization_fresh)
    then show thesis using that[OF c d] Some by auto
  qed
qed

section \<open>Metadata of evidence\<close>

text \<open>A dictionary of strings by string keys, which serialisation never refuses.\<close>

definition string_dict :: "pydict \<Rightarrow> bool" where
  "string_dict d \<longleftrightarrow> (\<forall>(k, v) \<in> set d. is_str_key k \<and> (\<exists>s. v = PStr s))"

lemma string_dict_set: "string_dict d \<Longrightarrow> string_dict (dict_set d (KStr k) (PStr v))"
  unfolding string_dict_def by (induction d) (auto split: if_splits)

lemma string_dict_set_truthy: "string_dict d \<Longrightarrow> string_dict (set_truthy k v d)"
  by (simp add: set_truthy_def string_dict_set)

lemma dumps_string_dict:
  assumes "string_dict d"
  shows "\<exists>t. dumps jo (PDict d) = Inr t"
proof -
  have "\<exists>t. dump_dict jo (map (\<lambda>(k, v). (k, dumps jo v)) d) = Inr t"
    using assms by (intro dump_dict_ok) (auto simp: string_dict_def list_all_iff)
  then show ?thesis by simp
qed

lemma string_dict_execution_metadata: "string_dict (execution_metadata a ex)"
proof -
  have "string_dict [(KStr ''call_digest'', PStr x), (KStr ''decision_id'', PStr y),
      (KStr ''execution_status'', PStr z)]" for x y z
    by (simp add: string_dict_def)
  then show ?thesis
    by (simp add: execution_metadata_def Let_def string_dict_set string_dict_set_truthy
        split: option.splits)
qed

lemma dict_get_set_truthy:
  "dict_get (set_truthy k v d) (KStr k') =
    (if k = k' \<and> truthy v then Some (PStr (the v)) else dict_get d (KStr k'))"
  by (auto simp: set_truthy_def dict_get_set)

lemma execution_metadata_digest:
  "dict_get (execution_metadata a ex) (KStr ''call_digest'') =
     Some (PStr (fc_call_digest (ac_frozen_call a)))"
  by (simp add: execution_metadata_def Let_def dict_get_set dict_get_set_truthy split: option.splits)
    (simp add: dict_get_def)

section \<open>The steps of recording\<close>

lemma record_execution_consumed:
  "ac_consumed a \<Longrightarrow> record_execution b res err s f c (a, w) =
    (Inl (AuthorizationConsumed ''This authorization has already been consumed and cannot be reused.''), (a, w))"
  by (simp add: record_execution_def bindE_def thenE_def)

lemma record_execution_unfold:
  assumes "\<not> ac_consumed a"
  shows "record_execution b res err s f c (a, w) =
    (case build_execution_record (fc_call_digest (ac_frozen_call a)) s f res err of
       Inl e \<Rightarrow> (Inl (Foreign e True), (mark_consumed a, w))
     | Inr ex \<Rightarrow> on_world (bindE (audit_record (b_audit b) (b_agent_name b) ''ALLOW''
          (''Execution recorded: '' @ er_status ex) (Some (fc_tool_name (ac_frozen_call a)))
          (fc_operation (ac_frozen_call a)) None None c (execution_metadata a ex))
          (\<lambda>_. case (b_provider b, ac_provider_grant a) of
             (Some p, Some g) \<Rightarrow> provider_receipt_of p g ex | _ \<Rightarrow> returnE None)) (mark_consumed a, w))"
  using assms
  by (auto simp: record_execution_def bindE_def thenE_def on_world_def split: sum.splits prod.splits option.splits)

lemma on_world_fst [simp]: "fst (snd (on_world m (a, w))) = a"
  by (simp add: on_world_def split: prod.splits)

lemma mark_consumed_simps [simp]:
  "ac_consumed (mark_consumed a)" "ac_frozen_call (mark_consumed a) = ac_frozen_call a"
  "ac_provider_grant (mark_consumed a) = ac_provider_grant a"
  "ac_local_decision (mark_consumed a) = ac_local_decision a"
  by (simp_all add: mark_consumed_def)

lemma mark_consumed_id: "ac_consumed a \<Longrightarrow> mark_consumed a = a"
  by (simp add: mark_consumed_def)


section \<open>Concrete calls\<close>

definition sample_call :: authorize_request where
  "sample_call = call_request.extend (send_request (PInt 120))
     \<lparr>rq_arguments = [(KStr ''amount'', PInt 120)], rq_resource = None, rq_tool_version = None,
      rq_schema_hash = None, rq_manifest_hash = None, rq_approval_id = None, rq_approval_state = None\<rparr>"

definition sample_grant :: provider_grant where
  "sample_grant = \<lparr>pg_allowed = True, pg_provider = ''notary'', pg_authorization_id = Some ''z1'',
     pg_attempt_id = None, pg_expires_at = None, pg_reason = None, pg_metadata = []\<rparr>"

text \<open>A provider that grants or denies everything, and whose record fails.\<close>

definition sample_provider :: "bool \<Rightarrow> unit provider" where
  "sample_provider ok = \<lparr>prov_authorize = (\<lambda>fc ld. returnE (Some (sample_grant\<lparr>pg_allowed := ok\<rparr>))),
     prov_record = (\<lambda>g ex. throwE (Foreign (PyExc ''ConnectionError'' ''down'') True))\<rparr>"

definition provided_boundary :: "provider_mode \<Rightarrow> bool \<Rightarrow> unit boundary" where
  "provided_boundary mode ok = sample_boundary\<lparr>b_provider := Some (sample_provider ok), b_provider_mode := mode\<rparr>"

definition sample_authorization :: "provider_grant option \<Rightarrow> authorization_context" where
  "sample_authorization grant = \<lparr>ac_local_decision = local_allow sample_boundary sample_call ''d1'',
     ac_frozen_call = (frozen_of sample_boundary sample_call)\<lparr>fc_call_digest := ''ab12''\<rparr>,
     ac_provider_grant = grant, ac_consumed = False, ac_authorization_id = ''a1''\<rparr>"

text \<open>A boundary in any world, without limit, hooks or kill switch of the environment.\<close>

definition quiet_boundary :: "'w provider option \<Rightarrow> 'w boundary" where
  "quiet_boundary p = \<lparr>b_agent_name = ''bot'', b_autonomy = AUTONOMOUS,
     b_permissions = permission_map [payments], b_blocked_operations = {}, b_allowed_environments = None,
     b_environment = ''prod'', b_max_actions_per_hour = None, b_kill_switch = False,
     b_kill_switch_env = None, b_valid_from = None, b_valid_to = None,
     b_audit = default_sinks, b_policy_hooks = [], b_fail_closed_on_hook_error = True,
     b_strict_limits = True, b_token_issuer = None, b_rate_limiter = check_and_record 0,
     b_provider = p, b_provider_mode = ENFORCE, b_policy_version = None\<rparr>"

lemma quiet_boundary_fields [simp]:
  "b_provider (quiet_boundary p) = p" "b_provider_mode (quiet_boundary p) = ENFORCE"
  "b_audit (quiet_boundary p) = default_sinks" "b_agent_name (quiet_boundary p) = ''bot''"
  "b_policy_hooks (quiet_boundary p) = []" "b_rate_limiter (quiet_boundary p) = check_and_record 0"
  by (simp_all add: quiet_boundary_def)

lemma quiet_boundary_tame: "tame_boundary (quiet_boundary p)"
  by (rule default_sinks_tame) simp

lemma quiet_boundary_allows:
  assumes "rq_tool_name rq = ''pay''" "rq_operation rq = Some ''send''" "rq_access_mode rq = WRITE"
    "rq_value rq = PInt 120" "rq_record_count rq = PNone"
  shows "fst (check (quiet_boundary p) rq w) = Inr ()"
proof -
  let ?b = "quiet_boundary p" and ?c = "context_of (quiet_boundary p) rq"
  have "static_ok ?b ?c payments w"
    using as_finite_int[of 120] assms
    by (simp add: static_ok_def quiet_boundary_def context_of_def within_validity_def
        environment_ok_def operation_allowed_iff value_ok_def records_ok_def num_lt_def
        kill_switch_engaged_def permission_map_def del: as_finite_number.simps)
  moreover have "check_rate_limit ?b ?c v = (Inr (), v)" "check_policy_hooks ?b ?c v = (Inr (), v)" for v
    using assms(1)
    by (simp_all add: quiet_boundary_def check_rate_limit_def check_global_rate_def check_tool_rate_def
        thenE_def bindE_def check_policy_hooks_def context_of_def permission_map_def)
  moreover have "\<not> needs_approval ?b ?c payments"
    by (simp add: needs_approval_def quiet_boundary_def)
  ultimately have "\<exists>w'. local_checks ?b ?c w = (Inr (), w')"
    unfolding local_checks_ok by blast
  then show ?thesis by (metis check_outcome[OF quiet_boundary_tame] fst_conv)
qed

lemma audit_record_tame:
  assumes "tame_boundary b"
  shows "\<exists>ev w'. audit_record (b_audit b) agent dec msg tool op mode reason corr md w = (Inr ev, w')"
  using audit_record_ok[of "b_audit b"] assms unfolding tame_boundary_def by metis

text \<open>What makes \<open>authorize_call\<close> return, in terms of the two provider steps.\<close>

lemma authorize_frozen_returns:
  assumes "tame_boundary b" "b_provider b = Some p"
    and "ask_provider b p frozen ld v = (Inr grant, v1)" "heed_denial b frozen grant v1 = (Inr (), v2)"
  shows "\<exists>a w'. authorize_frozen b rq ld frozen v = (Inr a, w') \<and> ac_provider_grant a = grant"
proof -
  obtain ev v3 where "audit_record (b_audit b) (b_agent_name b) ''ALLOW''
      (rq_tool_name rq @ ''.'' @ op_or_star (rq_operation rq) @ '' authorized (provider: '' @
        (case grant of None \<Rightarrow> ''none'' | Some g \<Rightarrow> pg_provider g) @ '')'')
      (Some (rq_tool_name rq)) (rq_operation rq) (Some (access_value (rq_access_mode rq))) None
      (rq_correlation_id rq) (evidence_metadata rq frozen ld grant) v2 = (Inr ev, v3)"
    using audit_record_tame[OF assms(1)] by blast
  then show ?thesis
    using assms(2-4) by (simp add: authorize_frozen_def bindE_Inr thenE_Inr make_authorization_fresh)
qed

lemma authorize_call_frozen:
  assumes "check b (call_request.truncate rq) w = (Inr (), w1)" "call_digest (frozen_of b rq) = Inr d"
  shows "authorize_call b rq w = authorize_frozen b rq (local_allow b rq (uuids w1 (uuid_ix w1)))
    ((frozen_of b rq)\<lparr>fc_call_digest := d\<rparr>) (w1\<lparr>uuid_ix := Suc (uuid_ix w1)\<rparr>)"
proof -
  have "freeze_with_digest (frozen_of b rq) = Inr ((frozen_of b rq)\<lparr>fc_call_digest := d\<rparr>)"
    using assms(2) by (simp add: freeze_with_digest_Inr)
  then show ?thesis using assms(1) by (simp add: authorize_call_def thenE_Inr bindE_Inr uuid4_def)
qed

lemma authorize_call_returns:
  assumes "tame_boundary b" and "fst (check b (call_request.truncate rq) w) = Inr ()"
    and "call_digest (frozen_of b rq) = Inr d"
    and "\<And>p fc ld v. b_provider b = Some p \<Longrightarrow> \<exists>grant v1 v2. ask_provider b p fc ld v = (Inr grant, v1) \<and>
      heed_denial b fc grant v1 = (Inr (), v2) \<and> P grant"
    and "b_provider b = None \<Longrightarrow> P None"
  shows "\<exists>a w'. authorize_call b rq w = (Inr a, w') \<and> P (ac_provider_grant a)"
proof -
  obtain w1 where c: "check b (call_request.truncate rq) w = (Inr (), w1)"
    using assms(2) by (metis prod.collapse)
  show ?thesis
  proof (cases "b_provider b")
    case None
    then show ?thesis
      using assms(5) by (simp add: authorize_call_frozen[OF c assms(3)] authorize_frozen_def make_authorization_fresh)
  next
    case (Some p)
    then show ?thesis
      using assms(4)[OF Some] authorize_frozen_returns[OF assms(1) Some]
      unfolding authorize_call_frozen[OF c assms(3)] by metis
  qed
qed

lemma authorize_call_asked:
  assumes "authorize_call b rq w = (Inr a, w')" and "b_provider b = Some p"
  shows "\<exists>v1 v2 v3. ask_provider b p (ac_frozen_call a) (ac_local_decision a) v1 =
      (Inr (ac_provider_grant a), v2) \<and>
    heed_denial b (ac_frozen_call a) (ac_provider_grant a) v2 = (Inr (), v3)"
  by (rule authorize_call_Inr[OF assms(1)]) (use assms(2) in simp)

lemma provided_fields [simp]:
  "b_provider (provided_boundary mode ok) = Some (sample_provider ok)"
  "b_provider_mode (provided_boundary mode ok) = mode"
  "b_audit (provided_boundary mode ok) = default_sinks"
  "b_agent_name (provided_boundary mode ok) = ''bot''"
  by (simp_all add: provided_boundary_def)

lemma provided_tame: "tame_boundary (provided_boundary mode ok)"
  by (rule default_sinks_tame) simp

lemma sample_truncate: "call_request.truncate sample_call = send_request (PInt 120)"
  by (simp add: sample_call_def send_request_def call_request.defs)

text \<open>The provider plays no part in \<open>check\<close>.\<close>

lemma checks_provider [simp]:
  "check_kill_switch (b\<lparr>b_provider := p, b_provider_mode := m\<rparr>) = check_kill_switch b"
  "check_quarantine (b\<lparr>b_provider := p, b_provider_mode := m\<rparr>) = check_quarantine b"
  "check_validity_window (b\<lparr>b_provider := p, b_provider_mode := m\<rparr>) = check_validity_window b"
  "check_environment (b\<lparr>b_provider := p, b_provider_mode := m\<rparr>) = check_environment b"
  "check_global_blocked_operations (b\<lparr>b_provider := p, b_provider_mode := m\<rparr>) = check_global_blocked_operations b"
  "check_tool_permission (b\<lparr>b_provider := p, b_provider_mode := m\<rparr>) = check_tool_permission b"
  "check_value_limit (b\<lparr>b_provider := p, b_provider_mode := m\<rparr>) = check_value_limit b"
  "check_record_limit (b\<lparr>b_provider := p, b_provider_mode := m\<rparr>) = check_record_limit b"
  "check_rate_limit (b\<lparr>b_provider := p, b_provider_mode := m\<rparr>) = check_rate_limit b"
  "check_policy_hooks (b\<lparr>b_provider := p, b_provider_mode := m\<rparr>) = check_policy_hooks b"
  "check_requires_approval (b\<lparr>b_provider := p, b_provider_mode := m\<rparr>) = check_requires_approval b"
  by (intro ext, simp add: check_kill_switch_def kill_switch_engaged_def check_quarantine_def
      check_validity_window_def check_environment_def check_global_blocked_operations_def
      check_tool_permission_def check_value_limit_def check_record_limit_def check_rate_limit_def
      check_global_rate_def check_tool_rate_def check_policy_hooks_def check_requires_approval_def
      needs_approval_def cong: option.case_cong)+

lemma check_provider [simp]: "check (b\<lparr>b_provider := p, b_provider_mode := m\<rparr>) rq = check b rq"
proof -
  have "permission_checks (b\<lparr>b_provider := p, b_provider_mode := m\<rparr>) = permission_checks b"
    by (intro ext) (simp add: permission_checks_def)
  then have "local_checks (b\<lparr>b_provider := p, b_provider_mode := m\<rparr>) = local_checks b"
    by (intro ext) (simp add: local_checks_def)
  moreover have "audit_check (b\<lparr>b_provider := p, b_provider_mode := m\<rparr>) = audit_check b"
    by (intro ext) (simp add: audit_check_def)
  moreover have "context_of (b\<lparr>b_provider := p, b_provider_mode := m\<rparr>) = context_of b"
    by (intro ext) (simp add: context_of_def)
  ultimately show ?thesis by (intro ext) (unfold check_def, simp only:)
qed

text \<open>A call has a digest when its arguments serialise.\<close>

lemma call_digest_ok:
  assumes "\<exists>t. dumps canonical_opts (PDict (fc_arguments c)) = Inr t"
  shows "\<exists>d. call_digest c = Inr d"
proof -
  have "\<exists>t. dump_dict canonical_opts (map (\<lambda>(k, v). (k, dumps canonical_opts v))
     [(KStr ''agent_name'', PStr (fc_agent_name c)),
      (KStr ''tool_name'', PStr (fc_tool_name c)),
      (KStr ''operation'', opt_str (fc_operation c)),
      (KStr ''arguments'', PDict (fc_arguments c)),
      (KStr ''resource'', opt_str (fc_resource c)),
      (KStr ''tool_version'', opt_str (fc_tool_version c)),
      (KStr ''schema_hash'', opt_str (fc_schema_hash c)),
      (KStr ''manifest_hash'', opt_str (fc_manifest_hash c)),
      (KStr ''approval_id'', opt_str (fc_approval_id c)),
      (KStr ''approval_state'', opt_str (fc_approval_state c))]) = Inr t"
    using dumps_opt_str assms by (intro dump_dict_ok) (auto simp del: dumps.simps(8))
  then have "\<exists>t. canonicalize (call_binding c) = Inr t"
    by (simp only: canonicalize_def call_binding_def dumps.simps)
  then show ?thesis by (auto simp: call_digest_def digest_of_def)
qed

lemma dumps_sample_arguments: "\<exists>t. dumps jo (PDict [(KStr ''amount'', PInt 120)]) = Inr t"
proof -
  have "length (str_of_nat 120) \<le> 4300" by code_simp
  then have "\<exists>t. dump_dict jo (map (\<lambda>(k, v). (k, dumps jo v)) [(KStr ''amount'', PInt 120)]) = Inr t"
    by (intro dump_dict_ok) (simp_all add: jint_def)
  then show ?thesis by (simp only: dumps.simps)
qed

lemma sample_digest: "\<exists>d. call_digest (frozen_of b sample_call) = Inr d"
  by (rule call_digest_ok)
    (use dumps_sample_arguments in \<open>simp add: frozen_of_def sample_call_def call_request.defs del: dumps.simps\<close>)

lemma provided_allows: "fst (check (provided_boundary mode ok) (call_request.truncate sample_call) sample_world) = Inr ()"
  using sample_allowed[of 120 0] by (simp add: provided_boundary_def sample_truncate sample_uuid_ix)

lemma sample_authorized: "\<exists>a w'. authorize_call (provided_boundary ENFORCE True) sample_call sample_world = (Inr a, w')"
proof -
  obtain d where "call_digest (frozen_of (provided_boundary ENFORCE True) sample_call) = Inr d"
    using sample_digest by blast
  then have "\<exists>a w'. authorize_call (provided_boundary ENFORCE True) sample_call sample_world = (Inr a, w') \<and> True"
    by (rule authorize_call_returns[OF provided_tame provided_allows])
      (auto simp: sample_provider_def ask_provider_def heed_denial_def sample_grant_def)
  then show ?thesis by blast
qed

text \<open>Recording returns when the record can be built and the provider's errors are exceptions.\<close>

lemma provider_receipt_returns:
  assumes "\<And>e. fst (prov_record p g ex w) = Inl e \<Longrightarrow> is_exception e"
  shows "\<exists>receipt w'. provider_receipt_of p g ex w = (Inr receipt, w')"
  using assms by (cases "prov_record p g ex w"; cases "fst (prov_record p g ex w)")
    (auto simp: provider_receipt_of_def thenE_def bindE_def log_line_def)

lemma record_execution_returns:
  assumes "tame_boundary b" and "\<not> ac_consumed a"
    and "build_execution_record (fc_call_digest (ac_frozen_call a)) s f res err = Inr ex"
    and "\<And>p g v e. b_provider b = Some p \<Longrightarrow> fst (prov_record p g ex v) = Inl e \<Longrightarrow> is_exception e"
  shows "\<exists>receipt w'. record_execution b res err s f c (a, w) = (Inr receipt, (mark_consumed a, w'))"
proof -
  obtain ev w1 where r: "audit_record (b_audit b) (b_agent_name b) ''ALLOW''
      (''Execution recorded: '' @ er_status ex) (Some (fc_tool_name (ac_frozen_call a)))
      (fc_operation (ac_frozen_call a)) None None c (execution_metadata a ex) w = (Inr ev, w1)"
    using audit_record_tame[OF assms(1)] by blast
  have "\<exists>receipt w'. (case (b_provider b, ac_provider_grant a) of
      (Some p, Some g) \<Rightarrow> provider_receipt_of p g ex | _ \<Rightarrow> returnE None) w1 = (Inr receipt, w')"
    using provider_receipt_returns[of _ _ ex w1] assms(4) by (auto split: option.splits)
  then show ?thesis
    using r by (auto simp: record_execution_unfold[OF assms(2)] assms(3) on_world_def bindE_Inr)
qed

section \<open>Properties\<close>

text \<open>A call that the local policy does not allow never reaches the provider: for whatever
  provider and mode, \<open>authorize_call\<close> ends with the error of \<open>check\<close> in the state
  \<open>check\<close> left, so a provider can never override a local denial.\<close>

theorem local_denial_never_reaches_provider:
  assumes "fst (check b (call_request.truncate rq) w) = Inl e"
  shows "authorize_call b rq w = (Inl e, snd (check b (call_request.truncate rq) w))"
  using assms by (cases "check b (call_request.truncate rq) w")
    (simp add: authorize_call_def authorize_frozen_def thenE_Inl)

theorem local_denial_never_reaches_provider_witness:
  "\<exists>e. authorize_call (engage_kill_switch (provided_boundary OBSERVE True)) sample_call sample_world =
     (Inl e, snd (check (engage_kill_switch (provided_boundary OBSERVE True)) (send_request (PInt 120)) sample_world))"
proof -
  let ?b = "engage_kill_switch (provided_boundary OBSERVE True)"
  have t: "tame_boundary ?b"
    using provided_tame by (simp add: tame_boundary_def engage_kill_switch_def)
  have "kill_switch_engaged ?b sample_world"
    by (simp add: engage_kill_switch_def kill_switch_engaged_def)
  then have "\<exists>e. fst (check ?b (call_request.truncate sample_call) sample_world) = Inl e"
    by (simp add: check_outcome[OF t] local_checks_kill_switch)
  then show ?thesis
    using local_denial_never_reaches_provider by (metis sample_truncate)
qed

text \<open>An authorization is for the exact call that was checked: \<open>check\<close> let the request
  pass, the frozen call holds the request's own fields with the digest of precisely those, the
  local decision is ALLOW for the boundary's agent, and the authorization is unused.\<close>

theorem authorization_is_for_the_exact_call:
  assumes "authorize_call b rq w = (Inr a, w')"
  shows "fst (check b (call_request.truncate rq) w) = Inr () \<and>
    (\<exists>d. call_digest (frozen_of b rq) = Inr d \<and>
      ac_frozen_call a = (frozen_of b rq)\<lparr>fc_call_digest := d\<rparr>) \<and>
    ld_decision (ac_local_decision a) = ''ALLOW'' \<and>
    ld_agent_name (ac_local_decision a) = b_agent_name b \<and>
    ld_tool_name (ac_local_decision a) = rq_tool_name rq \<and> \<not> ac_consumed a"
  using assms by (rule authorize_call_Inr) (auto simp: local_allow_def)

theorem authorization_is_for_the_exact_call_witness:
  "\<exists>a w'. authorize_call (provided_boundary ENFORCE True) sample_call sample_world = (Inr a, w') \<and>
     \<not> ac_consumed a \<and> fc_arguments (ac_frozen_call a) = [(KStr ''amount'', PInt 120)]"
proof -
  obtain a w' where a: "authorize_call (provided_boundary ENFORCE True) sample_call sample_world = (Inr a, w')"
    using sample_authorized by blast
  show ?thesis
    using a authorization_is_for_the_exact_call[OF a]
    by (auto simp: frozen_of_def sample_call_def call_request.defs)
qed

text \<open>In enforce mode an authorization is returned only after the provider was asked about
  that frozen call and answered without an error; the grant it gave is kept and is not a
  denial. (A provider that gives no grant at all also passes.)\<close>

theorem enforced_authorization_was_granted:
  assumes "authorize_call b rq w = (Inr a, w')"
    and "b_provider b = Some p" and "b_provider_mode b = ENFORCE"
  shows "\<exists>v v'. prov_authorize p (ac_frozen_call a) (ac_local_decision a) v =
      (Inr (ac_provider_grant a), v') \<and>
    (\<forall>g. ac_provider_grant a = Some g \<longrightarrow> pg_allowed g)"
proof -
  from assms(1,2) obtain v1 v2 v3 where
    "ask_provider b p (ac_frozen_call a) (ac_local_decision a) v1 = (Inr (ac_provider_grant a), v2)"
    "heed_denial b (ac_frozen_call a) (ac_provider_grant a) v2 = (Inr (), v3)"
    using authorize_call_asked by blast
  then show ?thesis
    using ask_provider_enforced[OF _ assms(3)] heed_denial_enforced[OF _ assms(3)] by metis
qed

theorem enforced_authorization_was_granted_witness:
  "\<exists>a w'. authorize_call (provided_boundary ENFORCE True) sample_call sample_world = (Inr a, w') \<and>
     (\<exists>g. ac_provider_grant a = Some g \<and> pg_allowed g)"
proof -
  obtain a w' where a: "authorize_call (provided_boundary ENFORCE True) sample_call sample_world = (Inr a, w')"
    using sample_authorized by blast
  have "\<exists>v v'. prov_authorize (sample_provider True) (ac_frozen_call a) (ac_local_decision a) v =
      (Inr (ac_provider_grant a), v') \<and> (\<forall>g. ac_provider_grant a = Some g \<longrightarrow> pg_allowed g)"
    by (rule enforced_authorization_was_granted[OF a]) simp_all
  then have "\<exists>g. ac_provider_grant a = Some g \<and> pg_allowed g"
    by (cases "ac_provider_grant a") (auto simp: sample_provider_def)
  then show ?thesis using a by blast
qed

text \<open>In enforce mode a provider that fails or denies blocks the call: no authorization is
  ever returned.\<close>

theorem enforce_mode_blocks:
  assumes "b_provider b = Some p" and "b_provider_mode b = ENFORCE"
    and "\<And>fc ld v. (case fst (prov_authorize p fc ld v) of Inl e \<Rightarrow> True
       | Inr grant \<Rightarrow> (\<exists>g. grant = Some g \<and> \<not> pg_allowed g))"
  shows "\<exists>e. fst (authorize_call b rq w) = Inl e"
proof (rule ccontr)
  assume "\<nexists>e. fst (authorize_call b rq w) = Inl e"
  then obtain a w' where a: "authorize_call b rq w = (Inr a, w')"
    by (cases "authorize_call b rq w"; cases "fst (authorize_call b rq w)") auto
  obtain v1 v2 v3 where
    "ask_provider b p (ac_frozen_call a) (ac_local_decision a) v1 = (Inr (ac_provider_grant a), v2)"
    "heed_denial b (ac_frozen_call a) (ac_provider_grant a) v2 = (Inr (), v3)"
    using authorize_call_asked[OF a assms(1)] by blast
  then show False
    using ask_provider_enforced[OF _ assms(2)] heed_denial_enforced[OF _ assms(2)]
      assms(3)[of "ac_frozen_call a" "ac_local_decision a" v1] by (auto split: sum.splits)
qed

theorem enforce_mode_blocks_witness:
  "\<exists>e. fst (authorize_call (provided_boundary ENFORCE False) sample_call sample_world) = Inl e"
  by (rule enforce_mode_blocks[of _ "sample_provider False"]) (simp_all add: sample_provider_def)

text \<open>In observe mode the provider never blocks a locally allowed call: whatever grant it
  gives and whatever \<open>Exception\<close> it raises, an authorization is returned.\<close>

theorem observe_mode_never_blocks:
  assumes "tame_boundary b" and "b_provider_mode b = OBSERVE"
    and "fst (check b (call_request.truncate rq) w) = Inr ()"
    and "call_digest (frozen_of b rq) = Inr d"
    and "\<And>p fc ld v e. b_provider b = Some p \<Longrightarrow> fst (prov_authorize p fc ld v) = Inl e \<Longrightarrow> is_exception e"
  shows "\<exists>a w'. authorize_call b rq w = (Inr a, w')"
proof -
  have "\<exists>grant v1 v2. ask_provider b p fc ld v = (Inr grant, v1) \<and>
      heed_denial b fc grant v1 = (Inr (), v2) \<and> True" if "b_provider b = Some p" for p fc ld v
  proof -
    have "\<exists>grant v1. ask_provider b p fc ld v = (Inr grant, v1)"
      using assms(2) assms(5)[OF that, of fc ld v]
      by (cases "prov_authorize p fc ld v"; cases "fst (prov_authorize p fc ld v)")
        (auto simp: ask_provider_def thenE_def bindE_def log_line_def)
    moreover have "\<exists>v2. heed_denial b fc grant v1 = (Inr (), v2)" for grant v1
      using assms(2) by (auto simp: heed_denial_def log_line_def split: option.splits)
    ultimately show ?thesis by blast
  qed
  from authorize_call_returns[OF assms(1,3,4) this] show ?thesis by blast
qed

theorem observe_mode_never_blocks_witness:
  "\<exists>a w'. authorize_call (provided_boundary OBSERVE False) sample_call sample_world = (Inr a, w')"
proof -
  obtain d where d: "call_digest (frozen_of (provided_boundary OBSERVE False) sample_call) = Inr d"
    using sample_digest by blast
  show ?thesis
    by (rule observe_mode_never_blocks[OF provided_tame _ provided_allows d])
      (auto simp: sample_provider_def)
qed

text \<open>C9: When the provider decides: for a locally allowed call with a digest, and a provider that raises
  ordinary exceptions at most, an authorization is returned exactly when the mode is observe, or the
  provider, asked in the world the checks left about the frozen call and the local decision,
  answers with a grant that allows or with \<open>None\<close>. Its failure or denial blocks in enforce mode
  only. The documents ask for an explicit allow in enforce mode; the code takes a provider's
  missing answer for consent.\<close>

theorem provider_decides_in_enforce_mode:
  assumes "tame_boundary b" "check b (call_request.truncate rq) w = (Inr (), w1)"
    and "call_digest (frozen_of b rq) = Inr d" "b_provider b = Some p"
    and "\<And>fc ld v e. fst (prov_authorize p fc ld v) = Inl e \<Longrightarrow> is_exception e"
  shows "(\<exists>a w'. authorize_call b rq w = (Inr a, w')) \<longleftrightarrow> b_provider_mode b = OBSERVE \<or>
    (\<exists>grant. fst (prov_authorize p ((frozen_of b rq)\<lparr>fc_call_digest := d\<rparr>) (local_allow b rq (uuids w1 (uuid_ix w1)))
        (w1\<lparr>uuid_ix := Suc (uuid_ix w1)\<rparr>)) = Inr grant \<and> (grant = None \<or> (\<exists>g. grant = Some g \<and> pg_allowed g)))"
proof -
  let ?f = "(frozen_of b rq)\<lparr>fc_call_digest := d\<rparr>" and ?ld = "local_allow b rq (uuids w1 (uuid_ix w1))"
  let ?v = "w1\<lparr>uuid_ix := Suc (uuid_ix w1)\<rparr>"
  let ?pass = "\<exists>grant v1 v2. ask_provider b p ?f ?ld ?v = (Inr grant, v1) \<and> heed_denial b ?f grant v1 = (Inr (), v2)"
  have "(\<exists>a w'. authorize_call b rq w = (Inr a, w')) \<longleftrightarrow> ?pass"
  proof
    assume "\<exists>a w'. authorize_call b rq w = (Inr a, w')"
    then show ?pass
      using assms(4) by (auto simp: authorize_call_frozen[OF assms(2,3)] authorize_frozen_def bindE_Inr_iff thenE_Inr_iff)
  next
    assume ?pass
    then show "\<exists>a w'. authorize_call b rq w = (Inr a, w')"
      using authorize_frozen_returns[OF assms(1,4)] unfolding authorize_call_frozen[OF assms(2,3)] by metis
  qed
  also have "\<dots> \<longleftrightarrow> b_provider_mode b = OBSERVE \<or>
      (\<exists>grant. fst (prov_authorize p ?f ?ld ?v) = Inr grant \<and> (grant = None \<or> (\<exists>g. grant = Some g \<and> pg_allowed g)))"
  proof (cases "prov_authorize p ?f ?ld ?v")
    case (Pair r v1)
    then show ?thesis
      using assms(5)[of ?f ?ld ?v]
      by (cases r; cases "b_provider_mode b")
        (auto simp: ask_provider_def heed_denial_def thenE_def bindE_def log_line_def split: option.splits)
  qed
  finally show ?thesis .
qed

text \<open>A provider that denies, and one that answers \<open>None\<close>, in both modes.\<close>

definition silent_boundary :: "provider_mode \<Rightarrow> unit boundary" where
  "silent_boundary mode = sample_boundary\<lparr>b_provider := Some \<lparr>prov_authorize = (\<lambda>fc ld. returnE None),
     prov_record = (\<lambda>g ex. returnE None)\<rparr>, b_provider_mode := mode\<rparr>"

theorem provider_decides_in_enforce_mode_witness:
  "\<not> (\<exists>a w'. authorize_call (provided_boundary ENFORCE False) sample_call sample_world = (Inr a, w')) \<and>
   (\<exists>a w'. authorize_call (provided_boundary OBSERVE False) sample_call sample_world = (Inr a, w')) \<and>
   (\<exists>a w'. authorize_call (silent_boundary ENFORCE) sample_call sample_world = (Inr a, w'))"
proof -
  have denied: "(\<exists>a w'. authorize_call (provided_boundary m False) sample_call sample_world = (Inr a, w')) \<longleftrightarrow> m = OBSERVE" for m
  proof -
    obtain d where d: "call_digest (frozen_of (provided_boundary m False) sample_call) = Inr d"
      using sample_digest by blast
    obtain w1 where c: "check (provided_boundary m False) (call_request.truncate sample_call) sample_world = (Inr (), w1)"
      using provided_allows[of m False] by (metis prod.collapse)
    show ?thesis
      by (subst provider_decides_in_enforce_mode[OF provided_tame c d, of "sample_provider False"])
        (auto simp: sample_provider_def sample_grant_def)
  qed
  moreover have "\<exists>a w'. authorize_call (silent_boundary ENFORCE) sample_call sample_world = (Inr a, w')"
  proof -
    have t: "tame_boundary (silent_boundary ENFORCE)" by (rule default_sinks_tame) (simp add: silent_boundary_def)
    obtain d where d: "call_digest (frozen_of (silent_boundary ENFORCE) sample_call) = Inr d"
      using sample_digest by blast
    have "fst (check (silent_boundary ENFORCE) (call_request.truncate sample_call) sample_world) = Inr ()"
      using sample_allowed[of 120 0] by (simp add: silent_boundary_def sample_truncate sample_uuid_ix)
    then obtain w1 where c: "check (silent_boundary ENFORCE) (call_request.truncate sample_call) sample_world = (Inr (), w1)"
      by (metis prod.collapse)
    show ?thesis
      by (subst provider_decides_in_enforce_mode[OF t c d]) (auto simp: silent_boundary_def)
  qed
  ultimately show ?thesis by simp
qed

text \<open>C7: An authorization is good for one execution. Recording marks it as used whatever the
  outcome, and recording with a used one changes nothing, asks no provider and raises
  \<open>AuthorizationConsumed\<close>.\<close>

theorem authorization_is_single_use:
  "fst (snd (record_execution b res err s f c (a, w))) = mark_consumed a \<and>
   record_execution b res' err' s' f' c' (mark_consumed a, w') =
     (Inl (AuthorizationConsumed
        ''This authorization has already been consumed and cannot be reused.''), (mark_consumed a, w'))"
proof (cases "ac_consumed a")
  case True
  then show ?thesis by (simp add: record_execution_consumed mark_consumed_id)
next
  case False
  then show ?thesis by (simp add: record_execution_consumed record_execution_unfold split: sum.splits)
qed


text \<open>C6: The local record of an execution outlives the provider. With the default trail, a fresh
  authorization and a result that has a digest, \<open>record_execution\<close> returns whatever
  \<open>Exception\<close> the provider raises, and the log has gained the JSON line of an event that
  carries the execution's status and the digest of the authorized call, as long as the
  provider itself only appends to the log.\<close>

theorem evidence_survives_provider_failure:
  assumes "b_audit b = default_sinks" and "\<not> ac_consumed a"
    and "build_execution_record (fc_call_digest (ac_frozen_call a)) s f res err = Inr ex"
    and "\<And>p g v e. b_provider b = Some p \<Longrightarrow> fst (prov_record p g ex v) = Inl e \<Longrightarrow> is_exception e"
    and "\<And>p g v. b_provider b = Some p \<Longrightarrow> \<exists>more. log (snd (prov_record p g ex v)) = log v @ more"
  shows "\<exists>receipt w' ev line more. record_execution b res err s f c (a, w) = (Inr receipt, (mark_consumed a, w')) \<and>
    event_to_json ev = Inr line \<and> ev_message ev = ''Execution recorded: '' @ er_status ex \<and>
    dict_get (ev_metadata ev) (KStr ''call_digest'') = Some (PStr (fc_call_digest (ac_frozen_call a))) \<and>
    log w' = log w @ [(''toolboundary.audit'', log_INFO, line)] @ more"
proof -
  obtain ev line w1 where a: "audit_record (b_audit b) (b_agent_name b) ''ALLOW''
      (''Execution recorded: '' @ er_status ex) (Some (fc_tool_name (ac_frozen_call a)))
      (fc_operation (ac_frozen_call a)) None None c (execution_metadata a ex) w = (Inr ev, w1)"
    and w1: "log w1 = log w @ [(''toolboundary.audit'', log_INFO, line)]"
    and ev: "event_to_json ev = Inr line" "ev_message ev = ''Execution recorded: '' @ er_status ex"
      "ev_metadata ev = execution_metadata a ex"
    using audit_record_default[OF dumps_string_dict[OF string_dict_execution_metadata[of a ex]],
        of "b_agent_name b" "''ALLOW''" "''Execution recorded: '' @ er_status ex"
        "Some (fc_tool_name (ac_frozen_call a))" "fc_operation (ac_frozen_call a)" None None c w]
    by (auto simp: assms(1))
  let ?k = "case (b_provider b, ac_provider_grant a) of
             (Some p, Some g) \<Rightarrow> provider_receipt_of p g ex | _ \<Rightarrow> returnE None"
  have "\<exists>receipt w' more. ?k w1 = (Inr receipt, w') \<and> log w' = log w1 @ more"
  proof (cases "\<exists>p g. b_provider b = Some p \<and> ac_provider_grant a = Some g")
    case True
    then obtain p g where pg: "b_provider b = Some p" "ac_provider_grant a = Some g" by blast
    obtain r v where r: "prov_record p g ex w1 = (r, v)" by fastforce
    obtain more where "log v = log w1 @ more" using assms(5)[OF pg(1), of g w1] r by auto
    then show ?thesis
      using assms(4)[OF pg(1), of g w1] pg r
      by (cases r) (auto simp: provider_receipt_of_def thenE_def bindE_def log_line_def)
  qed (auto split: option.splits)
  then obtain receipt w' more where k: "?k w1 = (Inr receipt, w')" "log w' = log w1 @ more" by blast
  have "record_execution b res err s f c (a, w) = (Inr receipt, (mark_consumed a, w'))"
    using a k(1) by (simp add: record_execution_unfold[OF assms(2)] assms(3) on_world_def bindE_Inr)
  moreover have "dict_get (ev_metadata ev) (KStr ''call_digest'') = Some (PStr (fc_call_digest (ac_frozen_call a)))"
    using ev(3) execution_metadata_digest[of a ex] by simp
  moreover have "log w' = log w @ [(''toolboundary.audit'', log_INFO, line)] @ more"
    using k(2) w1 by simp
  ultimately show ?thesis using ev(1,2) by blast
qed

theorem evidence_survives_provider_failure_witness:
  "\<exists>receipt w'. record_execution (provided_boundary ENFORCE True) (Some (PStr ''done'')) None 1 2 None
     (sample_authorization (Some sample_grant), sample_world) =
       (Inr receipt, (mark_consumed (sample_authorization (Some sample_grant)), w')) \<and> log w' \<noteq> []"
proof -
  have a: "b_audit (provided_boundary ENFORCE True) = default_sinks"
    by (simp add: provided_boundary_def)
  have p: "b_provider (provided_boundary ENFORCE True) = Some p \<longleftrightarrow> p = sample_provider True" for p
    by (auto simp: provided_boundary_def)
  obtain ex where "build_execution_record (fc_call_digest (ac_frozen_call (sample_authorization (Some sample_grant))))
      1 2 (Some (PStr ''done'')) None = Inr ex"
    by (simp add: build_execution_record_def result_digest_def digest_of_def canonicalize_def)
  from evidence_survives_provider_failure[OF a _ this, of None sample_world] show ?thesis
    unfolding p by (force simp: sample_provider_def sample_authorization_def)
qed

text \<open>C40: A result without a canonical form defeats the record: when the result of a call that was
  dispatched cannot be serialised (a dictionary whose keys do not sort, say),
  \<open>record_execution\<close> raises the serialiser's error, has written nothing, and the
  authorization is spent, so no later record is possible.\<close>

theorem unserialisable_result_leaves_no_evidence:
  assumes "canonicalize v = Inl e" and "v \<noteq> PNone" and "\<not> ac_consumed a"
  shows "record_execution b (Some v) None s f c (a, w) = (Inl (Foreign e True), (mark_consumed a, w))"
proof -
  have "build_execution_record d s f (Some v) None = Inl e" for d
    using assms(1,2) by (cases v) (simp_all add: build_execution_record_def result_digest_def digest_of_def)
  then show ?thesis using assms(3) by (simp add: record_execution_unfold)
qed

theorem unserialisable_result_leaves_no_evidence_witness:
  "\<exists>e. fst (record_execution sample_boundary (Some (PDict [(KInt 1, PNone), (KStr ''a'', PNone)])) None 1 2
     None (sample_authorization None, sample_world)) = Inl (Foreign e True)"
proof -
  obtain e where "canonicalize (PDict [(KInt 1, PNone), (KStr ''a'', PNone)]) = Inl e"
    by (simp add: canonicalize_def dump_dict_def sort_items_def)
  moreover have "\<not> ac_consumed (sample_authorization None)" by (simp add: sample_authorization_def)
  ultimately have "record_execution sample_boundary (Some (PDict [(KInt 1, PNone), (KStr ''a'', PNone)])) None 1 2
     None (sample_authorization None, sample_world) =
       (Inl (Foreign e True), (mark_consumed (sample_authorization None), sample_world))"
    by (intro unserialisable_result_leaves_no_evidence) simp_all
  then show ?thesis by simp
qed

end
