(* ===== verification/Redact.thy ===== *)
theory Redact
  imports Py_Json
begin

text \<open>
  \<open>_redact.py\<close>: call arguments as audit metadata. The regular expression of sensitive names is
  a list of alternatives over three kinds of pieces, matched the way \<open>re.search\<close> does; the
  redacted dictionary maps names to strings, in the order of the arguments.
\<close>

section \<open>Sensitive names\<close>

text \<open>A literal, an optional literal, an optional character of a class.\<close>

datatype re_piece = Lit string | OptLit string | OptClass "char set"

text \<open>The ends of the matches of one alternative at the beginning of a string.\<close>

definition starts :: "string \<Rightarrow> string \<Rightarrow> bool" where
  "starts p s \<longleftrightarrow> take (length p) s = p"

fun piece_ends :: "re_piece \<Rightarrow> string \<Rightarrow> string list" where
  "piece_ends (Lit p) s = (if starts p s then [drop (length p) s] else [])"
| "piece_ends (OptLit p) s = (if starts p s then [drop (length p) s, s] else [s])"
| "piece_ends (OptClass C) s = (case s of [] \<Rightarrow> [[]] | c # t \<Rightarrow> if c \<in> C then [t, s] else [s])"

fun matches_here :: "re_piece list \<Rightarrow> string \<Rightarrow> bool" where
  "matches_here [] s = True"
| "matches_here (p # ps) s = list_ex (matches_here ps) (piece_ends p s)"

fun re_search :: "re_piece list list \<Rightarrow> string \<Rightarrow> bool" where
  "re_search alts [] = list_ex (\<lambda>a. matches_here a []) alts"
| "re_search alts (c # s) = (list_ex (\<lambda>a. matches_here a (c # s)) alts \<or> re_search alts s)"

definition SENSITIVE :: "re_piece list list" where
  "SENSITIVE = [[Lit ''pass'', OptLit ''word''], [Lit ''secret''], [Lit ''token''],
     [Lit ''api'', OptClass {CHR ''_'', CHR ''-''}, Lit ''key''], [Lit ''authorization''],
     [Lit ''credential''], [Lit ''private'', OptClass {CHR ''_'', CHR ''-''}, Lit ''key''],
     [Lit ''cookie''], [Lit ''session'']]"

text \<open>
  \<open>_SENSITIVE.search(name)\<close>; ignoring case is matching the lower-case name, since among the
  characters here only \<open>A\<close> to \<open>Z\<close> fold to the letters of the pattern.
\<close>

definition sensitive :: "string \<Rightarrow> bool" where
  "sensitive name = re_search SENSITIVE (py_lower name)"

section \<open>Redaction\<close>

text \<open>\<open>s[:n]\<close>\<close>

definition py_take :: "int \<Rightarrow> string \<Rightarrow> string" where
  "py_take n s = take (nat (if n < 0 then int (length s) + n else n)) s"

definition truncated :: string where
  "truncated = ''...(truncated)''"

definition redact_value :: "string set \<Rightarrow> int \<Rightarrow> bool \<Rightarrow> string \<Rightarrow> pyval \<Rightarrow> string" where
  "redact_value extra_names max_len log_values name v =
    (if name \<in> extra_names \<or> sensitive name then ''<redacted>''
     else if \<not> log_values then ''<'' @ type_name v @ ''>''
     else (let rendered = (case repr_val v of Inr s \<Rightarrow> s | Inl _ \<Rightarrow> ''<unrepresentable>'')
           in if int (length rendered) \<le> max_len then rendered
              else py_take max_len rendered @ truncated))"

definition redact_args ::
  "string set \<Rightarrow> int \<Rightarrow> bool \<Rightarrow> (string \<times> pyval) list \<Rightarrow> (string \<times> string) list" where
  "redact_args extra_names max_len log_values arguments =
     map (\<lambda>(name, v). (name, redact_value extra_names max_len log_values name v)) arguments"

definition safe_repr :: "int \<Rightarrow> (string \<times> pyval) list \<Rightarrow> (string \<times> string) list" where
  "safe_repr max_len kwargs = redact_args {} max_len True kwargs"

section \<open>Which names are sensitive\<close>

text \<open>The pattern is a search for one of thirteen words.\<close>

definition contains :: "string \<Rightarrow> string \<Rightarrow> bool" where
  "contains s p \<longleftrightarrow> (\<exists>u v. s = u @ p @ v)"

definition secret_words :: "string list" where
  "secret_words = [''pass'', ''secret'', ''token'', ''apikey'', ''api_key'', ''api-key'',
     ''authorization'', ''credential'', ''privatekey'', ''private_key'', ''private-key'',
     ''cookie'', ''session'']"

lemma starts_iff: "starts p s \<longleftrightarrow> (\<exists>v. s = p @ v)"
  unfolding starts_def by (metis append_eq_conv_conj append_take_drop_id)

lemma starts_append: "starts (p @ q) s \<longleftrightarrow> starts p s \<and> starts q (drop (length p) s)"
  by (auto simp: starts_iff)

lemma re_search_iff: "re_search alts s \<longleftrightarrow> (\<exists>u v a. s = u @ v \<and> a \<in> set alts \<and> matches_here a v)"
proof (induction s)
  case Nil
  then show ?case by (auto simp: list_ex_iff)
next
  case (Cons c s)
  have "(\<exists>u v a. c # s = u @ v \<and> a \<in> set alts \<and> matches_here a v) \<longleftrightarrow>
      (\<exists>a \<in> set alts. matches_here a (c # s)) \<or> (\<exists>u v a. s = u @ v \<and> a \<in> set alts \<and> matches_here a v)"
    by (auto simp: Cons_eq_append_conv)
  then show ?case using Cons by (auto simp: list_ex_iff)
qed

lemma matches_Lit: "matches_here [Lit p] s \<longleftrightarrow> starts p s"
  by simp

lemma matches_opt_key:
  "matches_here [Lit p, OptClass {CHR ''_'', CHR ''-''}, Lit ''key''] s \<longleftrightarrow>
     starts (p @ ''key'') s \<or> starts (p @ ''_key'') s \<or> starts (p @ ''-key'') s"
proof -
  have "matches_here [OptClass {CHR ''_'', CHR ''-''}, Lit ''key''] t \<longleftrightarrow>
     starts ''key'' t \<or> starts ''_key'' t \<or> starts ''-key'' t" for t
    by (cases t) (auto simp: starts_def)
  then show ?thesis by (simp only: matches_here.simps piece_ends.simps starts_append) simp
qed

lemma matches_opt_tail: "matches_here [Lit p, OptLit q] s \<longleftrightarrow> starts p s"
  by simp

lemma sensitive_at:
  "(\<exists>a \<in> set SENSITIVE. matches_here a v) \<longleftrightarrow> (\<exists>p \<in> set secret_words. starts p v)"
  unfolding SENSITIVE_def secret_words_def
  by (simp only: list.set bex_simps matches_Lit matches_opt_key matches_opt_tail append_Cons
      append_Nil disj_assoc)

lemma sensitive_iff: "sensitive name \<longleftrightarrow> (\<exists>p \<in> set secret_words. contains (py_lower name) p)"
  unfolding sensitive_def re_search_iff contains_def
  using sensitive_at starts_iff by (metis (no_types, opaque_lifting))

section \<open>What redaction hides\<close>

lemma redact_names: "map fst (redact_args extra max_len log_values args) = map fst args"
  by (simp add: redact_args_def case_prod_beta comp_def)

lemma sensitive_example: "contains (py_lower ''API_Key'') ''api_key''"
proof -
  have "py_lower ''API_Key'' = ''api_key''" by code_simp
  then show ?thesis unfolding contains_def by (intro exI[of _ "[]"]) simp
qed

text \<open>The names whose values the audit metadata must not show.\<close>

definition withheld :: "string set \<Rightarrow> string \<Rightarrow> bool" where
  "withheld extra_names name \<longleftrightarrow> name \<in> extra_names \<or> (\<exists>p \<in> set secret_words. contains (py_lower name) p)"

lemma redact_value_withheld:
  "redact_value extra max_len log_values n v =
    (if withheld extra n then ''<redacted>'' else redact_value {} max_len log_values [] v)"
proof -
  have "\<not> sensitive []" by (simp add: sensitive_def SENSITIVE_def py_lower_def starts_def)
  then show ?thesis by (simp add: redact_value_def withheld_def sensitive_iff)
qed

lemma redact_value_blind:
  "v = v' \<or> withheld extra n \<or> (\<not> log_values \<and> type_name v = type_name v') \<Longrightarrow>
   redact_value extra max_len log_values n v = redact_value extra max_len log_values n v'"
  by (auto simp: redact_value_withheld[of extra max_len log_values n]) (simp add: redact_value_def)

lemma redact_value_length:
  "0 \<le> max_len \<Longrightarrow> int (length (redact_value extra max_len True n v)) \<le> max_len + 14"
  by (auto simp: redact_value_def py_take_def truncated_def Let_def split: sum.splits)

lemma redact_value_shown:
  "\<not> withheld extra n \<Longrightarrow> repr_val v = Inr t \<Longrightarrow> int (length t) \<le> max_len \<Longrightarrow>
   redact_value extra max_len True n v = t"
  by (simp add: redact_value_def withheld_def sensitive_iff)

text \<open>C16: Audit metadata is blind to secrets, and to nothing else. Two argument lists of the same
  names whose values differ only under a listed name or a name that contains one of the thirteen
  secret words in any case (or, when values are not logged, only in values of the same type) give
  the same metadata; an argument under any other name is shown by its full \<open>repr\<close> when values
  are logged and the \<open>repr\<close> fits the limit; the metadata has the names of the arguments in their order; and
  no logged entry is longer than the limit and the truncation mark.\<close>

theorem redaction_hides_secrets:
  assumes "list_all2 (\<lambda>(n, v) (n', v'). n = n' \<and>
     (v = v' \<or> withheld extra n \<or> (\<not> log_values \<and> type_name v = type_name v'))) args args'"
    and "0 \<le> max_len"
  shows "redact_args extra max_len log_values args = redact_args extra max_len log_values args' \<and>
    map fst (redact_args extra max_len log_values args) = map fst args \<and>
    (\<forall>n v t. log_values \<longrightarrow> (n, v) \<in> set args \<longrightarrow> \<not> withheld extra n \<longrightarrow> repr_val v = Inr t \<longrightarrow>
      int (length t) \<le> max_len \<longrightarrow> (n, t) \<in> set (redact_args extra max_len log_values args)) \<and>
    (\<forall>n s. log_values \<longrightarrow> (n, s) \<in> set (redact_args extra max_len log_values args) \<longrightarrow> int (length s) \<le> max_len + 14)"
proof (intro conjI)
  show "redact_args extra max_len log_values args = redact_args extra max_len log_values args'"
    using assms(1)
    by (induction rule: list_all2_induct) (auto simp: redact_args_def intro: redact_value_blind)
  show "\<forall>n v t. log_values \<longrightarrow> (n, v) \<in> set args \<longrightarrow> \<not> withheld extra n \<longrightarrow> repr_val v = Inr t \<longrightarrow>
      int (length t) \<le> max_len \<longrightarrow> (n, t) \<in> set (redact_args extra max_len log_values args)"
    by (force simp: redact_args_def redact_value_shown image_iff)
  show "\<forall>n s. log_values \<longrightarrow> (n, s) \<in> set (redact_args extra max_len log_values args) \<longrightarrow> int (length s) \<le> max_len + 14"
    using redact_value_length[OF assms(2)] by (auto simp: redact_args_def)
qed (rule redact_names)

theorem redaction_hides_secrets_witness:
  "redact_args {} 200 True [(''user'', PStr ''eve''), (''API_Key'', PStr ''k1'')] =
     redact_args {} 200 True [(''user'', PStr ''eve''), (''API_Key'', PStr ''k2'')] \<and>
   (\<exists>s. (''API_Key'', s) \<in> set (redact_args {} 200 True [(''user'', PStr ''eve''), (''API_Key'', PStr ''k1'')]) \<and>
     length s \<le> 214)"
proof -
  let ?a = "[(''user'', PStr ''eve''), (''API_Key'', PStr ''k1'')]"
  let ?b = "[(''user'', PStr ''eve''), (''API_Key'', PStr ''k2'')]"
  have "withheld {} ''API_Key''" using sensitive_example by (auto simp: withheld_def secret_words_def)
  then have "list_all2 (\<lambda>(n, v) (n', v'). n = n' \<and>
     (v = v' \<or> withheld {} n \<or> (\<not> True \<and> type_name v = type_name v'))) ?a ?b" by simp
  from redaction_hides_secrets[OF this, of 200] show ?thesis
    by (auto simp: redact_args_def split: prod.splits)
qed

end
