(* ===== verification/Decorators.thy ===== *)
theory Decorators
  imports Boundary_Flow Redact
begin

text \<open>
  \<open>decorators.py\<close>: the wrapper that \<open>guarded_tool\<close> puts around a function. The
  signature binding of \<open>inspect\<close> is written out, since which arguments the boundary sees
  depends on it; the wrapped function is a parameter.
\<close>

section \<open>Signatures\<close>

datatype param_kind = PosOnly | PosOrKw | VarPos | KwOnly | VarKw

record param =
  pa_name :: string
  pa_kind :: param_kind
  pa_default :: "pyval option"

type_synonym kwargs = "(string \<times> pyval) list"

definition TypeError :: "string \<Rightarrow> exn" where
  "TypeError msg = Foreign (PyExc ''TypeError'' msg) True"

text \<open>Positional arguments against the parameters: what they bind, the parameters left.\<close>

fun bind_positional ::
  "param list \<Rightarrow> pyval list \<Rightarrow> kwargs \<Rightarrow> exn + kwargs \<times> param list" where
  "bind_positional ps [] kw = Inr ([], ps)"
| "bind_positional [] (a # as) kw = Inl (TypeError ''too many positional arguments'')"
| "bind_positional (p # ps) (a # as) kw =
    (if pa_kind p \<in> {VarKw, KwOnly} then Inl (TypeError ''too many positional arguments'')
     else if pa_kind p = VarPos then Inr ([(pa_name p, PTuple (a # as))], ps)
     else if pa_name p \<in> fst ` set kw \<and> pa_kind p \<noteq> PosOnly then
       Inl (TypeError (''multiple values for argument '' @ repr_str (pa_name p)))
     else (case bind_positional ps as kw of Inl e \<Rightarrow> Inl e
       | Inr (b, rest) \<Rightarrow> Inr ((pa_name p, a) # b, rest)))"

definition is_var :: "param \<Rightarrow> bool" where
  "is_var p \<longleftrightarrow> pa_kind p = VarPos \<or> pa_kind p = VarKw"

definition kw_dict :: "kwargs \<Rightarrow> pyval" where
  "kw_dict kw = PDict (map (\<lambda>(n, v). (KStr n, v)) kw)"

text \<open>Keyword arguments against the parameters left; the rest goes to \<open>**kwargs\<close>.\<close>

definition bind_keywords :: "param list \<Rightarrow> kwargs \<Rightarrow> exn + kwargs" where
  "bind_keywords ps kw =
    (let named = filter (\<lambda>p. \<not> is_var p \<and> pa_name p \<in> fst ` set kw) ps;
         left = filter (\<lambda>(n, v). n \<notin> pa_name ` set named) kw;
         bound = map (\<lambda>p. (pa_name p, the (map_of kw (pa_name p)))) named
     in if list_ex (\<lambda>p. pa_kind p = PosOnly) named then
          Inl (TypeError ''positional only argument was passed as a keyword'')
        else if left = [] then Inr bound
        else (case filter (\<lambda>p. pa_kind p = VarKw) ps of
            [] \<Rightarrow> Inl (TypeError ''got an unexpected keyword argument'')
          | p # _ \<Rightarrow> Inr (bound @ [(pa_name p, kw_dict left)])))"

text \<open>\<open>sig.bind_partial(*args, **kwargs)\<close>\<close>

definition bind_partial :: "param list \<Rightarrow> pyval list \<Rightarrow> kwargs \<Rightarrow> exn + kwargs" where
  "bind_partial ps args kw =
    (case bind_positional ps args kw of Inl e \<Rightarrow> Inl e
     | Inr (bound, rest) \<Rightarrow>
        (case bind_keywords rest kw of Inl e \<Rightarrow> Inl e | Inr bound' \<Rightarrow> Inr (bound @ bound')))"

text \<open>\<open>bound.apply_defaults()\<close>: every parameter in order, absent ones without a default left out.\<close>

definition default_of :: "param \<Rightarrow> pyval option" where
  "default_of p = (case pa_default p of Some v \<Rightarrow> Some v
     | None \<Rightarrow> (case pa_kind p of VarPos \<Rightarrow> Some (PTuple []) | VarKw \<Rightarrow> Some (PDict []) | _ \<Rightarrow> None))"

fun apply_defaults :: "param list \<Rightarrow> kwargs \<Rightarrow> kwargs" where
  "apply_defaults [] b = []"
| "apply_defaults (p # ps) b =
    (case map_of b (pa_name p) of
       Some v \<Rightarrow> (pa_name p, v) # apply_defaults ps b
     | None \<Rightarrow> (case default_of p of Some v \<Rightarrow> (pa_name p, v) # apply_defaults ps b
         | None \<Rightarrow> apply_defaults ps b))"

section \<open>The wrapper\<close>

type_synonym 'w func = "pyval list \<Rightarrow> kwargs \<Rightarrow> ('w world_scheme, exn, pyval) eff"

record 'w guarded =
  g_boundary :: "'w boundary"
  g_tool_name :: "string option"
  g_func_name :: string
  g_func :: "'w func"
  g_signature :: "param list"
  g_operation :: "string option"
  g_access_mode :: access_mode
  g_value_arg :: "string option"
  g_record_count_arg :: "string option"
  g_correlation_id_arg :: "string option"
  g_resource :: "string option"
  g_tool_version :: "string option"
  g_schema_hash :: "string option"
  g_manifest_hash :: "string option"
  g_sensitive_args :: "string set"
  g_log_arg_values :: bool

definition resolved_tool_name :: "'w guarded \<Rightarrow> string" where
  "resolved_tool_name g = (if truthy (g_tool_name g) then the (g_tool_name g) else g_func_name g)"

text \<open>Python truth of a value; objects of other classes count as true.\<close>

fun py_true :: "pyval \<Rightarrow> bool" where
  "py_true PNone = False"
| "py_true (PBool b) = b"
| "py_true (PInt n) = (n \<noteq> 0)"
| "py_true (PFloat x) = (x \<noteq> Fin 0)"
| "py_true (PDecimal d s) = (d \<noteq> DFin 0)"
| "py_true (PStr s) = (s \<noteq> [])"
| "py_true (PList xs) = (xs \<noteq> [])"
| "py_true (PTuple xs) = (xs \<noteq> [])"
| "py_true (PDict d) = (d \<noteq> [])"
| "py_true (PObj t s r) = True"

text \<open>\<open>call_kwargs.get(name) if name else None\<close>\<close>

definition arg_of :: "string option \<Rightarrow> kwargs \<Rightarrow> pyval" where
  "arg_of name call_kwargs = (if truthy name then
     (case map_of call_kwargs (the name) of None \<Rightarrow> PNone | Some v \<Rightarrow> v) else PNone)"

text \<open>
  Operation and correlation identifier are strings or \<open>None\<close> by their annotations. A call that
  passes another value for them is outside the model, and the model says so with an exception
  of its own.
\<close>

definition out_of_model :: exn where
  "out_of_model = Foreign (PyExc ''OutOfModel'' ''argument is not a string'') False"

definition string_arg :: "pyval \<Rightarrow> exn + string option" where
  "string_arg v = (case v of PNone \<Rightarrow> Inr None | PStr s \<Rightarrow> Inr (Some s) | _ \<Rightarrow> Inl out_of_model)"

text \<open>\<open>call_kwargs.get("operation") or operation\<close>\<close>

definition resolved_operation :: "'w guarded \<Rightarrow> kwargs \<Rightarrow> exn + string option" where
  "resolved_operation g call_kwargs =
    (let v = arg_of (Some ''operation'') call_kwargs
     in if py_true v then string_arg v else Inr (g_operation g))"

definition request_of :: "'w guarded \<Rightarrow> kwargs \<Rightarrow> exn + authorize_request" where
  "request_of g call_kwargs =
    (case (resolved_operation g call_kwargs, string_arg (arg_of (g_correlation_id_arg g) call_kwargs)) of
       (Inr opn, Inr corr) \<Rightarrow> Inr \<lparr>rq_tool_name = resolved_tool_name g, rq_operation = opn,
          rq_access_mode = g_access_mode g, rq_value = arg_of (g_value_arg g) call_kwargs,
          rq_record_count = arg_of (g_record_count_arg g) call_kwargs, rq_correlation_id = corr,
          rq_metadata = Some [(KStr ''args'', PDict (map (\<lambda>(n, s). (KStr n, PStr s))
            (redact_args (g_sensitive_args g) 200 (g_log_arg_values g) call_kwargs)))],
          rq_arguments = map (\<lambda>(n, v). (KStr n, v)) call_kwargs, rq_resource = g_resource g,
          rq_tool_version = g_tool_version g, rq_schema_hash = g_schema_hash g,
          rq_manifest_hash = g_manifest_hash g, rq_approval_id = None, rq_approval_state = None\<rparr>
     | (Inl e, _) \<Rightarrow> Inl e | (_, Inl e) \<Rightarrow> Inl e)"

text \<open>
  The guarded dispatch: run the function, then record in a \<open>finally\<close>, whose own exception
  replaces the outcome of the function.
\<close>

definition recorded_call ::
  "'w boundary \<Rightarrow> 'w func \<Rightarrow> authorization_context \<Rightarrow> string option \<Rightarrow> pyval list \<Rightarrow> kwargs \<Rightarrow>
   ('w world_scheme, exn, pyval) eff" where
  "recorded_call b func authorization correlation_id args kw =
    bindE time_time (\<lambda>started_at w.
      let (outcome, w1) = func args kw w;
          result = (case outcome of Inr v \<Rightarrow> v | Inl _ \<Rightarrow> PNone);
          error = (case outcome of Inl e \<Rightarrow> Some e | Inr _ \<Rightarrow> None)
      in bindE time_time (\<lambda>finished_at w2.
           case record_execution b (Some result) error started_at finished_at
                  correlation_id (authorization, w2) of
             (Inl e, (_, w3)) \<Rightarrow> (Inl e, w3)
           | (Inr _, (_, w3)) \<Rightarrow> (outcome, w3)) w1)"

definition dispatch_recorded ::
  "'w guarded \<Rightarrow> authorization_context \<Rightarrow> string option \<Rightarrow> pyval list \<Rightarrow> kwargs \<Rightarrow>
   ('w world_scheme, exn, pyval) eff" where
  "dispatch_recorded g = recorded_call (g_boundary g) (g_func g)"

definition wrapper :: "'w guarded \<Rightarrow> pyval list \<Rightarrow> kwargs \<Rightarrow> ('w world_scheme, exn, pyval) eff" where
  "wrapper g args kw =
    bindE (liftE (bind_partial (g_signature g) args kw)) (\<lambda>bound.
    bindE (liftE (request_of g (apply_defaults (g_signature g) bound))) (\<lambda>rq.
      if b_provider (g_boundary g) \<noteq> None then
        bindE (authorize_call (g_boundary g) rq) (\<lambda>authorization.
          dispatch_recorded g authorization (rq_correlation_id rq) args kw)
      else thenE (check (g_boundary g) (call_request.truncate rq)) (g_func g args kw)))"

section \<open>What the boundary sees\<close>

lemma apply_defaults_names: "fst ` set (apply_defaults ps b) \<subseteq> pa_name ` set ps"
  by (induction ps) (auto split: option.splits)

lemma arg_of_unknown: "n \<notin> pa_name ` set ps \<Longrightarrow> arg_of (Some n) (apply_defaults ps b) = PNone"
proof -
  assume "n \<notin> pa_name ` set ps"
  then have "n \<notin> fst ` set (apply_defaults ps b)" using apply_defaults_names by blast
  then have "map_of (apply_defaults ps b) n = None" by (simp add: map_of_eq_None_iff)
  then show ?thesis by (simp add: arg_of_def)
qed

lemma request_of_fields:
  assumes "request_of g ck = Inr rq"
  shows "rq_tool_name rq = resolved_tool_name g" "rq_value rq = arg_of (g_value_arg g) ck"
    "rq_record_count rq = arg_of (g_record_count_arg g) ck" "rq_access_mode rq = g_access_mode g"
  using assms by (auto simp: request_of_def split: sum.splits)

lemma apply_defaults_bound:
  "p \<in> set ps \<Longrightarrow> distinct (map pa_name ps) \<Longrightarrow> map_of b (pa_name p) = Some v \<Longrightarrow>
     map_of (apply_defaults ps b) (pa_name p) = Some v"
  by (induction ps) (auto split: option.splits)

text \<open>A parameter passed by keyword is bound to that argument.\<close>

lemma bind_positional_keyword:
  assumes "bind_positional ps as kw = Inr (b, rest)" and "p \<in> set ps" "distinct (map pa_name ps)"
    and "pa_name p \<in> fst ` set kw" "\<not> is_var p" "pa_kind p \<noteq> PosOnly"
  shows "p \<in> set rest \<and> pa_name p \<notin> fst ` set b"
  using assms
proof (induction ps as kw arbitrary: b rest rule: bind_positional.induct)
  case (3 q ps a as kw)
  show ?case
  proof (cases "pa_kind q = VarPos")
    case True
    then have "p \<in> set ps" using 3(3,6) by (auto simp: is_var_def)
    moreover from this have "pa_name p \<noteq> pa_name q" using 3(4) by (auto simp: image_iff)
    ultimately show ?thesis using True 3(2) by (auto split: if_splits)
  next
    case False
    then have q: "\<not> (pa_name q \<in> fst ` set kw \<and> pa_kind q \<noteq> PosOnly)" "pa_kind q \<notin> {VarKw, KwOnly}"
      using 3(2) by (auto split: if_splits)
    then have "p \<in> set ps" "p \<noteq> q" using 3(3-) by auto
    moreover from this have "pa_name p \<noteq> pa_name q" using 3(4) by (auto simp: image_iff)
    moreover obtain b' where "bind_positional ps as kw = Inr (b', rest)" "b = (pa_name q, a) # b'"
      using 3(2) False q by (auto split: sum.splits prod.splits if_splits)
    ultimately show ?thesis using 3(1)[OF _ _ _ _ \<open>p \<in> set ps\<close>] 3(4-) False q by auto
  qed
qed auto

lemma map_of_map_names:
  "n \<in> f ` set xs \<Longrightarrow> map_of (map (\<lambda>p. (f p, h (f p))) xs) n = Some (h n)"
  by (induction xs) auto

lemma keyword_argument_is_bound:
  assumes b: "bind_partial ps as kw = Inr bound" and p: "p \<in> set ps" "distinct (map pa_name ps)"
    and k: "map_of kw (pa_name p) = Some v" "\<not> is_var p" "pa_kind p \<noteq> PosOnly"
  shows "map_of (apply_defaults ps bound) (pa_name p) = Some v"
proof -
  have n: "pa_name p \<in> fst ` set kw" using k(1) by (metis domI dom_map_of_conv_image_fst)
  obtain b1 rest b2 where b1: "bind_positional ps as kw = Inr (b1, rest)"
    and b2: "bind_keywords rest kw = Inr b2" and bound: "bound = b1 @ b2"
    using b by (auto simp: bind_partial_def split: sum.splits prod.splits)
  have r: "p \<in> set rest" "pa_name p \<notin> fst ` set b1"
    using bind_positional_keyword[OF b1 p n k(2,3)] by auto
  let ?named = "filter (\<lambda>p. \<not> is_var p \<and> pa_name p \<in> fst ` set kw) rest"
  have "map_of (map (\<lambda>q. (pa_name q, the (map_of kw (pa_name q)))) ?named) (pa_name p) = Some v"
    using map_of_map_names[of "pa_name p" pa_name ?named "\<lambda>n. the (map_of kw n)"] r n k by auto
  then have "map_of b2 (pa_name p) = Some v"
    using b2 by (auto simp: bind_keywords_def Let_def map_add_Some_iff split: if_splits list.splits)
  then have "map_of bound (pa_name p) = Some v"
    using r(2) bound by (auto simp: map_add_Some_iff map_of_eq_None_iff)
  then show ?thesis by (rule apply_defaults_bound[OF p])
qed

section \<open>The dispatch\<close>

text \<open>The clock reading before the call of the function.\<close>

lemma dispatch_outcome:
  assumes "g_func g args kw (tick w) = (outcome, w1)"
  shows "dispatch_recorded g a corr args kw w =
    (case record_execution (g_boundary g)
        (Some (case outcome of Inr v \<Rightarrow> v | Inl _ \<Rightarrow> PNone)) (case outcome of Inl e \<Rightarrow> Some e | Inr _ \<Rightarrow> None)
        (now_of w) (now_of w1) corr (a, tick w1) of
       (Inl e, (_, w3)) \<Rightarrow> (Inl e, w3) | (Inr _, (_, w3)) \<Rightarrow> (outcome, w3))"
  using assms by (simp add: dispatch_recorded_def recorded_call_def bindE_def time_time_def tick_def now_of_def Let_def)

lemma build_execution_record_ok:
  assumes "case outcome of Inl e \<Rightarrow> True | Inr v \<Rightarrow> v = PNone \<or> (\<exists>t. canonicalize v = Inr t)"
  shows "\<exists>ex. build_execution_record d s f (Some (case outcome of Inr v \<Rightarrow> v | Inl _ \<Rightarrow> PNone))
     (case outcome of Inl e \<Rightarrow> Some e | Inr _ \<Rightarrow> None) = Inr ex"
proof (cases outcome)
  case (Inl e)
  then show ?thesis by (simp add: build_execution_record_def Let_def)
next
  case (Inr v)
  have "build_execution_record d s f (Some v) None \<noteq> Inl e" for e
    using assms Inr
    by (cases v) (auto simp: build_execution_record_def Let_def result_digest_def digest_of_def split: sum.splits)
  then show ?thesis using Inr by (cases "build_execution_record d s f (Some v) None") auto
qed

section \<open>A concrete guarded function\<close>

definition pay_signature :: "param list" where
  "pay_signature = [\<lparr>pa_name = ''account'', pa_kind = PosOrKw, pa_default = None\<rparr>,
     \<lparr>pa_name = ''amount'', pa_kind = PosOrKw, pa_default = Some (PInt 0)\<rparr>]"

definition pay_tool :: "unit boundary \<Rightarrow> param list \<Rightarrow> unit guarded" where
  "pay_tool b sig = \<lparr>g_boundary = b, g_tool_name = Some ''pay'', g_func_name = ''wire_transfer'',
     g_func = (\<lambda>args kw. returnE (PStr ''sent'')), g_signature = sig, g_operation = Some ''send'',
     g_access_mode = WRITE, g_value_arg = Some ''amount'', g_record_count_arg = None,
     g_correlation_id_arg = None, g_resource = None, g_tool_version = None, g_schema_hash = None,
     g_manifest_hash = None, g_sensitive_args = {}, g_log_arg_values = True\<rparr>"

definition pay_kwargs :: kwargs where
  "pay_kwargs = [(''account'', PStr ''a1''), (''amount'', PInt 120)]"

lemma pay_tool_fields [simp]:
  "g_boundary (pay_tool b sig) = b" "g_signature (pay_tool b sig) = sig"
  "g_value_arg (pay_tool b sig) = Some ''amount''"
  "g_func (pay_tool b sig) = (\<lambda>args kw. returnE (PStr ''sent''))"
  by (simp_all add: pay_tool_def)

lemma pay_bound: "bind_partial pay_signature [] pay_kwargs = Inr pay_kwargs"
  by (simp add: bind_partial_def bind_keywords_def pay_signature_def pay_kwargs_def is_var_def Let_def)

lemma pay_defaults: "apply_defaults pay_signature pay_kwargs = pay_kwargs"
  by (simp add: pay_signature_def pay_kwargs_def)

lemma pay_request:
  "\<exists>rq. request_of (pay_tool b pay_signature) pay_kwargs = Inr rq \<and>
     rq_tool_name rq = ''pay'' \<and> rq_operation rq = Some ''send'' \<and> rq_access_mode rq = WRITE \<and>
     rq_value rq = PInt 120 \<and> rq_record_count rq = PNone"
  by (simp add: request_of_def resolved_operation_def arg_of_def pay_kwargs_def string_arg_def
      pay_tool_def resolved_tool_name_def Let_def)

text \<open>A request of these fields with a value within the limits passes the sample boundary.\<close>

lemma sample_allows:
  assumes "rq_tool_name rq = ''pay''" "rq_operation rq = Some ''send''" "rq_access_mode rq = WRITE"
    "value_ok s payments (rq_value rq)" "rq_record_count rq = PNone"
  shows "fst (check (sample_boundary\<lparr>b_strict_limits := s\<rparr>) rq sample_world) = Inr ()"
proof -
  let ?b = "sample_boundary\<lparr>b_strict_limits := s\<rparr>"
  let ?c = "context_of ?b rq"
  have tame: "tame_boundary ?b" by (rule default_sinks_tame) simp
  have off: "\<not> kill_switch_engaged ?b sample_world"
    by (simp add: kill_switch_engaged_def sample_boundary_def sample_world_def py_lower_def py_strip_def)
  have ok: "static_ok ?b ?c payments sample_world"
    using assms off
    by (simp add: static_ok_def context_of_def within_validity_def environment_ok_def
      operation_allowed_iff records_ok_def)
  obtain w1 where "check_rate_limit ?b ?c (tick sample_world) = (Inr (), w1)"
    using assms(1) by (simp add: check_rate_limit_def check_global_rate_def check_tool_rate_def
        thenE_def bindE_def context_of_def check_and_record_def time_monotonic_def tick_def
        sample_world_def window_step_def)
  moreover have "check_policy_hooks ?b ?c v = (Inr (), v)" for v
    by (simp add: check_policy_hooks_def)
  moreover have "\<not> needs_approval ?b ?c payments"
    by (simp add: needs_approval_def)
  ultimately have "\<exists>w'. local_checks ?b ?c sample_world = (Inr (), w')"
    using ok unfolding local_checks_ok by blast
  then show ?thesis using check_outcome[OF tame] by fastforce
qed

lemma sample_allows_fields:
  assumes "rq_tool_name rq = ''pay''" "rq_operation rq = Some ''send''" "rq_access_mode rq = WRITE"
    "rq_value rq = PInt n" "rq_record_count rq = PNone" "1 \<le> n" "n \<le> 500"
  shows "fst (check sample_boundary rq sample_world) = Inr ()"
proof -
  have "fst (check (sample_boundary\<lparr>b_strict_limits := True\<rparr>) rq sample_world) = Inr ()"
    using as_finite_int[of n] assms
    by (intro sample_allows) (simp_all add: value_ok_def num_lt_def del: as_finite_number.simps)
  then show ?thesis by (simp add: sample_boundary_def)
qed

lemma pay_allowed:
  "\<exists>w'. wrapper (pay_tool sample_boundary pay_signature) [] pay_kwargs sample_world = (Inr (PStr ''sent''), w')"
proof -
  obtain rq where r: "request_of (pay_tool sample_boundary pay_signature) pay_kwargs = Inr rq"
    and f: "rq_tool_name rq = ''pay''" "rq_operation rq = Some ''send''" "rq_access_mode rq = WRITE"
      "rq_value rq = PInt 120" "rq_record_count rq = PNone"
    using pay_request by blast
  have "fst (check sample_boundary (call_request.truncate rq) sample_world) = Inr ()"
    using f by (intro sample_allows_fields[of _ 120]) (simp_all add: call_request.truncate_def)
  then obtain w1 where "check sample_boundary (call_request.truncate rq) sample_world = (Inr (), w1)"
    by (metis prod.collapse)
  then show ?thesis
    using r by (simp add: wrapper_def bindE_Inr pay_bound pay_defaults thenE_Inr)
qed

section \<open>Properties\<close>

text \<open>A denied call is not executed: when the arguments bind and \<open>check\<close> refuses the
  request made of them, the wrapper ends with that error in the state \<open>check\<close> left,
  whatever the wrapped function is and with or without a provider.\<close>

theorem denied_call_is_not_executed:
  assumes "bind_partial (g_signature g) args kw = Inr bound"
    and "request_of g (apply_defaults (g_signature g) bound) = Inr rq"
    and "check (g_boundary g) (call_request.truncate rq) w = (Inl e, w')"
  shows "wrapper g args kw w = (Inl e, w')"
  using assms by (simp add: wrapper_def bindE_def thenE_def authorize_call_def authorize_frozen_def)

theorem denied_call_is_not_executed_witness:
  "\<exists>e w'. wrapper (pay_tool (engage_kill_switch sample_boundary) pay_signature) [] pay_kwargs sample_world = (Inl e, w')"
proof -
  let ?g = "pay_tool (engage_kill_switch sample_boundary) pay_signature"
  obtain rq where r: "request_of ?g pay_kwargs = Inr rq" using pay_request by blast
  have t: "tame_boundary (engage_kill_switch sample_boundary)"
    using sample_tame by (simp add: tame_boundary_def engage_kill_switch_def)
  have "kill_switch_engaged (engage_kill_switch sample_boundary) sample_world"
    by (simp add: engage_kill_switch_def kill_switch_engaged_def)
  then obtain e w' where c: "check (g_boundary ?g) (call_request.truncate rq) sample_world = (Inl e, w')"
    using check_outcome[OF t] local_checks_kill_switch
    by (metis fst_conv pay_tool_fields(1) prod.collapse)
  have "wrapper ?g [] pay_kwargs sample_world = (Inl e, w')"
    by (rule denied_call_is_not_executed[OF _ _ c, of _ _ pay_kwargs]) (simp_all add: pay_bound pay_defaults r)
  then show ?thesis by blast
qed

text \<open>The wrapper returns only what the function returned, and only after the boundary let the
  request pass: a value returned by a guarded call is the value of the wrapped function on
  the same arguments, for a request made of the bound arguments that \<open>check\<close> allowed.\<close>

theorem guarded_result_is_the_functions:
  assumes "wrapper g args kw w = (Inr v, w')"
  shows "\<exists>bound rq v1 v2. bind_partial (g_signature g) args kw = Inr bound \<and>
    request_of g (apply_defaults (g_signature g) bound) = Inr rq \<and>
    fst (check (g_boundary g) (call_request.truncate rq) w) = Inr () \<and>
    g_func g args kw v1 = (Inr v, v2)"
proof -
  obtain bound rq where b: "bind_partial (g_signature g) args kw = Inr bound"
    and r: "request_of g (apply_defaults (g_signature g) bound) = Inr rq"
    using assms by (auto simp: wrapper_def bindE_Inr_iff)
  have "fst (check (g_boundary g) (call_request.truncate rq) w) = Inr () \<and>
      (\<exists>v1 v2. g_func g args kw v1 = (Inr v, v2))"
  proof (cases "b_provider (g_boundary g)")
    case None
    then show ?thesis using assms b r by (force simp: wrapper_def bindE_Inr thenE_Inr_iff)
  next
    case (Some p)
    then obtain a w1 where a: "authorize_call (g_boundary g) rq w = (Inr a, w1)"
      and d: "dispatch_recorded g a (rq_correlation_id rq) args kw w1 = (Inr v, w')"
      using assms b r by (auto simp: wrapper_def bindE_Inr bindE_Inr_iff)
    obtain outcome w2 where o: "g_func g args kw (tick w1) = (outcome, w2)" by fastforce
    have "outcome = Inr v"
      using d by (auto simp: dispatch_outcome[OF o] split: prod.splits sum.splits)
    moreover obtain w3 where "check (g_boundary g) (call_request.truncate rq) w = (Inr (), w3)"
      using a by (rule authorize_call_Inr)
    ultimately show ?thesis using o by auto
  qed
  then show ?thesis using b r by blast
qed

theorem guarded_result_is_the_functions_witness:
  "\<exists>w'. wrapper (pay_tool sample_boundary pay_signature) [] pay_kwargs sample_world = (Inr (PStr ''sent''), w') \<and>
     (\<exists>v1 v2. g_func (pay_tool sample_boundary pay_signature) [] pay_kwargs v1 = (Inr (PStr ''sent''), v2))"
proof -
  obtain w' where w: "wrapper (pay_tool sample_boundary pay_signature) [] pay_kwargs sample_world = (Inr (PStr ''sent''), w')"
    using pay_allowed by blast
  from guarded_result_is_the_functions[OF w] show ?thesis using w by blast
qed

text \<open>A recorded dispatch is transparent: with sinks and a provider whose failures are
  ordinary exceptions, an unused authorization and a result that is \<open>None\<close> or has a
  canonical form, the outcome of the function, value or exception, is the outcome of the
  dispatch.\<close>

theorem recorded_dispatch_is_transparent:
  assumes "tame_boundary (g_boundary g)" and "\<not> ac_consumed a"
    and "g_func g args kw (tick w) = (outcome, w1)"
    and "case outcome of Inl e \<Rightarrow> True | Inr v \<Rightarrow> v = PNone \<or> (\<exists>t. canonicalize v = Inr t)"
    and "\<And>p gr ex u e. b_provider (g_boundary g) = Some p \<Longrightarrow> fst (prov_record p gr ex u) = Inl e \<Longrightarrow> is_exception e"
  shows "fst (dispatch_recorded g a corr args kw w) = outcome"
proof -
  obtain ex where "build_execution_record (fc_call_digest (ac_frozen_call a)) (now_of w) (now_of w1)
      (Some (case outcome of Inr v \<Rightarrow> v | Inl _ \<Rightarrow> PNone)) (case outcome of Inl e \<Rightarrow> Some e | Inr _ \<Rightarrow> None) = Inr ex"
    using build_execution_record_ok[OF assms(4)] by blast
  then have "\<exists>receipt w'. record_execution (g_boundary g)
      (Some (case outcome of Inr v \<Rightarrow> v | Inl _ \<Rightarrow> PNone)) (case outcome of Inl e \<Rightarrow> Some e | Inr _ \<Rightarrow> None)
      (now_of w) (now_of w1) corr (a, tick w1) = (Inr receipt, (mark_consumed a, w'))"
    by (rule record_execution_returns[OF assms(1,2)]) (rule assms(5))
  then show ?thesis by (auto simp: dispatch_outcome[OF assms(3)])
qed

theorem recorded_dispatch_is_transparent_witness:
  "fst (dispatch_recorded (pay_tool (provided_boundary ENFORCE True) pay_signature)
     (sample_authorization (Some sample_grant)) None [] pay_kwargs sample_world) = Inr (PStr ''sent'')"
proof -
  have f: "g_func (pay_tool (provided_boundary ENFORCE True) pay_signature) [] pay_kwargs (tick sample_world)
      = (Inr (PStr ''sent''), tick sample_world)" by simp
  show ?thesis
    by (rule recorded_dispatch_is_transparent[OF _ _ f])
      (auto simp: provided_tame sample_authorization_def canonicalize_def sample_provider_def)
qed

text \<open>The value limit sees what the caller passed: an argument passed by keyword for the
  parameter named by \<open>value_arg\<close> is the value of the request, whatever defaults and
  positional arguments there are.\<close>

theorem value_argument_reaches_the_boundary:
  assumes "bind_partial (g_signature g) args kw = Inr bound"
    and "request_of g (apply_defaults (g_signature g) bound) = Inr rq"
    and "p \<in> set (g_signature g)" "distinct (map pa_name (g_signature g))"
    and "\<not> is_var p" "pa_kind p \<noteq> PosOnly"
    and "g_value_arg g = Some (pa_name p)" "pa_name p \<noteq> []" "map_of kw (pa_name p) = Some v"
  shows "rq_value rq = v"
  using keyword_argument_is_bound[OF assms(1,3,4,9,5,6)] request_of_fields(2)[OF assms(2)] assms(7,8)
  by (simp add: arg_of_def)

theorem value_argument_reaches_the_boundary_witness:
  "\<exists>rq. request_of (pay_tool sample_boundary pay_signature) pay_kwargs = Inr rq \<and> rq_value rq = PInt 120"
proof -
  obtain rq where r: "request_of (pay_tool sample_boundary pay_signature) pay_kwargs = Inr rq"
    using pay_request by blast
  have "rq_value rq = PInt 120"
    by (rule value_argument_reaches_the_boundary[of "pay_tool sample_boundary pay_signature" "[]"
          pay_kwargs pay_kwargs rq "\<lparr>pa_name = ''amount'', pa_kind = PosOrKw, pa_default = Some (PInt 0)\<rparr>"])
      (simp_all add: pay_bound pay_defaults r is_var_def, simp_all add: pay_signature_def pay_kwargs_def)
  then show ?thesis using r by blast
qed

text \<open>An argument that only a \<open>**kwargs\<close> parameter takes is invisible to the limits: when
  no parameter of the function carries the name in \<open>value_arg\<close>, the request of every call
  has no value, so a boundary that is not strict lets every amount pass its maximum.\<close>

theorem kwargs_escape_the_value_limit:
  assumes "request_of g (apply_defaults (g_signature g) bound) = Inr rq"
    and "g_value_arg g = Some n" "n \<notin> pa_name ` set (g_signature g)"
  shows "rq_value rq = PNone \<and> value_ok False p (rq_value rq)"
  using arg_of_unknown[OF assms(3)] request_of_fields(2)[OF assms(1)] assms(2)
  by (simp add: value_ok_def)

theorem kwargs_escape_the_value_limit_witness:
  "\<exists>rq. request_of (pay_tool sample_boundary [\<lparr>pa_name = ''kwargs'', pa_kind = VarKw, pa_default = None\<rparr>])
     [(''kwargs'', kw_dict [(''amount'', PInt 1000000)])] = Inr rq \<and> rq_value rq = PNone"
proof -
  let ?sig = "[\<lparr>pa_name = ''kwargs'', pa_kind = VarKw, pa_default = None\<rparr>]"
  let ?bound = "[(''kwargs'', kw_dict [(''amount'', PInt 1000000)])]"
  have "bind_partial ?sig [] [(''amount'', PInt 1000000)] = Inr ?bound"
    by (simp add: bind_partial_def bind_keywords_def is_var_def Let_def)
  have d: "apply_defaults ?sig ?bound = ?bound" by simp
  obtain rq where r: "request_of (pay_tool sample_boundary ?sig) ?bound = Inr rq"
    by (simp add: request_of_def resolved_operation_def arg_of_def string_arg_def pay_tool_def Let_def)
  have "rq_value rq = PNone \<and> value_ok False payments (rq_value rq)"
    by (rule kwargs_escape_the_value_limit[of "pay_tool sample_boundary ?sig" ?bound _ "''amount''"])
      (simp_all add: d r)
  then show ?thesis using r by blast
qed

end
