(* ===== verification/Boundary_Rate.thy ===== *)
theory Boundary_Rate
  imports Boundary_Decision "HOL-Library.Sublist"
begin

text \<open>
  The hourly limits over sequences of calls: a boundary with the in-memory limiter of
  \<open>_rate_limiter.py\<close> simulates the sliding window of its deque, so the bound of the
  \<open>sliding_window\<close> interface holds for the calls that \<open>check\<close> lets pass.
\<close>

section \<open>The checks around the limiter\<close>

text \<open>A chain of computations that leave the state alone until one refuses.\<close>

lemma thenE_in:
  assumes "snd (m w) = w" and "w \<in> S" and "fst (m w) = Inr () \<Longrightarrow> snd (k w) \<in> S"
  shows "snd (thenE m k w) \<in> S"
  using assms by (cases "m w"; cases "fst (m w)") (auto simp: thenE_def bindE_def)

lemma static_checks_keep:
  "snd (check_kill_switch b ctx w) = w" "snd (check_quarantine b ctx w) = w"
  "snd (check_environment b ctx w) = w" "snd (check_global_blocked_operations b ctx w) = w"
  "snd (check_tool_permission b ctx w) = w" "snd (check_operation ctx p w) = w"
  "snd (check_access_mode ctx p w) = w" "snd (check_value_limit b ctx p w) = w"
  "snd (check_record_limit b ctx p w) = w"
  by (rule keepsD[where g = "\<lambda>x. x", OF keeps_static(1)] keepsD[where g = "\<lambda>x. x", OF keeps_static(2)]
      keepsD[where g = "\<lambda>x. x", OF keeps_static(3)] keepsD[where g = "\<lambda>x. x", OF keeps_static(4)]
      keepsD[where g = "\<lambda>x. x", OF keeps_static(5)] keepsD[where g = "\<lambda>x. x", OF keeps_static(6)]
      keepsD[where g = "\<lambda>x. x", OF keeps_static(7)] keepsD[where g = "\<lambda>x. x", OF keeps_limits(1)]
      keepsD[where g = "\<lambda>x. x", OF keeps_limits(2)])+

lemma fst_Inr_iff: "fst x = Inr u \<longleftrightarrow> (\<exists>w. x = (Inr u, w))"
  by (cases x) simp

lemma permission_checks_refused:
  assumes "\<not> (operation_allowed p (ctx_operation ctx) \<and> ctx_access_mode ctx \<le> tp_access_mode p \<and>
     value_ok (b_strict_limits b) p (ctx_value ctx) \<and> records_ok (b_strict_limits b) p (ctx_record_count ctx))"
  shows "snd (permission_checks b ctx p w) \<in> {w}"
proof -
  have "operation_allowed p (ctx_operation ctx)" if "fst (check_operation ctx p w) = Inr ()"
    using that by (simp add: fst_Inr_iff check_ok)
  moreover have "ctx_access_mode ctx \<le> tp_access_mode p" if "fst (check_access_mode ctx p w) = Inr ()"
    using that by (simp add: fst_Inr_iff check_ok)
  moreover have "value_ok (b_strict_limits b) p (ctx_value ctx)" if "fst (check_value_limit b ctx p w) = Inr ()"
    using that by (simp add: fst_Inr_iff check_ok)
  moreover have "records_ok (b_strict_limits b) p (ctx_record_count ctx)"
    if "fst (check_record_limit b ctx p w) = Inr ()"
    using that by (simp add: fst_Inr_iff check_ok)
  ultimately show ?thesis
    unfolding permission_checks_def using assms
    by (intro thenE_in static_checks_keep) auto
qed

text \<open>A call that breaks a static rule is refused before limiter and hooks are asked.\<close>

lemma local_checks_refused:
  assumes "\<nexists>p. static_ok b ctx p w"
  shows "snd (local_checks b ctx w) \<in> {w, tick w} \<and> fst (local_checks b ctx w) \<noteq> Inr ()"
proof
  have bk: "\<not> kill_switch_engaged b w" if "fst (check_kill_switch b ctx w) = Inr ()"
    using that by (simp add: fst_Inr_iff check_ok)
  have bq: "b_autonomy b \<noteq> QUARANTINED" if "fst (check_quarantine b ctx w) = Inr ()"
    using that by (simp add: fst_Inr_iff check_ok)
  have be: "environment_ok b" if "fst (check_environment b ctx (tick w)) = Inr ()"
    using that by (simp add: fst_Inr_iff check_ok)
  have bo: "\<forall>x. ctx_operation ctx = Some x \<longrightarrow> x \<notin> b_blocked_operations b"
    if "fst (check_global_blocked_operations b ctx (tick w)) = Inr ()"
    using that by (simp add: fst_Inr_iff check_ok)
  have v: "(check_validity_window b ctx w = (Inr (), tick w) \<and> within_validity b (now_of w)) \<or>
      (\<exists>e. check_validity_window b ctx w = (Inl e, tick w))"
    by (auto simp: check_validity_window_def bindE_def thenE_def time_time_def within_validity_def
        now_of_def tick_def)
  have p: "snd (bindE (check_tool_permission b ctx) (permission_checks b ctx) (tick w)) \<in> {w, tick w}"
    if "\<not> kill_switch_engaged b w" "b_autonomy b \<noteq> QUARANTINED" "within_validity b (now_of w)"
      "environment_ok b" "\<forall>x. ctx_operation ctx = Some x \<longrightarrow> x \<notin> b_blocked_operations b"
  proof (cases "b_permissions b (ctx_tool_name ctx)")
    case None
    then show ?thesis by (simp add: check_tool_permission_def bindE_def)
  next
    case (Some p)
    then have "\<not> static_ok b ctx p w" using assms by blast
    then have "snd (permission_checks b ctx p (tick w)) \<in> {tick w}"
      using that Some by (intro permission_checks_refused) (auto simp: static_ok_def)
    then show ?thesis using Some by (simp add: check_tool_permission_def bindE_def)
  qed
  have e: "snd (thenE (check_environment b ctx) (thenE (check_global_blocked_operations b ctx)
      (bindE (check_tool_permission b ctx) (permission_checks b ctx))) (tick w)) \<in> {w, tick w}"
    if "\<not> kill_switch_engaged b w" "b_autonomy b \<noteq> QUARANTINED" "within_validity b (now_of w)"
    using that be bo p by (intro thenE_in static_checks_keep) auto
  have w: "snd (thenE (check_validity_window b ctx) (thenE (check_environment b ctx)
      (thenE (check_global_blocked_operations b ctx)
      (bindE (check_tool_permission b ctx) (permission_checks b ctx)))) w) \<in> {w, tick w}"
    if "\<not> kill_switch_engaged b w" "b_autonomy b \<noteq> QUARANTINED"
    using v e[OF that] by (auto simp: thenE_Inr thenE_Inl)
  then show "snd (local_checks b ctx w) \<in> {w, tick w}"
    unfolding local_checks_def
    by (intro thenE_in[OF static_checks_keep(1)] thenE_in[OF static_checks_keep(2)] w bk bq) auto
  show "fst (local_checks b ctx w) \<noteq> Inr ()"
  proof
    assume "fst (local_checks b ctx w) = Inr ()"
    then obtain w' where "local_checks b ctx w = (Inr (), w')" by (metis prod.collapse)
    then show False using assms by (auto simp: local_checks_ok)
  qed
qed

lemma local_checks_static:
  assumes "static_ok b ctx p w"
  shows "local_checks b ctx w = thenE (check_rate_limit b ctx)
    (thenE (check_policy_hooks b ctx) (check_requires_approval b ctx p)) (tick w)"
proof -
  have "check_kill_switch b ctx w = (Inr (), w)" "check_quarantine b ctx w = (Inr (), w)"
    "check_validity_window b ctx w = (Inr (), tick w)" "check_environment b ctx (tick w) = (Inr (), tick w)"
    "check_global_blocked_operations b ctx (tick w) = (Inr (), tick w)"
    "check_tool_permission b ctx (tick w) = (Inr p, tick w)"
    "check_operation ctx p (tick w) = (Inr (), tick w)" "check_access_mode ctx p (tick w) = (Inr (), tick w)"
    "check_value_limit b ctx p (tick w) = (Inr (), tick w)"
    "check_record_limit b ctx p (tick w) = (Inr (), tick w)"
    using assms by (auto simp: static_ok_def check_ok)
  then show ?thesis
    by (simp add: local_checks_def permission_checks_def thenE_Inr bindE_Inr)
qed

section \<open>The deque of a key\<close>

definition deque_of :: "nat \<Rightarrow> string \<Rightarrow> 'w world_scheme \<Rightarrow> rat list" where
  "deque_of self key w = (case limiters w self key of None \<Rightarrow> [] | Some c \<Rightarrow> c)"

text \<open>What the limiter reads and writes of the world.\<close>

definition clockwork :: "'w world_scheme \<Rightarrow> (nat \<Rightarrow> string \<rightharpoonup> rat list) \<times> (nat \<Rightarrow> rat) \<times> nat" where
  "clockwork w = (limiters w, mono w, mono_ix w)"

lemma clockwork_updates [simp]:
  "clockwork (w\<lparr>wall_ix := i\<rparr>) = clockwork w" "clockwork (w\<lparr>uuid_ix := i\<rparr>) = clockwork w"
  "clockwork (tick w) = clockwork w"
  by (simp_all add: clockwork_def tick_def)

lemma clockwork_eqD:
  assumes "clockwork w' = clockwork w"
  shows "deque_of self key w' = deque_of self key w" "mono w' = mono w" "mono_ix w' = mono_ix w"
  using assms by (simp_all add: clockwork_def deque_of_def)

lemma check_and_record_effect:
  assumes "check_and_record self key m (Fin W) w = (r, w')"
  shows "r = Inr (fst (window_step (Fin W) (mono w (mono_ix w)) m (deque_of self key w)))"
    "deque_of self key w' = snd (window_step (Fin W) (mono w (mono_ix w)) m (deque_of self key w))"
    "k \<noteq> key \<Longrightarrow> deque_of self k w' = deque_of self k w"
    "mono w' = mono w" "mono_ix w' = Suc (mono_ix w)"
  using assms
  by (auto simp: check_and_record_def bindE_def time_monotonic_def deque_of_def Let_def
      split: prod.splits)

text \<open>Hooks and sinks of a boundary that leave the limiter and its clock alone.\<close>

definition leaves_clockwork :: "'w boundary \<Rightarrow> bool" where
  "leaves_clockwork b \<longleftrightarrow> (\<forall>s \<in> set (b_audit b). \<forall>ev. keeps clockwork (s ev)) \<and>
     (\<forall>h \<in> set (b_policy_hooks b). \<forall>ctx. keeps clockwork (snd h ctx))"

lemma check_returns_local:
  assumes "fst (check b rq w) = Inr ()"
  shows "fst (local_checks b (context_of b rq) w) = Inr ()"
proof -
  obtain r w1 where l: "local_checks b (context_of b rq) w = (r, w1)" by fastforce
  show ?thesis
    using assms by (auto simp: check_shape[OF l] l bindE_def split: option.splits prod.splits sum.splits)
qed

text \<open>
  A call is refused before the limiter, or asks it; apart from the limiter it moves the state as
  hooks and sinks do, and as clock and identifier readings do.
\<close>

definition around_limiter :: "('w world_scheme \<Rightarrow> 'w world_scheme \<Rightarrow> bool) \<Rightarrow> 'w boundary \<Rightarrow> bool" where
  "around_limiter R b \<longleftrightarrow> reflp R \<and> transp R \<and>
     (\<forall>w. R w (w\<lparr>wall_ix := Suc (wall_ix w)\<rparr>)) \<and> (\<forall>w. R w (w\<lparr>uuid_ix := Suc (uuid_ix w)\<rparr>)) \<and>
     (\<forall>s \<in> set (b_audit b). \<forall>ev. moves R (s ev)) \<and> (\<forall>h \<in> set (b_policy_hooks b). \<forall>ctx. moves R (snd h ctx))"

lemma check_moves_on:
  assumes "around_limiter R b"
  shows "R (snd (local_checks b (context_of b rq) w)) (snd (check b rq w))"
proof -
  obtain r w1 where l: "local_checks b (context_of b rq) w = (r, w1)" by fastforce
  have "moves R (emit_all (b_audit b) ev)" for ev
    using assms by (intro moves_emit_all) (auto simp: around_limiter_def)
  then have "moves R (bindE (audit_check b rq d msg reason) (\<lambda>_. liftE r))"
    for d msg reason and r :: "exn + unit"
    unfolding audit_check_def audit_record_def Let_def using assms
    by (intro moves_bindE moves_thenE)
      (auto simp: around_limiter_def moves_def uuid4_def time_time_def reflp_def)
  from movesD[OF this] show ?thesis
    using assms by (auto simp: check_shape[OF l] l around_limiter_def reflp_def split: option.splits)
qed

lemma check_at_limiter:
  assumes "around_limiter R b"
  obtains (refused) "fst (check b rq w) \<noteq> Inr ()" "R w (snd (check b rq w))"
  | (asked) r w1 where "check_rate_limit b (context_of b rq) (tick w) = (r, w1)"
      "R w1 (snd (check b rq w))" "fst (check b rq w) = Inr () \<Longrightarrow> r = Inr ()"
proof (cases "\<exists>p. static_ok b (context_of b rq) p w")
  case False
  have "R w w" "R w (tick w)" using assms by (auto simp: around_limiter_def reflp_def tick_def)
  moreover have "snd (local_checks b (context_of b rq) w) \<in> {w, tick w}"
    using local_checks_refused[OF False] by blast
  ultimately have "R w (snd (local_checks b (context_of b rq) w))" by auto
  then have "R w (snd (check b rq w))"
    using check_moves_on[OF assms] assms unfolding around_limiter_def by (meson transpD)
  moreover have "fst (check b rq w) \<noteq> Inr ()"
    using local_checks_refused[OF False] check_returns_local by blast
  ultimately show ?thesis by (rule refused[rotated])
next
  case True
  then obtain p where p: "static_ok b (context_of b rq) p w" by blast
  obtain r w1 where r: "check_rate_limit b (context_of b rq) (tick w) = (r, w1)" by fastforce
  have "moves R (check_policy_hooks b (context_of b rq))"
    unfolding check_policy_hooks_def using assms by (intro moves_run_hooks) (auto simp: around_limiter_def)
  moreover have "moves R (check_requires_approval b (context_of b rq) p)"
    using assms by (auto simp: around_limiter_def reflp_def moves_def check_requires_approval_def)
  ultimately have k: "moves R (thenE (check_policy_hooks b (context_of b rq))
      (check_requires_approval b (context_of b rq) p))"
    using assms by (intro moves_thenE) (auto simp: around_limiter_def)
  have "R w1 w1" using assms by (auto simp: around_limiter_def reflp_def)
  then have "R w1 (snd (local_checks b (context_of b rq) w))"
    using r movesD[OF k, of w1] by (cases r) (simp_all add: local_checks_static[OF p] thenE_Inr thenE_Inl)
  then have "R w1 (snd (check b rq w))"
    using check_moves_on[OF assms] assms unfolding around_limiter_def by (meson transpD)
  moreover have "r = Inr ()" if "fst (check b rq w) = Inr ()"
    using check_returns_local[OF that] r
    by (cases r) (simp_all add: local_checks_static[OF p] thenE_Inl)
  ultimately show ?thesis using asked[OF r] by blast
qed

text \<open>For the in-memory limiter: hooks and sinks leave its state alone.\<close>

lemma clockwork_around: "leaves_clockwork b \<Longrightarrow> around_limiter (\<lambda>w w'. clockwork w' = clockwork w) b"
  by (simp add: around_limiter_def leaves_clockwork_def reflp_keeps transp_keeps keeps_moves)

section \<open>Simulation\<close>

text \<open>
  The calls of a sequence that \<open>check\<close> lets pass, with a time for each: for the agent's limit
  the reading its limiter takes first, for a tool's limit the last one.
\<close>

fun allowed_at ::
  "('w world_scheme \<Rightarrow> 'w world_scheme \<Rightarrow> rat) \<Rightarrow> 'w boundary \<Rightarrow> call_request list \<Rightarrow>
   'w world_scheme \<Rightarrow> (string \<times> rat) list" where
  "allowed_at time b [] w = []"
| "allowed_at time b (rq # rqs) w = (case check b rq w of
     (Inr _, w') \<Rightarrow> (rq_tool_name rq, time w w') # allowed_at time b rqs w'
   | (Inl _, w') \<Rightarrow> allowed_at time b rqs w')"

definition first_reading :: "'w world_scheme \<Rightarrow> 'w world_scheme \<Rightarrow> rat" where
  "first_reading w w' = mono w (mono_ix w)"

definition last_reading :: "'w world_scheme \<Rightarrow> 'w world_scheme \<Rightarrow> rat" where
  "last_reading w w' = mono w (mono_ix w' - 1)"

lemma timely_weaken: "t \<le> t' \<Longrightarrow> timely t' rs \<Longrightarrow> timely t rs"
  by (cases rs) auto

text \<open>
  The same for any sequence of moves of the world: a call with the tool it is for, or a move that
  is no call.
\<close>

type_synonym 'w move = "string option \<times> ('w world_scheme, exn, unit) eff"

fun passed_at :: "('w world_scheme \<Rightarrow> 'w world_scheme \<Rightarrow> rat) \<Rightarrow> 'w move list \<Rightarrow> 'w world_scheme \<Rightarrow> (string \<times> rat) list" where
  "passed_at time [] w = []"
| "passed_at time ((tool, f) # fs) w = (case f w of (r, w') \<Rightarrow>
     (case (tool, r) of (Some x, Inr _) \<Rightarrow> [(x, time w w')] | _ \<Rightarrow> []) @ passed_at time fs w')"

lemma allowed_at_passed:
  "allowed_at time b rqs w = passed_at time (map (\<lambda>rq. (Some (rq_tool_name rq), check b rq)) rqs) w"
  by (induction rqs arbitrary: w) (auto split: prod.splits sum.splits)

definition hit :: "(string \<Rightarrow> bool) \<Rightarrow> string option \<Rightarrow> exn + unit \<Rightarrow> bool" where
  "hit sel tool r \<longleftrightarrow> (\<exists>x. tool = Some x \<and> sel x) \<and> r = Inr ()"

text \<open>One move as one request to the deque of a key, or none.\<close>

definition window_move ::
  "nat \<Rightarrow> string \<Rightarrow> int \<Rightarrow> (string \<Rightarrow> bool) \<Rightarrow> ('w world_scheme \<Rightarrow> 'w world_scheme \<Rightarrow> rat) \<Rightarrow>
   'w move \<Rightarrow> 'w world_scheme \<Rightarrow> bool" where
  "window_move self key m sel time mv w \<longleftrightarrow> (let (r, w') = snd mv w in
     mono w' = mono w \<and> mono_ix w \<le> mono_ix w' \<and>
     (deque_of self key w' = deque_of self key w \<and> \<not> hit sel (fst mv) r \<or>
      (\<exists>i \<ge> mono_ix w. i < mono_ix w' \<and>
         (let (ok, c) = window_step (Fin 3600) (mono w i) m (deque_of self key w)
          in deque_of self key w' = c \<and> (hit sel (fst mv) r \<longrightarrow> ok \<and> time w w' = mono w i)))))"

definition window_call ::
  "nat \<Rightarrow> string \<Rightarrow> int \<Rightarrow> (string \<Rightarrow> bool) \<Rightarrow> ('w world_scheme \<Rightarrow> 'w world_scheme \<Rightarrow> rat) \<Rightarrow>
   'w boundary \<Rightarrow> call_request \<Rightarrow> 'w world_scheme \<Rightarrow> bool" where
  "window_call self key m sel time b rq w \<longleftrightarrow> window_move self key m sel time (Some (rq_tool_name rq), check b rq) w"

lemma window_simulation:
  assumes "\<And>mv v. mv \<in> set mvs \<Longrightarrow> window_move self key m sel time mv v" and "mono_clock (mono w)"
  shows "\<exists>reqs. timely (mono w (mono_ix w)) reqs \<and> (\<forall>r \<in> set reqs. snd r = m) \<and>
    subseq (map snd (filter (sel \<circ> fst) (passed_at time mvs w)))
      (admitted (window_step (Fin 3600)) reqs (deque_of self key w))"
  using assms
proof (induction mvs arbitrary: w)
  case Nil
  then show ?case by (intro exI[of _ "[]"]) simp
next
  case (Cons mv mvs)
  obtain tool f where mv: "mv = (tool, f)" by fastforce
  obtain r w' where c: "f w = (r, w')" by fastforce
  have w: "mono w' = mono w" "mono_ix w \<le> mono_ix w'"
    using Cons.prems(1)[of mv w] c mv by (auto simp: window_move_def)
  obtain reqs where reqs: "timely (mono w (mono_ix w')) reqs" "\<forall>r \<in> set reqs. snd r = m"
    "subseq (map snd (filter (sel \<circ> fst) (passed_at time mvs w')))
      (admitted (window_step (Fin 3600)) reqs (deque_of self key w'))"
  proof -
    have "mono_clock (mono w')" using Cons.prems(2) w(1) by simp
    moreover have "window_move self key m sel time mv' v" if "mv' \<in> set mvs" for mv' v
      using Cons.prems(1) that by simp
    ultimately show thesis using Cons.IH[of w'] that unfolding w(1) by blast
  qed
  have mono: "mono w i \<le> mono w j" if "i \<le> j" for i j
    using Cons.prems(2) that by (simp add: mono_clock_def)
  have dbl: "is_double (mono w i)" for i using Cons.prems(2) by (simp add: mono_clock_def)
  have passed: "map snd (filter (sel \<circ> fst) (passed_at time (mv # mvs) w)) =
      (if hit sel tool r then [time w w'] else []) @ map snd (filter (sel \<circ> fst) (passed_at time mvs w'))"
    by (cases tool; cases r) (auto simp: mv c hit_def)
  consider (skip) "deque_of self key w' = deque_of self key w" "\<not> hit sel tool r"
    | (ask) i ok d where "mono_ix w \<le> i" "i < mono_ix w'"
      "window_step (Fin 3600) (mono w i) m (deque_of self key w) = (ok, d)" "deque_of self key w' = d"
      "hit sel tool r \<longrightarrow> ok \<and> time w w' = mono w i"
    using Cons.prems(1)[of mv w] c unfolding window_move_def Let_def mv
    by (simp add: case_prod_beta) (metis prod.collapse)
  then show ?case
  proof cases
    case skip
    have "timely (mono w (mono_ix w)) reqs" using timely_weaken[OF mono[OF w(2)] reqs(1)] .
    then show ?thesis
      using reqs(2,3) skip unfolding passed by (intro exI[of _ reqs]) simp
  next
    case ask
    have t: "timely (mono w (mono_ix w)) ((mono w i, m) # reqs)"
      using mono[OF ask(1)] dbl timely_weaken[OF mono reqs(1)] ask(2) by simp
    have "subseq (map snd (filter (sel \<circ> fst) (passed_at time (mv # mvs) w)))
      (admitted (window_step (Fin 3600)) ((mono w i, m) # reqs) (deque_of self key w))"
      using reqs(3) ask(3,4,5) unfolding passed by (auto simp: list_emb_Cons)
    moreover have "\<forall>r \<in> set ((mono w i, m) # reqs). snd r = m" using reqs(2) by simp
    ultimately show ?thesis using t by blast
  qed
qed

text \<open>The bound of the window interface, through the simulation.\<close>

lemma moves_limit:
  assumes "\<And>mv v. mv \<in> set mvs \<Longrightarrow> window_move self key m sel time mv v"
    and "mono_clock (mono w)" and "deque_of self key w = []" and "0 \<le> m"
  shows "int (length (filter (\<lambda>(tool, x). sel tool \<and> t \<le> x \<and> x \<le> t + 3600) (passed_at time mvs w))) \<le> m"
proof -
  let ?P = "\<lambda>x. t \<le> x \<and> x \<le> t + 3600"
  obtain reqs where reqs: "timely (mono w (mono_ix w)) reqs" "\<forall>r \<in> set reqs. snd r = m"
    "subseq (map snd (filter (sel \<circ> fst) (passed_at time mvs w)))
      (admitted (window_step (Fin 3600)) reqs [])"
    using window_simulation[OF assms(1,2)] assms(3) by metis
  have "filter (\<lambda>(tool, x). sel tool \<and> ?P x) xs = filter (?P \<circ> snd) (filter (sel \<circ> fst) xs)" for xs
    by (induction xs) auto
  then have "length (filter (\<lambda>(tool, x). sel tool \<and> ?P x) (passed_at time mvs w))
      = length (filter ?P (map snd (filter (sel \<circ> fst) (passed_at time mvs w))))"
    by (simp add: filter_map)
  also have "\<dots> \<le> length (filter ?P (admitted (window_step (Fin 3600)) reqs []))"
    using reqs(3) by (intro list_emb_length[OF subseq_filter])
  finally have "length (filter (\<lambda>(tool, x). sel tool \<and> ?P x) (passed_at time mvs w))
      \<le> length (filter ?P (admitted (window_step (Fin 3600)) reqs []))" .
  moreover have "int (length (filter ?P (admitted (window_step (Fin 3600)) reqs []))) \<le> m"
    by (rule deque.window_bound[OF _ _ reqs(1,2) assms(4)]) (auto simp: deque_wf_def deque_recent_def)
  ultimately show ?thesis by linarith
qed

lemma window_limit:
  assumes "\<And>rq w. rq \<in> set rqs \<Longrightarrow> window_call self key m sel time b rq w"
    and "mono_clock (mono w)" and "deque_of self key w = []" and "0 \<le> m"
  shows "int (length (filter (\<lambda>(tool, x). sel tool \<and> t \<le> x \<and> x \<le> t + 3600) (allowed_at time b rqs w))) \<le> m"
  unfolding allowed_at_passed
  by (rule moves_limit[OF _ assms(2-4)]) (use assms(1) in \<open>auto simp: window_call_def\<close>)

section \<open>Both limits are window calls\<close>

lemma key_eq_iff [simp]:
  "tool_key agent t = tool_key agent t' \<longleftrightarrow> t = t'"
  "tool_key agent t = global_key agent \<longleftrightarrow> t = ''__global__''"
  "global_key agent = tool_key agent t \<longleftrightarrow> t = ''__global__''"
  by (auto simp: tool_key_def global_key_def)

lemma clockwork_tick [simp]:
  "deque_of self key (tick w) = deque_of self key w" "mono (tick w) = mono w" "mono_ix (tick w) = mono_ix w"
  by (simp_all add: tick_def deque_of_def)

text \<open>One limit asked, as a step of the world.\<close>

lemma check_global_rate_effect:
  assumes "b_rate_limiter b = check_and_record self" and "check_global_rate b ctx w = (r, w')"
  shows "case b_max_actions_per_hour b of None \<Rightarrow> r = Inr () \<and> w' = w
    | Some m \<Rightarrow> (r = Inr () \<longleftrightarrow> fst (window_step (Fin 3600) (mono w (mono_ix w)) m
          (deque_of self (global_key (b_agent_name b)) w))) \<and>
        deque_of self (global_key (b_agent_name b)) w' = snd (window_step (Fin 3600) (mono w (mono_ix w)) m
          (deque_of self (global_key (b_agent_name b)) w)) \<and>
        (\<forall>k. k \<noteq> global_key (b_agent_name b) \<longrightarrow> deque_of self k w' = deque_of self k w) \<and>
        mono w' = mono w \<and> mono_ix w' = Suc (mono_ix w)"
proof (cases "b_max_actions_per_hour b")
  case None
  then show ?thesis using assms(2) by (simp add: check_global_rate_def)
next
  case (Some m)
  obtain r1 w1 where c: "check_and_record self (global_key (b_agent_name b)) m (Fin 3600) w = (r1, w1)"
    by fastforce
  note e = check_and_record_effect[OF c]
  show ?thesis
    using assms c e Some
    by (auto simp: check_global_rate_def bindE_def split: if_splits)
qed

lemma check_tool_rate_effect:
  assumes "b_rate_limiter b = check_and_record self" and "check_tool_rate b ctx w = (r, w')"
  shows "case Option.bind (b_permissions b (ctx_tool_name ctx)) tp_max_calls_per_hour of
      None \<Rightarrow> r = Inr () \<and> w' = w
    | Some m \<Rightarrow> (let key = tool_key (b_agent_name b) (ctx_tool_name ctx) in
        (r = Inr () \<longleftrightarrow> fst (window_step (Fin 3600) (mono w (mono_ix w)) m (deque_of self key w))) \<and>
        deque_of self key w' = snd (window_step (Fin 3600) (mono w (mono_ix w)) m (deque_of self key w)) \<and>
        (\<forall>k. k \<noteq> key \<longrightarrow> deque_of self k w' = deque_of self k w) \<and>
        mono w' = mono w \<and> mono_ix w' = Suc (mono_ix w))"
proof (cases "Option.bind (b_permissions b (ctx_tool_name ctx)) tp_max_calls_per_hour")
  case None
  then show ?thesis using assms(2) by (simp add: check_tool_rate_def)
next
  case (Some m)
  obtain r1 w1 where c: "check_and_record self (tool_key (b_agent_name b) (ctx_tool_name ctx)) m (Fin 3600) w
      = (r1, w1)"
    by fastforce
  note e = check_and_record_effect[OF c]
  show ?thesis
    using assms c e Some
    by (auto simp: check_tool_rate_def bindE_def Let_def split: if_splits)
qed

lemma window_call_intros:
  assumes "check b rq w = (r, w')" and "mono w' = mono w"
  shows window_call_skip: "deque_of self key w' = deque_of self key w \<Longrightarrow> mono_ix w \<le> mono_ix w' \<Longrightarrow>
      \<not> (sel (rq_tool_name rq) \<and> r = Inr ()) \<Longrightarrow> window_call self key m sel time b rq w"
    and window_call_ask: "mono_ix w \<le> i \<Longrightarrow> i < mono_ix w' \<Longrightarrow>
      deque_of self key w' = snd (window_step (Fin 3600) (mono w i) m (deque_of self key w)) \<Longrightarrow>
      (sel (rq_tool_name rq) \<Longrightarrow> r = Inr () \<Longrightarrow>
        fst (window_step (Fin 3600) (mono w i) m (deque_of self key w)) \<and> time w w' = mono w i) \<Longrightarrow>
      window_call self key m sel time b rq w"
  using assms by (auto simp: window_call_def window_move_def hit_def Let_def case_prod_beta)

lemma global_window_call:
  assumes "leaves_clockwork b" and "b_rate_limiter b = check_and_record self"
    and "b_max_actions_per_hour b = Some m" and "rq_tool_name rq \<noteq> ''__global__''"
  shows "window_call self (global_key (b_agent_name b)) m (\<lambda>_. True) first_reading b rq w"
proof -
  let ?k = "global_key (b_agent_name b)"
  obtain r w' where c: "check b rq w = (r, w')" by fastforce
  show ?thesis
  proof (cases rule: check_at_limiter[OF clockwork_around[OF assms(1)], of rq w])
    case 1
    then show ?thesis
      using c clockwork_eqD[of w' w] by (intro window_call_skip[OF c]) auto
  next
    case (2 r1 w1)
    have w': "deque_of self ?k w' = deque_of self ?k w1" "mono w' = mono w1" "mono_ix w' = mono_ix w1"
      using 2(2) c clockwork_eqD[of w' w1] by auto
    obtain r0 w0 where g: "check_global_rate b (context_of b rq) (tick w) = (r0, w0)" by fastforce
    note ge = check_global_rate_effect[OF assms(2) g, unfolded assms(3), simplified]
    have w1: "deque_of self ?k w1 = deque_of self ?k w0 \<and> mono w1 = mono w0 \<and> mono_ix w0 \<le> mono_ix w1 \<and>
       (r1 = Inr () \<longrightarrow> r0 = Inr ())"
    proof (cases r0)
      case (Inl e)
      then show ?thesis using 2(1) g by (simp add: check_rate_limit_def thenE_Inl)
    next
      case (Inr u)
      then have "check_tool_rate b (context_of b rq) w0 = (r1, w1)"
        using 2(1) g by (simp add: check_rate_limit_def thenE_Inr)
      from check_tool_rate_effect[OF assms(2) this] show ?thesis
        using assms(4) Inr by (auto simp: context_of_def Let_def split: option.splits)
    qed
    show ?thesis
    proof (rule window_call_ask[OF c])
      show "mono w' = mono w" using w' w1 ge by simp
      show "mono_ix w < mono_ix w'" using w' w1 ge by simp
      show "deque_of self ?k w' = snd (window_step (Fin 3600) (mono w (mono_ix w)) m (deque_of self ?k w))"
        using w' w1 ge by simp
      show "fst (window_step (Fin 3600) (mono w (mono_ix w)) m (deque_of self ?k w)) \<and>
        first_reading w w' = mono w (mono_ix w)" if "r = Inr ()"
        using 2(3) that c w1 ge by (simp add: first_reading_def)
    qed simp
  qed
qed

lemma tool_window_call:
  assumes "leaves_clockwork b" and "b_rate_limiter b = check_and_record self"
    and "b_permissions b tool = Some p" "tp_max_calls_per_hour p = Some m" and "tool \<noteq> ''__global__''"
  shows "window_call self (tool_key (b_agent_name b) tool) m ((=) tool) last_reading b rq w"
proof -
  let ?k = "tool_key (b_agent_name b) tool"
  obtain r w' where c: "check b rq w = (r, w')" by fastforce
  show ?thesis
  proof (cases rule: check_at_limiter[OF clockwork_around[OF assms(1)], of rq w])
    case 1
    then show ?thesis
      using c clockwork_eqD[of w' w] by (intro window_call_skip[OF c]) auto
  next
    case (2 r1 w1)
    have w': "deque_of self ?k w' = deque_of self ?k w1" "mono w' = mono w1" "mono_ix w' = mono_ix w1"
      using 2(2) c clockwork_eqD[of w' w1] by auto
    obtain r0 w0 where g: "check_global_rate b (context_of b rq) (tick w) = (r0, w0)" by fastforce
    have w0: "deque_of self ?k w0 = deque_of self ?k w" "mono w0 = mono w" "mono_ix w \<le> mono_ix w0"
      using check_global_rate_effect[OF assms(2) g] assms(5) by (auto split: option.splits)
    show ?thesis
    proof (cases r0)
      case (Inl e)
      then have "r1 = Inl e" "w1 = w0" using 2(1) g by (simp_all add: check_rate_limit_def thenE_Inl)
      then show ?thesis
        using 2(3) c w' w0 by (intro window_call_skip[OF c]) auto
    next
      case (Inr u)
      then have t: "check_tool_rate b (context_of b rq) w0 = (r1, w1)"
        using 2(1) g by (simp add: check_rate_limit_def thenE_Inr)
      show ?thesis
      proof (cases "rq_tool_name rq = tool")
        case True
        note te = check_tool_rate_effect[OF assms(2) t]
        have te: "(r1 = Inr () \<longleftrightarrow> fst (window_step (Fin 3600) (mono w (mono_ix w0)) m (deque_of self ?k w)))"
          "deque_of self ?k w1 = snd (window_step (Fin 3600) (mono w (mono_ix w0)) m (deque_of self ?k w))"
          "mono w1 = mono w" "mono_ix w1 = Suc (mono_ix w0)"
          using te True assms(3,4) w0 by (simp_all add: context_of_def Let_def)
        show ?thesis
          using te w' w0 2(3) c
          by (intro window_call_ask[OF c, of "mono_ix w0"]) (auto simp: last_reading_def)
      next
        case False
        have "deque_of self ?k w1 = deque_of self ?k w0 \<and> mono w1 = mono w0 \<and> mono_ix w0 \<le> mono_ix w1"
          using check_tool_rate_effect[OF assms(2) t] False
          by (auto simp: context_of_def Let_def split: option.splits)
        then show ?thesis
          using w' w0 False by (intro window_call_skip[OF c]) auto
      qed
    qed
  qed
qed

lemma logging_sink_clockwork: "keeps clockwork (logging_sink_emit level ev)"
  unfolding logging_sink_emit_def Let_def by (intro keeps_intros) (simp add: clockwork_def)

lemma default_sinks_clockwork: "b_audit b = default_sinks \<Longrightarrow> b_policy_hooks b = [] \<Longrightarrow> leaves_clockwork b"
  by (simp add: leaves_clockwork_def default_sinks_def logging_sink_clockwork)

lemma sample_leaves_clockwork: "leaves_clockwork sample_boundary"
  by (rule default_sinks_clockwork) simp_all

lemma sample_mono: "mono_clock (mono sample_world)"
  using is_double_int[of 50] by (simp add: mono_clock_def sample_world_def)

section \<open>Properties\<close>

text \<open>The hourly limit of an agent holds over every sequence of calls: with the in-memory
  limiter, hooks and sinks that leave it alone and a monotonic clock, among the calls
  \<open>check\<close> lets pass never more than \<open>max_actions_per_hour\<close> fall into any window of 3600
  seconds, both ends included.\<close>

theorem hourly_limit_holds:
  assumes "leaves_clockwork b" and "b_rate_limiter b = check_and_record self"
    and "b_max_actions_per_hour b = Some m" and "0 \<le> m" and "mono_clock (mono w)"
    and "deque_of self (global_key (b_agent_name b)) w = []"
    and "\<forall>rq \<in> set rqs. rq_tool_name rq \<noteq> ''__global__''"
  shows "int (length (filter (\<lambda>(tool, x). t \<le> x \<and> x \<le> t + 3600) (allowed_at first_reading b rqs w))) \<le> m"
  using window_limit[of rqs self "global_key (b_agent_name b)" m "\<lambda>_. True" first_reading b w t]
    global_window_call[OF assms(1-3)] assms(4-7) by simp

theorem hourly_limit_holds_witness:
  "int (length (filter (\<lambda>(tool, x). 0 \<le> x \<and> x \<le> 0 + 3600) (allowed_at first_reading sample_boundary
     [send_request (PInt 120), send_request (PInt 120)] sample_world))) \<le> 1"
  by (rule hourly_limit_holds[OF sample_leaves_clockwork _ _ _ sample_mono])
    (simp_all add: deque_of_def sample_world_def)

text \<open>The hourly limit of a tool holds over every sequence of calls of the agent, to this tool
  and others: never more than \<open>max_calls_per_hour\<close> allowed calls of the tool fall into any
  window of 3600 seconds.\<close>

theorem tool_hourly_limit_holds:
  assumes "leaves_clockwork b" and "b_rate_limiter b = check_and_record self"
    and "b_permissions b tool = Some p" "tp_max_calls_per_hour p = Some m" and "0 \<le> m"
    and "mono_clock (mono w)" and "deque_of self (tool_key (b_agent_name b) tool) w = []"
    and "tool \<noteq> ''__global__''"
  shows "int (length (filter (\<lambda>(tl, x). tool = tl \<and> t \<le> x \<and> x \<le> t + 3600)
     (allowed_at last_reading b rqs w))) \<le> m"
  using window_limit[of rqs self "tool_key (b_agent_name b) tool" m "(=) tool" last_reading b w t]
    tool_window_call[OF assms(1-4,8)] assms(5-7) by simp


theorem tool_hourly_limit_holds_witness:
  "int (length (filter (\<lambda>(tl, x). ''pay'' = tl \<and> 0 \<le> x \<and> x \<le> 0 + 3600)
     (allowed_at last_reading (sample_boundary\<lparr>b_permissions := [''pay'' \<mapsto> payments\<lparr>tp_max_calls_per_hour := Some 2\<rparr>]\<rparr>)
        [send_request (PInt 120), send_request (PInt 120)] sample_world))) \<le> 2"
  by (rule tool_hourly_limit_holds[where p = "payments\<lparr>tp_max_calls_per_hour := Some 2\<rparr>",
      OF default_sinks_clockwork _ _ _ _ sample_mono])
    (simp_all add: deque_of_def sample_world_def)

end
