(* ===== verification/Boundary_Shape.thy ===== *)
theory Boundary_Shape
  imports Boundary_Decision
begin

text \<open>
  The shape of a \<open>Boundary\<close> and of what it raises: the invariant of the object that the
  constructor establishes and its own operations (\<open>add_permission\<close>, the kill switch) keep, and
  the type of the errors of \<open>check\<close>, with the context and the reason code each carries.
\<close>

section \<open>The object over its life\<close>

text \<open>The calls that change a boundary after its construction.\<close>

datatype boundary_edit = Grant tool_permission | Engage | Disengage

fun edit :: "boundary_edit \<Rightarrow> 'w boundary \<Rightarrow> 'w boundary" where
  "edit (Grant p) = add_permission p"
| "edit Engage = engage_kill_switch"
| "edit Disengage = disengage_kill_switch"

fun granted :: "boundary_edit list \<Rightarrow> tool_permission list" where
  "granted [] = []"
| "granted (Grant p # es) = p # granted es"
| "granted (_ # es) = granted es"

fun switched :: "bool \<Rightarrow> boundary_edit list \<Rightarrow> bool" where
  "switched s [] = s"
| "switched s (Engage # es) = switched True es"
| "switched s (Disengage # es) = switched False es"
| "switched s (Grant p # es) = switched s es"

text \<open>A named agent, and a finite table in which every permission stands under its own name.\<close>

definition well_formed :: "'w boundary \<Rightarrow> bool" where
  "well_formed b \<longleftrightarrow> b_agent_name b \<noteq> [] \<and> finite (dom (b_permissions b)) \<and>
     (\<forall>t p. b_permissions b t = Some p \<longrightarrow> tp_tool_name p = t)"

text \<open>The permission registered last for a tool.\<close>

fun last_named :: "string \<Rightarrow> tool_permission list \<Rightarrow> tool_permission option" where
  "last_named t [] = None"
| "last_named t (p # ps) = (case last_named t ps of
     Some q \<Rightarrow> Some q | None \<Rightarrow> if tp_tool_name p = t then Some p else None)"

lemma well_formed_edit: "well_formed b \<Longrightarrow> well_formed (edit e b)"
  by (cases e) (auto simp: well_formed_def add_permission_def engage_kill_switch_def disengage_kill_switch_def)

lemma well_formed_edits: "well_formed b \<Longrightarrow> well_formed (fold edit es b)"
  by (induction es arbitrary: b) (simp_all add: well_formed_edit)

lemma registered_last:
  "foldl (\<lambda>m p. m(tp_tool_name p \<mapsto> p)) m ps t =
     (case last_named t ps of Some q \<Rightarrow> Some q | None \<Rightarrow> m t)"
  by (induction ps arbitrary: m) (auto split: option.splits)

lemma permission_map_last: "permission_map ps t = last_named t ps"
  by (simp add: permission_map_def registered_last split: option.splits)

lemma last_named_append:
  "last_named t (ps @ qs) = (case last_named t qs of Some q \<Rightarrow> Some q | None \<Rightarrow> last_named t ps)"
  by (induction ps) (auto split: option.splits)

lemma last_named_name: "last_named t ps = Some p \<Longrightarrow> tp_tool_name p = t \<and> p \<in> set ps"
  by (induction ps) (auto split: option.splits if_splits)

lemma last_named_dom: "dom (\<lambda>t. last_named t ps) \<subseteq> tp_tool_name ` set ps"
  using last_named_name by fastforce

lemma well_formed_made:
  assumes "b_agent_name b \<noteq> []" "b_permissions b = permission_map ps"
  shows "well_formed b"
  using assms finite_subset[OF last_named_dom[of ps]] last_named_name
  by (auto simp: well_formed_def permission_map_last[abs_def])

lemma edits_permissions:
  "b_permissions (fold edit es b) t =
     (case last_named t (granted es) of Some q \<Rightarrow> Some q | None \<Rightarrow> b_permissions b t)"
proof (induction es arbitrary: b rule: granted.induct)
  case (2 p es)
  then show ?case by (auto simp: add_permission_def split: option.splits)
qed (simp_all add: engage_kill_switch_def disengage_kill_switch_def split: option.splits)

lemma edits_switch: "b_kill_switch (fold edit es b) = switched (b_kill_switch b) es"
  by (induction "b_kill_switch b" es arbitrary: b rule: switched.induct)
    (simp_all add: add_permission_def engage_kill_switch_def disengage_kill_switch_def)

text \<open>Everything else is as constructed.\<close>

lemma edits_rest:
  "fold edit es b = b\<lparr>b_permissions := b_permissions (fold edit es b), b_kill_switch := b_kill_switch (fold edit es b)\<rparr>"
proof (induction es arbitrary: b)
  case (Cons e es)
  have e: "edit e b = b\<lparr>b_permissions := b_permissions (edit e b), b_kill_switch := b_kill_switch (edit e b)\<rparr>"
    by (cases e) (simp_all add: add_permission_def engage_kill_switch_def disengage_kill_switch_def)
  let ?c = "fold edit (e # es) b"
  have "?c = (edit e b)\<lparr>b_permissions := b_permissions ?c, b_kill_switch := b_kill_switch ?c\<rparr>"
    using Cons.IH[of "edit e b"] by simp
  then show ?case by (subst (asm) e) simp
qed simp

section \<open>What a check may raise\<close>

text \<open>
  The errors \<open>check\<close> documents: a violation that names the agent and the tool, with a reason code
  of the enumeration, of the subclass that belongs to the code; or a request for approval.
\<close>

definition declared_error :: "call_context \<Rightarrow> exn \<Rightarrow> bool" where
  "declared_error ctx e \<longleftrightarrow> (case e of
       BoundaryViolation c m ag tool opn rule \<Rightarrow>
         ag = ctx_agent_name ctx \<and> tool = Some (ctx_tool_name ctx) \<and> (opn = None \<or> opn = ctx_operation ctx) \<and>
         (\<exists>r. rule = Some (reason_value r) \<and> (c = KillSwitchActive \<longleftrightarrow> r = KILL_SWITCH_ACTIVE) \<and>
            (c = RateLimitExceeded \<longleftrightarrow> r = RATE_LIMIT_EXCEEDED))
     | ApprovalRequired m ag tool opn aid \<Rightarrow>
         ag = ctx_agent_name ctx \<and> tool = ctx_tool_name ctx \<and> opn = ctx_operation ctx \<and> aid = None
     | _ \<Rightarrow> False)"

named_theorems raises_intros "rules for the errors a computation may raise"

definition raises_only :: "('e \<Rightarrow> bool) \<Rightarrow> ('s, 'e, 'a) eff \<Rightarrow> bool" where
  "raises_only P m \<longleftrightarrow> (\<forall>w e w'. m w = (Inl e, w') \<longrightarrow> P e)"

lemma raises_onlyD: "raises_only P m \<Longrightarrow> m w = (Inl e, w') \<Longrightarrow> P e"
  by (auto simp: raises_only_def)

lemma raises_only_basic [raises_intros]:
  "raises_only P (returnE a)" "P e \<Longrightarrow> raises_only P (throwE e)" "(c \<Longrightarrow> P e) \<Longrightarrow> raises_only P (whenE c e)"
  "raises_only P time_time"
  by (auto simp: raises_only_def time_time_def)

lemma raises_only_bindE [raises_intros]:
  "raises_only P m \<Longrightarrow> (\<And>a. raises_only P (f a)) \<Longrightarrow> raises_only P (bindE m f)"
  unfolding raises_only_def bindE_Inl_iff by blast

lemma raises_only_thenE [raises_intros]:
  "raises_only P m \<Longrightarrow> raises_only P k \<Longrightarrow> raises_only P (thenE m k)"
  unfolding thenE_def by (rule raises_only_bindE)

lemma raises_only_if [raises_intros]:
  "(c \<Longrightarrow> raises_only P m) \<Longrightarrow> (\<not> c \<Longrightarrow> raises_only P k) \<Longrightarrow> raises_only P (if c then m else k)"
  by simp

lemma raises_only_option [raises_intros]:
  "(x = None \<Longrightarrow> raises_only P m) \<Longrightarrow> (\<And>a. x = Some a \<Longrightarrow> raises_only P (f a)) \<Longrightarrow>
   raises_only P (case x of None \<Rightarrow> m | Some a \<Rightarrow> f a)"
  by (cases x) simp_all

lemma declared_violation:
  assumes "opn = None \<or> opn = ctx_operation ctx" "r \<noteq> KILL_SWITCH_ACTIVE" "r \<noteq> RATE_LIMIT_EXCEEDED"
  shows "declared_error ctx (violation ctx msg opn r)"
  using assms by (auto simp: declared_error_def)

lemma raises_throw_repr [raises_intros]:
  assumes "shown v" "r \<noteq> KILL_SWITCH_ACTIVE" "r \<noteq> RATE_LIMIT_EXCEEDED"
  shows "raises_only (declared_error ctx) (throw_repr ctx x v y r)"
proof -
  obtain s where "repr_val v = Inr s" using assms(1) by (auto simp: shown_def)
  then show ?thesis
    using assms(2,3) by (simp add: raises_only_def throw_repr_def bindE_def declared_violation)
qed

lemma raises_run_hooks:
  assumes "\<And>h. h \<in> set hooks \<Longrightarrow> raises_only is_exception (snd h ctx)"
  shows "raises_only (declared_error ctx) (run_hooks fc ctx hooks)"
  using assms
proof (induction hooks)
  case Nil
  then show ?case by (simp add: raises_only_def)
next
  case (Cons h hooks)
  obtain name f where h: "h = (name, f)" by fastforce
  have rest: "raises_only (declared_error ctx) (run_hooks fc ctx hooks)" using Cons by simp
  have exc: "is_exception e" if "f ctx w = (Inl e, w')" for e w w'
    using Cons.prems[of h] that by (auto simp: h raises_only_def)
  have denied: "declared_error ctx (violation ctx msg (ctx_operation ctx) POLICY_HOOK_DENIED)" for msg
    by (simp add: declared_violation del: reason_value.simps)
  show ?case
    unfolding raises_only_def
  proof (intro allI impI)
    fix w e w'
    assume run: "run_hooks fc ctx (h # hooks) w = (Inl e, w')"
    show "declared_error ctx e"
    proof (cases "f ctx w")
      case (Pair r w1)
      then show ?thesis
        using run rest denied exc
        by (cases r) (auto simp: raises_only_def h simp del: reason_value.simps split: if_splits)
    qed
  qed
qed

text \<open>What the boundary needs of its foreign parts: hooks raise exceptions only, the limiter answers.\<close>

definition civil_boundary :: "'w boundary \<Rightarrow> bool" where
  "civil_boundary b \<longleftrightarrow> tame_boundary b \<and> answering_limiter b \<and>
     (\<forall>h \<in> set (b_policy_hooks b). \<forall>ctx. raises_only is_exception (snd h ctx))"

lemma raises_limiter [raises_intros]: "answering_limiter b \<Longrightarrow> raises_only P (b_rate_limiter b k m win)"
  unfolding answering_limiter_def raises_only_def by (metis Inl_Inr_False fst_conv)

lemma raises_local_checks:
  assumes "civil_boundary b" "shown (ctx_value ctx)" "shown (ctx_record_count ctx)"
  shows "raises_only (declared_error ctx) (local_checks b ctx)"
proof -
  have hooks: "raises_only (declared_error ctx) (check_policy_hooks b ctx)"
    using assms(1) by (auto simp: check_policy_hooks_def civil_boundary_def intro: raises_run_hooks)
  have kill: "raises_only (declared_error ctx) (check_kill_switch b ctx)"
    by (auto simp: raises_only_def check_kill_switch_def declared_error_def)
  have approval: "raises_only (declared_error ctx) (check_requires_approval b ctx p)" for p
    by (auto simp: raises_only_def check_requires_approval_def declared_error_def)
  have rate: "raises_only (declared_error ctx) (check_rate_limit b ctx)"
    using assms(1)
    by (auto simp: check_rate_limit_def check_global_rate_def check_tool_rate_def civil_boundary_def
        declared_error_def intro!: raises_intros)
  have limits: "raises_only (declared_error ctx) (check_value_limit b ctx p)"
    "raises_only (declared_error ctx) (check_record_limit b ctx p)" for p
    unfolding check_value_limit_def check_record_limit_def
    by (intro raises_intros assms declared_violation; simp)+
  have static: "raises_only (declared_error ctx) (check_quarantine b ctx)"
    "raises_only (declared_error ctx) (check_validity_window b ctx)"
    "raises_only (declared_error ctx) (check_environment b ctx)"
    "raises_only (declared_error ctx) (check_global_blocked_operations b ctx)"
    "raises_only (declared_error ctx) (check_tool_permission b ctx)"
    "raises_only (declared_error ctx) (check_operation ctx p)"
    "raises_only (declared_error ctx) (check_access_mode ctx p)" for p
    unfolding check_quarantine_def check_validity_window_def check_environment_def
      check_global_blocked_operations_def check_tool_permission_def check_operation_def check_access_mode_def
    by (intro raises_intros declared_violation; simp)+
  show ?thesis
    unfolding local_checks_def permission_checks_def
    by (intro raises_only_thenE raises_only_bindE kill static limits rate hooks approval)
qed

section \<open>Properties\<close>

text \<open>C18: A boundary keeps its shape: whatever permissions it is constructed with and whatever
  calls of \<open>add_permission\<close>, \<open>engage_kill_switch\<close> and \<open>disengage_kill_switch\<close> follow, it has a
  non-empty agent name and every permission stands under its own tool name; the permission of a
  tool is the one registered last, the switch is as it was set last, and nothing else changes.\<close>

theorem boundary_keeps_its_shape:
  assumes "make_boundary agent autonomy permissions blocked envs envir max_hour switch switch_env vfrom vto
      audit hooks fc strict issuer limiter fresh prov pmode version = Inr b0"
    and b_def: "b = fold edit es b0"
  shows "well_formed b \<and>
    get_permission b t = last_named t ((case permissions of None \<Rightarrow> [] | Some ps \<Rightarrow> ps) @ granted es) \<and>
    b_kill_switch b = switched switch es \<and>
    b = b0\<lparr>b_permissions := b_permissions b, b_kill_switch := b_kill_switch b\<rparr>"
proof -
  let ?ps = "case permissions of None \<Rightarrow> [] | Some ps \<Rightarrow> ps"
  have b0: "b_agent_name b0 \<noteq> []" "b_permissions b0 = permission_map ?ps" "b_kill_switch b0 = switch"
    using assms(1) by (auto simp: make_boundary_def split: if_splits)
  have "well_formed b" unfolding b_def by (rule well_formed_edits[OF well_formed_made[OF b0(1,2)]])
  moreover have "get_permission b t = last_named t (?ps @ granted es)"
    by (simp add: get_permission_def b_def edits_permissions b0(2) permission_map_last last_named_append
        split: option.splits)
  ultimately show ?thesis
    using edits_rest[of es b0] edits_switch[of es b0] b0(3) by (simp add: b_def)
qed

theorem boundary_keeps_its_shape_witness:
  "\<exists>b0 :: unit boundary.
     get_permission (fold edit [Engage, Grant (payments\<lparr>tp_requires_approval := True\<rparr>), Disengage] b0) ''pay'' =
       Some (payments\<lparr>tp_requires_approval := True\<rparr>) \<and>
     \<not> b_kill_switch (fold edit [Engage, Grant (payments\<lparr>tp_requires_approval := True\<rparr>), Disengage] b0)"
proof -
  obtain b0 :: "unit boundary" where b0: "make_boundary ''bot'' AUTONOMOUS (Some [payments]) {} None ''prod''
      None False None None None None None True True None None 0 None OBSERVE None = Inr b0"
    by (simp add: make_boundary_def)
  show ?thesis
    using boundary_keeps_its_shape[OF b0 refl, of "[Engage, Grant (payments\<lparr>tp_requires_approval := True\<rparr>), Disengage]" "''pay''"]
    by (intro exI[of _ b0]) simp
qed

text \<open>C17: \<open>check\<close> raises the documented errors only. When hooks raise nothing outside
  \<open>Exception\<close>, the limiter answers and the two numbers can be shown, an error of \<open>check\<close> is
  a \<open>BoundaryViolation\<close> of this agent and tool with a reason code of the enumeration, a
  \<open>KillSwitchActive\<close> or \<open>RateLimitExceeded\<close> exactly for the codes of these, or an
  \<open>ApprovalRequired\<close> of this agent, tool and operation.\<close>

theorem check_raises_declared_errors:
  assumes "civil_boundary b" "shown (rq_value rq)" "shown (rq_record_count rq)"
    and "fst (check b rq w) = Inl e"
  shows "declared_error (context_of b rq) e"
proof -
  have "fst (local_checks b (context_of b rq) w) = Inl e"
    using assms(1,4) by (simp add: check_outcome civil_boundary_def)
  then show ?thesis
    using raises_onlyD[OF raises_local_checks[OF assms(1)], of "context_of b rq" w e] assms(2,3)
    by (simp add: context_of_def prod_eq_iff)
qed

theorem check_raises_declared_errors_witness:
  "declared_error (context_of sample_boundary ((send_request (PInt 120))\<lparr>rq_tool_name := ''wire''\<rparr>))
     (projl (fst (check sample_boundary ((send_request (PInt 120))\<lparr>rq_tool_name := ''wire''\<rparr>) sample_world)))"
proof (rule check_raises_declared_errors)
  let ?rq = "(send_request (PInt 120))\<lparr>rq_tool_name := ''wire''\<rparr>"
  show "civil_boundary sample_boundary"
    by (simp add: civil_boundary_def sample_tame answering_limiter_def check_and_record_answers)
  have "shown (PInt 120)" by (rule shown_int) code_simp
  then show "shown (rq_value ?rq)" by simp
  show "shown (rq_record_count ?rq)" by simp
  have "b_permissions sample_boundary ''wire'' = None"
    by (simp add: sample_boundary_def permission_map_def payments_def)
  then have "\<not> static_ok sample_boundary (context_of sample_boundary ?rq) p sample_world" for p
    by (simp add: static_ok_def context_of_def)
  then have "fst (check sample_boundary ?rq sample_world) \<noteq> Inr ()"
    using check_static_ok[OF sample_tame] by blast
  then show "fst (check sample_boundary ?rq sample_world) = Inl (projl (fst (check sample_boundary ?rq sample_world)))"
    by (cases "fst (check sample_boundary ?rq sample_world)") auto
qed

end
