(* ===== verification/Boundary_History.thy ===== *)
theory Boundary_History
  imports Boundary_Rate Boundary_Shape
begin

text \<open>
  A boundary in use: calls to \<open>check\<close> in between the changes its host makes, to the object
  (\<open>add_permission\<close>, \<open>engage_kill_switch\<close>, \<open>disengage_kill_switch\<close>) and to the environment
  variables that \<open>kill_switch_engaged\<close> reads. The hourly limit counts over all of it, and an
  engaged switch stops every call until it is released.
\<close>

section \<open>Histories\<close>

datatype host_event = Ask call_request | Change boundary_edit | Set_Env string "string option"

text \<open>The calls that pass, each with the time it counts for.\<close>

fun history ::
  "('w world_scheme \<Rightarrow> 'w world_scheme \<Rightarrow> rat) \<Rightarrow> 'w boundary \<Rightarrow> host_event list \<Rightarrow>
   'w world_scheme \<Rightarrow> (string \<times> rat) list" where
  "history time b [] w = []"
| "history time b (Ask rq # es) w = (case check b rq w of
     (Inr _, w') \<Rightarrow> (rq_tool_name rq, time w w') # history time b es w'
   | (Inl _, w') \<Rightarrow> history time b es w')"
| "history time b (Change e # es) w = history time (edit e b) es w"
| "history time b (Set_Env n v # es) w = history time b es (w\<lparr>environ := (environ w)(n := v)\<rparr>)"

lemma history_of_calls: "history time b (map Ask rqs) w = allowed_at time b rqs w"
  by (induction rqs arbitrary: w) (auto split: prod.splits sum.splits)

text \<open>The moves of the world a history makes.\<close>

fun moves_of :: "'w boundary \<Rightarrow> host_event list \<Rightarrow> 'w move list" where
  "moves_of b [] = []"
| "moves_of b (Ask rq # es) = (Some (rq_tool_name rq), check b rq) # moves_of b es"
| "moves_of b (Change e # es) = moves_of (edit e b) es"
| "moves_of b (Set_Env n v # es) =
     (None, \<lambda>w. (Inr (), w\<lparr>environ := (environ w)(n := v)\<rparr>)) # moves_of b es"

lemma history_passed: "history time b es w = passed_at time (moves_of b es) w"
  by (induction b es arbitrary: w rule: moves_of.induct) (auto split: prod.splits sum.splits)

section \<open>The limit\<close>

lemma edit_keeps [simp]:
  "leaves_clockwork (edit e b) = leaves_clockwork b" "b_rate_limiter (edit e b) = b_rate_limiter b"
  "b_max_actions_per_hour (edit e b) = b_max_actions_per_hour b" "b_agent_name (edit e b) = b_agent_name b"
  by (cases e; simp add: leaves_clockwork_def add_permission_def engage_kill_switch_def
      disengage_kill_switch_def)+

lemma environment_window_move:
  "window_move self key m sel time (None, \<lambda>w. (Inr (), w\<lparr>environ := (environ w)(n := v)\<rparr>)) w"
  by (simp add: window_move_def hit_def deque_of_def)

lemma moves_of_window:
  assumes "leaves_clockwork b" and "b_rate_limiter b = check_and_record self"
    and "b_max_actions_per_hour b = Some m" and "\<forall>rq. Ask rq \<in> set es \<longrightarrow> rq_tool_name rq \<noteq> ''__global__''"
    and "mv \<in> set (moves_of b es)"
  shows "window_move self (global_key (b_agent_name b)) m (\<lambda>_. True) first_reading mv v"
  using assms
proof (induction b es rule: moves_of.induct)
  case (2 b rq es)
  then show ?case
    using global_window_call[of b self m rq v] by (auto simp: window_call_def)
next
  case (4 b n v es)
  then show ?case using environment_window_move by auto
qed auto

lemma history_limit:
  assumes "leaves_clockwork b" and "b_rate_limiter b = check_and_record self"
    and "b_max_actions_per_hour b = Some m" and "0 \<le> m" and "mono_clock (mono w)"
    and "deque_of self (global_key (b_agent_name b)) w = []"
    and "\<forall>rq. Ask rq \<in> set es \<longrightarrow> rq_tool_name rq \<noteq> ''__global__''"
  shows "int (length (filter (\<lambda>(tool, x). t \<le> x \<and> x \<le> t + 3600) (history first_reading b es w))) \<le> m"
  using moves_limit[OF moves_of_window[OF assms(1-3,7)] assms(5,6,4), where t = t]
  unfolding history_passed by simp

section \<open>The switch\<close>

lemma engaged_refuses:
  assumes "b_kill_switch b"
  shows "fst (check b rq w) \<noteq> Inr ()"
proof
  assume "fst (check b rq w) = Inr ()"
  then have "fst (local_checks b (context_of b rq) w) = Inr ()" by (rule check_returns_local)
  then show False
    using assms by (simp add: local_checks_def thenE_def bindE_def check_kill_switch_def kill_switch_engaged_def)
qed

lemma engaged_until_released:
  "b_kill_switch b \<Longrightarrow> Change Disengage \<notin> set es \<Longrightarrow> history time b es w = []"
proof (induction time b es w rule: history.induct)
  case (2 time b rq es w)
  then show ?case using engaged_refuses[of b rq w] by (auto split: prod.splits sum.splits)
next
  case (3 time b e es w)
  then show ?case
    by (cases e) (auto simp: add_permission_def engage_kill_switch_def)
qed auto

text \<open>Histories compose: where the boundary and the world have got to.\<close>

fun after :: "'w boundary \<Rightarrow> host_event list \<Rightarrow> 'w world_scheme \<Rightarrow> 'w boundary \<times> 'w world_scheme" where
  "after b [] w = (b, w)"
| "after b (Ask rq # es) w = after b es (snd (check b rq w))"
| "after b (Change e # es) w = after (edit e b) es w"
| "after b (Set_Env n v # es) w = after b es (w\<lparr>environ := (environ w)(n := v)\<rparr>)"

lemma history_append:
  "history time b (es @ fs) w = history time b es w @ (case after b es w of (b', w') \<Rightarrow> history time b' fs w')"
  by (induction time b es w rule: history.induct) (auto split: prod.splits sum.splits)

lemma stopped_in_between:
  assumes "Change Disengage \<notin> set fs"
  shows "history time b (es @ Change Engage # fs) w = history time b es w"
  using assms
  by (simp add: history_append engaged_until_released engage_kill_switch_def split: prod.splits)

section \<open>Properties\<close>

text \<open>C10: The hourly limit of an agent holds over every history of its boundary: whatever
  permissions are granted, however often the kill switch is thrown and the environment changes
  between the calls, never more than \<open>max_actions_per_hour\<close> of the calls that pass fall into any
  window of 3600 seconds, both ends included; and from the engagement of the switch to its
  release no call passes.\<close>

theorem hourly_limit_over_history:
  assumes "leaves_clockwork b" and "b_rate_limiter b = check_and_record self"
    and "b_max_actions_per_hour b = Some m" and "0 \<le> m" and "mono_clock (mono w)"
    and "deque_of self (global_key (b_agent_name b)) w = []"
    and "\<forall>rq. Ask rq \<in> set es \<longrightarrow> rq_tool_name rq \<noteq> ''__global__''"
    and "Change Disengage \<notin> set fs"
  shows "int (length (filter (\<lambda>(tool, x). t \<le> x \<and> x \<le> t + 3600) (history first_reading b es w))) \<le> m \<and>
    history first_reading b (es @ Change Engage # fs) w = history first_reading b es w"
  using history_limit[OF assms(1-7)] stopped_in_between[OF assms(8)] by simp

theorem hourly_limit_over_history_witness:
  "(let es = [Ask (send_request (PInt 120)), Change Engage, Ask (send_request (PInt 120)), Change Disengage,
        Set_Env ''TOOLBOUNDARY_STOP'' (Some ''1''), Change (Grant payments), Ask (send_request (PInt 120))] in
    int (length (filter (\<lambda>(tool, x). 0 \<le> x \<and> x \<le> 0 + 3600) (history first_reading sample_boundary es sample_world))) \<le> 1 \<and>
    history first_reading sample_boundary (es @ Change Engage # [Ask (send_request (PInt 1))]) sample_world =
      history first_reading sample_boundary es sample_world)"
  unfolding Let_def
  by (rule hourly_limit_over_history[OF sample_leaves_clockwork _ _ _ sample_mono])
    (simp_all add: deque_of_def sample_world_def)

text \<open>The bound is reached: the first call of such a history passes.\<close>

lemma history_reaches_limit:
  "map fst (history first_reading sample_boundary
     [Ask (send_request (PInt 120)), Change Engage, Ask (send_request (PInt 120))] sample_world) = [''pay'']"
proof -
  have "fst (check sample_boundary (send_request (PInt 120)) sample_world) = Inr ()"
    using sample_allowed[of 120 0] by (simp add: sample_uuid_ix)
  then have "map fst (history first_reading sample_boundary [Ask (send_request (PInt 120))] sample_world) = [''pay'']"
    by (auto split: prod.splits)
  then show ?thesis
    using stopped_in_between[of "[Ask (send_request (PInt 120))]" first_reading sample_boundary
      "[Ask (send_request (PInt 120))]" sample_world] by simp
qed

end
