(* ===== verification/Py_Json_Parse.thy ===== *)
theory Py_Json_Parse
  imports Py_Json
begin

text \<open>
  \<open>json.loads\<close> on a text: the scanner of the standard library on the characters 0 to 255,
  with its strict strings, its numbers and its three non-standard literals. A \<open>\u\<close> escape
  beyond 255 is outside the alphabet of this development and refused. The nesting depth of a
  text is bounded by its length, which gives the fuel; the recursion limit of the interpreter
  is not modelled.
\<close>

section \<open>Strings\<close>

definition hex_val :: "char \<Rightarrow> nat option" where
  "hex_val c = (let n = of_char c :: nat in
     if 48 \<le> n \<and> n \<le> 57 then Some (n - 48)
     else if 97 \<le> n \<and> n \<le> 102 then Some (n - 87)
     else if 65 \<le> n \<and> n \<le> 70 then Some (n - 55) else None)"

definition hex4 :: "char \<Rightarrow> char \<Rightarrow> char \<Rightarrow> char \<Rightarrow> nat option" where
  "hex4 a b c d = (case (hex_val a, hex_val b, hex_val c, hex_val d) of
     (Some p, Some q, Some r, Some s) \<Rightarrow> Some (((p * 16 + q) * 16 + r) * 16 + s) | _ \<Rightarrow> None)"

definition escape_char :: "char \<Rightarrow> char option" where
  "escape_char c =
    (if c \<in> {CHR 0x22, CHR 0x5C, CHR ''/''} then Some c
     else if c = CHR ''b'' then Some (CHR 0x08) else if c = CHR ''f'' then Some (CHR 0x0C)
     else if c = CHR ''n'' then Some (CHR 0x0A) else if c = CHR ''r'' then Some (CHR 0x0D)
     else if c = CHR ''t'' then Some (CHR 0x09) else None)"

text \<open>The rest of a string after its opening quote.\<close>

fun parse_string :: "string \<Rightarrow> (string \<times> string) option" where
  "parse_string [] = None"
| "parse_string (c # cs) =
    (if c = CHR 0x22 then Some ([], cs)
     else if c = CHR 0x5C then
       (case cs of
          [] \<Rightarrow> None
        | e # r \<Rightarrow>
            if e = CHR ''u'' then
              (case r of
                 h1 # h2 # h3 # h4 # r' \<Rightarrow>
                   (case hex4 h1 h2 h3 h4 of
                      Some n \<Rightarrow> if n < 256 then map_option (apfst ((#) (char_of n))) (parse_string r') else None
                    | None \<Rightarrow> None)
               | _ \<Rightarrow> None)
            else (case escape_char e of
                Some x \<Rightarrow> map_option (apfst ((#) x)) (parse_string r)
              | None \<Rightarrow> None))
     else if of_char c < (32 :: nat) then None
     else map_option (apfst ((#) c)) (parse_string cs))"

section \<open>Numbers\<close>

text \<open>
  \<open>-?(0|[1-9][0-9]*)(\.[0-9]+)?([eE][-+]?[0-9]+)?\<close>: the integer part, and the text of the
  fraction and exponent if there are any.
\<close>

definition scan_int :: "string \<Rightarrow> (string \<times> string) option" where
  "scan_int s = (case s of
     [] \<Rightarrow> None
   | c # r \<Rightarrow> if c = CHR ''0'' then Some ([c], r)
       else if is_digit c then Some (c # takeWhile is_digit r, dropWhile is_digit r) else None)"

definition scan_frac :: "string \<Rightarrow> string \<times> string" where
  "scan_frac s = (case s of
     d # c # r \<Rightarrow> if d = CHR ''.'' \<and> is_digit c
        then (d # c # takeWhile is_digit r, dropWhile is_digit r) else ([], s)
   | _ \<Rightarrow> ([], s))"

definition scan_exp :: "string \<Rightarrow> string \<times> string" where
  "scan_exp s = (case s of
     e # r \<Rightarrow> if e = CHR ''e'' \<or> e = CHR ''E'' then
        (let (sg, r1) = (case r of c # t \<Rightarrow> if c = CHR ''-'' \<or> c = CHR ''+'' then ([c], t) else ([], r)
                         | [] \<Rightarrow> ([], []));
             ds = takeWhile is_digit r1
         in if ds = [] then ([], s) else (e # sg @ ds, dropWhile is_digit r1)) else ([], s)
   | _ \<Rightarrow> ([], s))"

definition parse_number :: "string \<Rightarrow> (pyval \<times> string) option" where
  "parse_number s =
    (let (neg, s1) = (case s of c # r \<Rightarrow> if c = CHR ''-'' then (True, r) else (False, s) | [] \<Rightarrow> (False, []))
     in case scan_int s1 of
          None \<Rightarrow> None
        | Some (ip, r1) \<Rightarrow>
           (case scan_frac r1 of (fp, r2) \<Rightarrow>
           (case scan_exp r2 of (ep, r3) \<Rightarrow>
             if fp = [] \<and> ep = [] then
               (if length ip \<le> 4300
                then Some (PInt (if neg then - int (nat_of_digits ip) else int (nat_of_digits ip)), r3)
                else None)
             else (case parse_decimal (ip @ fp @ ep) of
                 Some q \<Rightarrow> Some (PFloat (if neg then fneg (round_double q) else round_double q), r3)
               | None \<Rightarrow> None))))"

section \<open>Values\<close>

definition json_ws :: "char \<Rightarrow> bool" where
  "json_ws c \<longleftrightarrow> c \<in> {CHR '' '', CHR 0x09, CHR 0x0A, CHR 0x0D}"

definition skip_ws :: "string \<Rightarrow> string" where
  "skip_ws s = dropWhile json_ws s"

definition strip_prefix :: "string \<Rightarrow> string \<Rightarrow> string option" where
  "strip_prefix p s = (if take (length p) s = p then Some (drop (length p) s) else None)"

definition parse_literal :: "string \<Rightarrow> (pyval \<times> string) option" where
  "parse_literal s =
    (case strip_prefix ''null'' s of Some r \<Rightarrow> Some (PNone, r) | None \<Rightarrow>
    (case strip_prefix ''true'' s of Some r \<Rightarrow> Some (PBool True, r) | None \<Rightarrow>
    (case strip_prefix ''false'' s of Some r \<Rightarrow> Some (PBool False, r) | None \<Rightarrow>
    (case strip_prefix ''NaN'' s of Some r \<Rightarrow> Some (PFloat NaN, r) | None \<Rightarrow>
    (case strip_prefix ''Infinity'' s of Some r \<Rightarrow> Some (PFloat PosInf, r) | None \<Rightarrow>
    (case strip_prefix ''-Infinity'' s of Some r \<Rightarrow> Some (PFloat NegInf, r) | None \<Rightarrow>
     parse_number s))))))"

text \<open>
  \<open>after c s\<close> is the rest of \<open>s\<close> when its next character is \<open>c\<close>. \<open>parse_items\<close> reads the
  elements of a list after \<open>[\<close> or a comma, \<open>parse_pairs\<close> those of an object after \<open>{\<close>
  or a comma; both end with the closing bracket.
\<close>

definition after :: "char \<Rightarrow> string \<Rightarrow> string option" where
  "after c s = (case s of [] \<Rightarrow> None | d # r \<Rightarrow> if d = c then Some r else None)"

lemma after_simps [simp]:
  "after c [] = None" "after c (d # r) = (if d = c then Some r else None)"
  by (simp_all add: after_def)

fun parse_value :: "nat \<Rightarrow> string \<Rightarrow> (pyval \<times> string) option"
  and parse_items :: "nat \<Rightarrow> string \<Rightarrow> (pyval list \<times> string) option"
  and parse_pairs :: "nat \<Rightarrow> string \<Rightarrow> (pydict \<times> string) option" where
  "parse_value 0 s = None"
| "parse_value (Suc f) s =
    (case s of
       [] \<Rightarrow> None
     | c # r \<Rightarrow>
        if c = CHR 0x22 then map_option (apfst PStr) (parse_string r)
        else if c = CHR ''['' then
          (case after CHR '']'' (skip_ws r) of
             Some r' \<Rightarrow> Some (PList [], r')
           | None \<Rightarrow> map_option (apfst PList) (parse_items f (skip_ws r)))
        else if c = CHR ''{'' then
          (case after CHR ''}'' (skip_ws r) of
             Some r' \<Rightarrow> Some (PDict [], r')
           | None \<Rightarrow> map_option (apfst (\<lambda>kvs. PDict (foldl (\<lambda>d (k, v). dict_set d k v) [] kvs)))
               (parse_pairs f (skip_ws r)))
        else parse_literal s)"
| "parse_items 0 s = None"
| "parse_items (Suc f) s =
    (case parse_value f s of
       None \<Rightarrow> None
     | Some (v, r) \<Rightarrow>
        (case after CHR '']'' (skip_ws r) of
           Some r' \<Rightarrow> Some ([v], r')
         | None \<Rightarrow>
            (case after CHR '','' (skip_ws r) of
               Some r' \<Rightarrow> map_option (apfst ((#) v)) (parse_items f (skip_ws r'))
             | None \<Rightarrow> None)))"
| "parse_pairs 0 s = None"
| "parse_pairs (Suc f) s =
    (case Option.bind (after CHR 0x22 s) parse_string of
       None \<Rightarrow> None
     | Some (k, r1) \<Rightarrow>
        (case Option.bind (after CHR '':'' (skip_ws r1)) (\<lambda>r2. parse_value f (skip_ws r2)) of
           None \<Rightarrow> None
         | Some (v, r3) \<Rightarrow>
            (case after CHR ''}'' (skip_ws r3) of
               Some r4 \<Rightarrow> Some ([(KStr k, v)], r4)
             | None \<Rightarrow>
                (case after CHR '','' (skip_ws r3) of
                   Some r4 \<Rightarrow> map_option (apfst ((#) (KStr k, v))) (parse_pairs f (skip_ws r4))
                 | None \<Rightarrow> None))))"

definition json_parse :: "string \<Rightarrow> pyval option" where
  "json_parse s = (case parse_value (2 * length s + 2) (skip_ws s) of
     Some (v, r) \<Rightarrow> if skip_ws r = [] then Some v else None | None \<Rightarrow> None)"

text \<open>
  \<open>bytes.decode("utf-8")\<close> as far as the alphabet goes; a byte order mark is dropped as
  \<open>json.loads\<close> does.
\<close>

fun utf8_decode :: "string \<Rightarrow> string option" where
  "utf8_decode [] = Some []"
| "utf8_decode (c # cs) = (let n = of_char c :: nat in
     if n < 128 then map_option ((#) c) (utf8_decode cs)
     else if n = 194 \<or> n = 195 then
       (case cs of
          [] \<Rightarrow> None
        | d # r \<Rightarrow> (let m = of_char d :: nat in
            if 128 \<le> m \<and> m < 192 then map_option ((#) (char_of ((n - 192) * 64 + (m - 128)))) (utf8_decode r)
            else None))
     else None)"

definition json_loads :: "string \<Rightarrow> pyval option" where
  "json_loads raw = Option.bind (utf8_decode
     (if take 3 raw = [CHR 0xEF, CHR 0xBB, CHR 0xBF] then drop 3 raw else raw)) json_parse"

end
