(* ===== verification/Py_Float_Text.thy ===== *)
theory Py_Float_Text
  imports Py_Text
begin

text \<open>
  \<open>float(repr(x)) == x\<close>: the shortest decimal that \<open>repr\<close> looks for exists (seventeen
  digits determine a double), and reading its text gives the same decimal back.
\<close>

section \<open>Decimals near a double\<close>

lemma rhe_close:
  assumes "\<bar>y - of_int n\<bar> < 1 / 2"
  shows "rhe y = n"
proof -
  have "\<bar>of_int (rhe y) - (of_int n :: rat)\<bar> < 1"
    using rhe_near[of y] assms by linarith
  then have "\<bar>rhe y - n\<bar> < 1"
    by (metis of_int_abs of_int_diff of_int_less_1_iff)
  then show ?thesis by linarith
qed

lemma powi2_pos [simp]: "(0 :: rat) < 2 powi i"
  by simp

lemma powi2_shift: "(2 :: rat) powi (i + int k) = 2 powi i * 2 ^ k"
  by (simp add: power_int_add)

text \<open>A double is an integer multiple of its unit in the last place.\<close>

lemma round_mag_multiple:
  assumes "0 < q" "round_mag q = q"
  obtains n :: int where "q = of_int n * 2 powi ulp_exp q" "0 < n" "n < 2 ^ 53"
proof -
  define n where "n = rhe (q / 2 powi ulp_exp q)"
  have q: "q = of_int n * 2 powi ulp_exp q" using assms(2) by (simp add: round_mag_def n_def)
  have "0 < n" using assms(1) q
    by (metis mult_nonpos_nonneg not_less of_int_le_0_iff powi2_pos order_less_le)
  moreover have "n < 2 ^ 53"
  proof -
    have "q < 2 powi (ilog2 q + 1)" by (rule ilog2_bounds(2)[OF assms(1)])
    also have "(2::rat) powi (ilog2 q + 1) \<le> 2 powi (ulp_exp q + int 53)"
      by (rule power_int_increasing) (auto simp: ulp_exp_def)
    also have "\<dots> = 2 powi ulp_exp q * 2 ^ 53" by (rule powi2_shift)
    finally have "of_int n * 2 powi ulp_exp q < (2 ^ 53 :: rat) * 2 powi ulp_exp q"
      using q by (simp add: mult.commute)
    then have "(of_int n :: rat) < 2 ^ 53" by (simp only: mult_less_cancel_right_pos powi2_pos)
    then have "(of_int n :: rat) < of_int (2 ^ 53)" by simp
    then show ?thesis by (simp only: of_int_less_iff)
  qed
  ultimately show thesis using that q by blast
qed

text \<open>Rounding to a unit that divides the double and is wide enough gives the double.\<close>

lemma round_mag_to:
  assumes "q = of_int N * 2 powi ulp_exp x" and "\<bar>x - q\<bar> < 2 powi ulp_exp x / 2"
  shows "round_mag x = q"
proof -
  let ?u = "(2 :: rat) powi ulp_exp x"
  have "x / ?u - of_int N = (x - q) / ?u" using assms(1) by (simp add: field_simps)
  then have "\<bar>x / ?u - of_int N\<bar> = \<bar>x - q\<bar> / ?u" by (simp add: abs_divide)
  also have "\<dots> < 1 / 2" using assms(2) by (simp add: pos_divide_less_eq)
  finally have "rhe (x / ?u) = N" by (rule rhe_close)
  then show ?thesis using assms(1) by (simp add: round_mag_def)
qed

lemma round_mag_near:
  assumes q: "0 < q" "round_mag q = q" and x: "\<bar>x - q\<bar> < q / 2 ^ 54"
  shows "round_mag x = q"
proof -
  define u where "u = ulp_exp q"
  define E where "E = ilog2 q"
  obtain n where n: "q = of_int n * 2 powi u" "0 < n" "n < 2 ^ 53"
    using round_mag_multiple[OF q] unfolding u_def by blast
  have uE: "u = max (E - 52) (- 1074)" by (simp add: u_def E_def ulp_exp_def)
  have E: "2 powi E \<le> q" "q < 2 powi (E + 1)" using ilog2_bounds[OF q(1)] by (simp_all add: E_def)
  have nb: "(of_int n :: rat) \<le> 2 ^ 53 - 1"
  proof -
    have "n \<le> 2 ^ 53 - 1" using n(3) by simp
    then have "(of_int n :: rat) \<le> of_int (2 ^ 53 - 1)" by (simp only: of_int_le_iff)
    then show ?thesis by simp
  qed
  have err: "q / 2 ^ 54 < 2 powi u / 2"
  proof -
    have "(of_int n :: rat) / 2 ^ 54 < 1 / 2" using nb by simp
    then have "of_int n / 2 ^ 54 * 2 powi u < 1 / 2 * (2 :: rat) powi u"
      by (rule mult_strict_right_mono) simp
    then show ?thesis by (simp add: n(1))
  qed
  have x0: "0 < x"
  proof -
    have "q / 2 ^ 54 \<le> q" using q(1) by simp
    then show ?thesis using x by linarith
  qed
  define v where "v = ulp_exp x"
  have v: "v = max (ilog2 x - 52) (- 1074)" by (simp add: v_def ulp_exp_def)
  have X: "2 powi (ilog2 x) \<le> x" "x < 2 powi (ilog2 x + 1)" using ilog2_bounds[OF x0] by simp_all
  have uE1: "u \<le> E"
  proof -
    have "(2 :: rat) powi u \<le> of_int n * 2 powi u" using n(2) by simp
    then have "(2 :: rat) powi u < 2 powi (E + 1)" using E(2) n(1) by linarith
    then show ?thesis using powi_two_less_cancel by fastforce
  qed
  have xE: "ilog2 x \<le> E"
  proof (rule ccontr)
    assume "\<not> ilog2 x \<le> E"
    then have "(2 :: rat) powi (E + 1) \<le> 2 powi (ilog2 x)" by (intro power_int_increasing) auto
    then have ge: "2 powi (E + 1) \<le> x" using X(1) by linarith
    have "(2 :: rat) powi (E + 1) = 2 powi u * 2 ^ nat (E + 1 - u)"
      using powi2_shift[of u "nat (E + 1 - u)"] uE1 by simp
    then have "of_int n * (2 :: rat) powi u < of_int (2 ^ nat (E + 1 - u)) * 2 powi u"
      using E(2) n(1) by (simp add: mult.commute)
    then have "(of_int n :: rat) < of_int (2 ^ nat (E + 1 - u))"
      by (simp only: mult_less_cancel_right_pos powi2_pos)
    then have "n + 1 \<le> 2 ^ nat (E + 1 - u)" by (simp only: of_int_less_iff)
    then have "of_int (n + 1) * (2 :: rat) powi u \<le> of_int (2 ^ nat (E + 1 - u)) * 2 powi u"
      by (intro mult_right_mono) (simp_all only: of_int_le_iff, simp)
    then have "q + 2 powi u \<le> 2 powi (E + 1)"
      using \<open>(2 :: rat) powi (E + 1) = _\<close> n(1) by (simp add: algebra_simps)
    then show False using ge x err powi2_pos[of u] by linarith
  qed
  have vu: "v \<le> u" using xE by (simp add: v uE)
  have N: "q = of_int (n * 2 ^ nat (u - v)) * 2 powi v"
    using powi2_shift[of v "nat (u - v)"] vu n(1) by simp
  have "2 powi u / 2 \<le> (2 :: rat) powi v / 2 \<or> q / 2 ^ 54 \<le> 2 powi v / 2"
  proof (cases "v = u")
    case False
    then have lt: "v < u" using vu by simp
    then have u: "u = E - 52" using v uE by auto
    have "ilog2 x < E" using lt v uE u by auto
    then have "(2 :: rat) powi (ilog2 x + 1) \<le> 2 powi E" by (intro power_int_increasing) auto
    then have "x < 2 powi E" using X(2) by linarith
    moreover have e52: "(2 :: rat) powi E = 2 ^ 52 * 2 powi u"
      using powi2_shift[of u 52] u by (simp add: mult.commute)
    ultimately have "q < 2 ^ 52 * 2 powi u + 2 powi u / 2" using x err by linarith
    then have "of_int n * 2 powi u < (2 ^ 52 + 1 / 2) * (2 :: rat) powi u" by (simp add: n(1) algebra_simps)
    then have "(of_int n :: rat) < 2 ^ 52 + 1 / 2" by (simp only: mult_less_cancel_right_pos powi2_pos)
    then have "(of_int n :: rat) < of_int (2 ^ 52 + 1)" by simp
    then have "n \<le> 2 ^ 52" by (simp only: of_int_less_iff)
    then have "(of_int n :: rat) \<le> of_int (2 ^ 52)" by (simp only: of_int_le_iff)
    then have "(of_int n :: rat) \<le> 2 ^ 52" by simp
    then have "q \<le> 2 powi E" using e52 n(1) by (simp add: mult_right_mono)
    then have qE: "q = 2 powi E" using E(1) by simp
    have "2 powi (E - 1) \<le> x"
    proof -
      have "q - q / 2 ^ 54 < x" using x by linarith
      moreover have "(2 :: rat) powi (E - 1) = 2 powi E / 2" by (simp add: power_int_diff)
      moreover have "q / 2 ^ 54 \<le> q / 2" using q(1) by (simp add: field_simps)
      ultimately show ?thesis using qE by linarith
    qed
    then have "(2 :: rat) powi (E - 1) < 2 powi (ilog2 x + 1)" using X(2) by linarith
    then have "E - 1 \<le> ilog2 x" using powi_two_less_cancel by fastforce
    then have "E - 53 \<le> v" using v by simp
    then have "(2 :: rat) powi (E - 53) \<le> 2 powi v" by (intro power_int_increasing) auto
    moreover have "(2 :: rat) powi E = 2 powi (E - 53) * 2 ^ 53" using powi2_shift[of "E - 53" 53] by simp
    ultimately show ?thesis using qE by simp
  qed simp
  then have "\<bar>x - q\<bar> < 2 powi v / 2" using x err by linarith
  with N show ?thesis unfolding v_def by (rule round_mag_to)
qed

lemma round_double_near:
  assumes "0 < q" "is_double q" "\<bar>x - q\<bar> < q / 2 ^ 54"
  shows "round_double x = Fin q"
proof -
  have q: "round_mag q = q" "q < 2 ^ 1024"
    using assms(1,2) by (auto simp: is_double_def round_double_pos split: if_splits)
  have "q / 2 ^ 54 \<le> q" using assms(1) by simp
  then have "0 < x" using assms(3) by linarith
  then show ?thesis using round_mag_near[OF assms(1) q(1) assms(3)] q(2) by (simp add: round_double_pos)
qed

section \<open>Seventeen digits\<close>

lemma seventeen_digits:
  assumes "0 < q" "is_double q"
  shows "shortest_try q 17 \<noteq> None"
proof -
  define e where "e = ilog 10 q - int 17 + 1"
  define m where "m = rhe (q / 10 powi e)"
  have p: "(0 :: rat) < 10 powi e" by simp
  have "\<bar>of_int m - q / 10 powi e\<bar> \<le> 1 / 2" unfolding m_def by (rule rhe_near)
  then have "\<bar>of_int m - q / 10 powi e\<bar> * 10 powi e \<le> 1 / 2 * 10 powi e"
    by (rule mult_right_mono) simp
  moreover have "\<bar>of_int m - q / 10 powi e\<bar> * 10 powi e = \<bar>of_int m * 10 powi e - q\<bar>"
  proof -
    have "\<bar>of_int m * 10 powi e - q\<bar> = \<bar>(of_int m - q / 10 powi e) * 10 powi e\<bar>"
      using p by (simp add: algebra_simps)
    then show ?thesis using p by (simp add: abs_mult)
  qed
  moreover have "10 ^ 16 * 10 powi e \<le> q"
  proof -
    have "(10 :: rat) powi (ilog 10 q) \<le> q" using ilog_bounds(1)[OF assms(1), of 10] by simp
    moreover have "(10 :: rat) powi (ilog 10 q) = 10 powi e * 10 powi 16"
      unfolding e_def by (subst power_int_add[symmetric]) simp_all
    moreover have "(10 :: rat) powi 16 = 10 ^ 16" by (simp add: power_int_def)
    ultimately show ?thesis by (simp only: mult.commute)
  qed
  ultimately have "\<bar>of_int m * 10 powi e - q\<bar> \<le> q / (2 * 10 ^ 16)" by (simp add: field_simps)
  also have "\<dots> < q / 2 ^ 54" using assms(1) by (simp add: field_simps)
  finally have "reads_as q m e" unfolding reads_as_def by (rule round_double_near[OF assms])
  then show ?thesis unfolding shortest_try_def Let_def e_def[symmetric] m_def[symmetric] by simp
qed

lemma shortest_from_found:
  "shortest_try q (n + k) \<noteq> None \<Longrightarrow> k < f \<Longrightarrow> \<exists>r. shortest_from q n f = Some r"
proof (induction f arbitrary: n k)
  case (Suc f)
  show ?case
  proof (cases "shortest_try q n")
    case None
    then obtain j where j: "k = Suc j" using Suc.prems by (cases k) auto
    then show ?thesis using Suc.IH[of "Suc n" j] Suc.prems None by simp
  qed simp
qed simp

lemma shortest_from_reads: "shortest_from q n f = Some (m, e) \<Longrightarrow> reads_as q m e"
proof (induction f arbitrary: n)
  case (Suc f)
  then show ?case
    by (auto simp: shortest_try_def Let_def split: option.splits if_splits)
qed simp

lemma shortest_reads:
  assumes "0 < q" "is_double q"
  obtains m e where "shortest q = Some (m, e)" "round_double (of_int m * 10 powi e) = Fin q" "0 < m"
proof -
  have "\<exists>r. shortest_from q 1 17 = Some r"
    using seventeen_digits[OF assms] by (intro shortest_from_found[where k = 16]) simp_all
  then obtain m e where s: "shortest q = Some (m, e)" by (auto simp: shortest_def)
  then have r: "round_double (of_int m * 10 powi e) = Fin q"
    using shortest_from_reads by (fastforce simp: shortest_def reads_as_def)
  have "0 < m"
  proof (rule ccontr)
    assume "\<not> 0 < m"
    then have "of_int m * (10 :: rat) powi e \<le> 0" by (simp add: mult_nonpos_nonneg)
    from round_double_mono[OF this] have "\<not> flt (Fin 0) (Fin q)"
      using r is_double_0 by (simp add: is_double_def)
    then show False using assms(1) by simp
  qed
  then show thesis using that s r by blast
qed

section \<open>Digit strings\<close>

lemma nat_of_digits_app: "nat_of_digits (a @ b) = nat_of_digits a * 10 ^ length b + nat_of_digits b"
proof (induction b rule: rev_induct)
  case (snoc c b)
  then show ?case by (simp add: append_assoc[symmetric] algebra_simps del: append_assoc)
qed simp

lemma zeros_Suc: "zeros (Suc n) = zeros n @ ''0''"
  by (simp add: zeros_def replicate_append_same)

lemma nat_of_digits_zeros [simp]: "nat_of_digits (zeros n) = 0"
proof (induction n)
  case (Suc n)
  then show ?case by (simp add: zeros_Suc digit_val_def)
qed (simp add: zeros_def)

lemma nat_of_digits_0 [simp]: "nat_of_digits (CHR ''0'' # s) = nat_of_digits s"
  by (simp add: nat_of_digits_def digit_val_def)

lemma length_zeros [simp]: "length (zeros n) = n"
  by (simp add: zeros_def)

lemma is_digit_0 [simp]: "is_digit (CHR ''0'')"
  by (simp add: is_digit_def)

lemma zeros_digits: "\<forall>c \<in> set (zeros n). is_digit c"
  by (simp add: zeros_def)

lemma strip_zeros_split: "\<exists>j. s = strip_zeros s @ zeros j"
proof -
  let ?z = "takeWhile (\<lambda>c. c = CHR ''0'') (rev s)"
  have "?z = replicate (length ?z) (CHR ''0'')"
    by (rule replicate_length_same[symmetric]) (auto dest: set_takeWhileD)
  then have "rev ?z = zeros (length ?z)" by (metis rev_replicate zeros_def)
  moreover have "s = rev (dropWhile (\<lambda>c. c = CHR ''0'') (rev s)) @ rev ?z"
    by (metis rev_append rev_rev_ident takeWhile_dropWhile_id)
  ultimately show ?thesis unfolding strip_zeros_def by metis
qed

lemma str_of_nat_hd: "0 < n \<Longrightarrow> hd (str_of_nat n) \<noteq> CHR ''0''"
proof (induction n rule: str_of_nat.induct)
  case (1 n)
  show ?case
  proof (cases "n < 10")
    case True
    have "digit_char n \<noteq> CHR ''0''"
      using 1(2) digit_val_digit_char[OF True] by (auto simp: digit_val_def)
    then show ?thesis using True by (simp add: str_of_nat.simps[of n])
  next
    case False
    then have "hd (str_of_nat (n div 10)) \<noteq> CHR ''0''" using 1 by simp
    then show ?thesis using False by (simp add: str_of_nat.simps[of n])
  qed
qed

text \<open>The digits that \<open>repr\<close> prints for a positive number, and what they are worth.\<close>

lemma stripped_digits:
  assumes "0 < m"
  obtains j where "strip_zeros (str_of_nat m) \<noteq> []" "\<forall>c \<in> set (strip_zeros (str_of_nat m)). is_digit c"
    "hd (strip_zeros (str_of_nat m)) \<noteq> CHR ''0''"
    "length (str_of_nat m) = length (strip_zeros (str_of_nat m)) + j"
    "m = nat_of_digits (strip_zeros (str_of_nat m)) * 10 ^ j"
proof -
  let ?d = "strip_zeros (str_of_nat m)"
  obtain j where j: "str_of_nat m = ?d @ zeros j" using strip_zeros_split by blast
  have ne: "?d \<noteq> []"
  proof
    assume "?d = []"
    then have "str_of_nat m = zeros j" using j by simp
    then have "m = 0" by (metis nat_of_digits_str_of_nat nat_of_digits_zeros)
    then show False using assms by simp
  qed
  have "m = nat_of_digits (?d @ zeros j)" using j by (metis nat_of_digits_str_of_nat)
  then have "m = nat_of_digits ?d * 10 ^ j" by (simp add: nat_of_digits_app)
  moreover have "hd ?d \<noteq> CHR ''0''" using str_of_nat_hd[OF assms] j ne by (metis hd_append2)
  moreover have "\<forall>c \<in> set ?d. is_digit c" using str_of_nat_digits[of m] j by (metis Un_iff set_append)
  moreover have "length (str_of_nat m) = length ?d + j" by (subst j) simp
  ultimately show thesis using that ne by blast
qed

section \<open>Reading a decimal text\<close>

definition point :: "string \<Rightarrow> string" where
  "point fd = (if fd = [] then [] else CHR ''.'' # fd)"

definition expo :: "int option \<Rightarrow> string" where
  "expo x = (case x of None \<Rightarrow> [] | Some e \<Rightarrow> CHR ''e'' # exponent_text e)"

abbreviation digits :: "string \<Rightarrow> bool" where
  "digits s \<equiv> \<forall>c \<in> set s. is_digit c"

lemma takeWhile_digits:
  assumes "digits a" and "r = [] \<or> \<not> is_digit (hd r)"
  shows "takeWhile is_digit (a @ r) = a" "dropWhile is_digit (a @ r) = r"
  using assms by (cases r; auto simp: takeWhile_append2 dropWhile_append2)+

lemma is_digit_letters [simp]: "\<not> is_digit CHR ''e''" "\<not> is_digit CHR ''.''" "\<not> is_digit CHR ''+''"
  by (simp_all add: is_digit_def)

lemma exponent_digits:
  obtains ds where "exponent_text e = (if e < 0 then CHR ''-'' else CHR ''+'') # ds" "ds \<noteq> []"
    "digits ds" "nat_of_digits ds = nat \<bar>e\<bar>"
proof
  let ?d = "(if \<bar>e\<bar> < 10 then ''0'' else []) @ str_of_nat (nat \<bar>e\<bar>)"
  show "exponent_text e = (if e < 0 then CHR ''-'' else CHR ''+'') # ?d"
    by (simp add: exponent_text_def)
  show "?d \<noteq> []" by simp
  show "digits ?d" using str_of_nat_digits[of "nat \<bar>e\<bar>"] by auto
  show "nat_of_digits ?d = nat \<bar>e\<bar>" by (cases "\<bar>e\<bar> < 10") simp_all
qed

lemma parse_exponent_expo: "parse_exponent (expo x) = Some (case x of None \<Rightarrow> 0 | Some e \<Rightarrow> e)"
proof (cases x)
  case (Some e)
  obtain ds where ds: "exponent_text e = (if e < 0 then CHR ''-'' else CHR ''+'') # ds" "ds \<noteq> []"
    "digits ds" "nat_of_digits ds = nat \<bar>e\<bar>"
    by (rule exponent_digits)
  then have "split_sign (exponent_text e) = (e < 0, ds)" by (simp add: split_sign_def)
  then show ?thesis
    using Some ds by (simp add: expo_def parse_exponent_def list_all_iff)
qed (simp add: expo_def parse_exponent_def)

lemma expo_hd: "expo x = [] \<or> (\<not> is_digit (hd (expo x)) \<and> hd (expo x) \<noteq> CHR ''.'')"
  by (simp add: expo_def split: option.splits)

lemma parse_decimal_parts:
  assumes "digits ip" "digits fd" "ip \<noteq> []"
  shows "parse_decimal (ip @ point fd @ expo x) =
    Some (of_nat (nat_of_digits (ip @ fd)) * 10 powi ((case x of None \<Rightarrow> 0 | Some e \<Rightarrow> e) - int (length fd)))"
proof (cases "fd = []")
  case True
  have t: "takeWhile is_digit (ip @ expo x) = ip" "dropWhile is_digit (ip @ expo x) = expo x"
    using takeWhile_digits[OF assms(1)] expo_hd[of x] by blast+
  have "(case expo x of [] \<Rightarrow> ([], []) | c # r \<Rightarrow> if c = CHR ''.'' then (takeWhile is_digit r, dropWhile is_digit r)
      else ([], expo x)) = ([], expo x)"
    using expo_hd[of x] by (cases "expo x") auto
  then show ?thesis
    using True assms(3) parse_exponent_expo[of x] by (simp add: parse_decimal_def point_def Let_def t)
next
  case False
  have "takeWhile is_digit (ip @ point fd @ expo x) = ip"
    "dropWhile is_digit (ip @ point fd @ expo x) = CHR ''.'' # fd @ expo x"
    using takeWhile_digits[OF assms(1), of "CHR ''.'' # fd @ expo x"] False by (simp_all add: point_def)
  moreover have "takeWhile is_digit (fd @ expo x) = fd" "dropWhile is_digit (fd @ expo x) = expo x"
    using takeWhile_digits[OF assms(2)] expo_hd[of x] by blast+
  ultimately show ?thesis
    using assms(3) parse_exponent_expo[of x] by (simp add: parse_decimal_def Let_def)
qed

text \<open>The layout of \<open>repr\<close> is such a text, with a fraction or an exponent, worth the decimal.\<close>

lemma layout_parts:
  assumes ds: "ds \<noteq> []" "digits ds" "hd ds \<noteq> CHR ''0''"
  obtains ip fd x where "layout_repr ds decpt = ip @ point fd @ expo x" "digits ip" "digits fd"
    "ip = ''0'' \<or> (ip \<noteq> [] \<and> hd ip \<noteq> CHR ''0'')" "fd \<noteq> [] \<or> x \<noteq> None"
    "of_nat (nat_of_digits (ip @ fd)) * 10 powi ((case x of None \<Rightarrow> 0 | Some e \<Rightarrow> e) - int (length fd)) =
       (of_nat (nat_of_digits ds) * 10 powi (decpt - int (length ds)) :: rat)"
proof (cases "- 4 < decpt \<and> decpt \<le> 16")
  case fixed: True
  show thesis
  proof (cases "decpt \<le> 0")
    case True
    let ?fd = "zeros (nat (- decpt)) @ ds"
    have "nat_of_digits (''0'' @ ?fd) = nat_of_digits ds"
      by (simp add: nat_of_digits_app)
    then show thesis
      using that[of "''0''" ?fd None] fixed True ds zeros_digits
      by (auto simp: layout_repr_def point_def expo_def)
  next
    case pos: False
    show thesis
    proof (cases "int (length ds) \<le> decpt")
      case True
      let ?z = "nat decpt - length ds"
      have "nat_of_digits ((ds @ zeros ?z) @ ''0'') = nat_of_digits ds * 10 ^ Suc ?z"
        by (simp add: nat_of_digits_app)
      moreover have "(10 :: rat) powi (decpt - int (length ds)) = 10 ^ ?z"
        using True by (simp add: power_int_def nat_diff_distrib)
      ultimately show thesis
        using that[of "ds @ zeros ?z" "''0''" None] fixed pos True ds zeros_digits
        by (auto simp: layout_repr_def point_def expo_def power_int_minus)
    next
      case False
      have "take (nat decpt) ds \<noteq> []" "hd (take (nat decpt) ds) = hd ds" using pos ds(1) by auto
      moreover have "digits (take (nat decpt) ds)" "digits (drop (nat decpt) ds)"
        using ds(2) by (meson in_set_takeD in_set_dropD)+
      moreover have "drop (nat decpt) ds \<noteq> []" using False pos by (simp add: not_le)
      moreover have "- int (length (drop (nat decpt) ds)) = decpt - int (length ds)"
        using False pos by (simp add: nat_diff_distrib) 
      ultimately show thesis
        using that[of "take (nat decpt) ds" "drop (nat decpt) ds" None] fixed pos False ds
        by (simp add: layout_repr_def point_def expo_def)
    qed
  qed
next
  case False
  have "digits (take 1 ds)" "digits (drop 1 ds)" using ds(2) by (meson in_set_takeD in_set_dropD)+
  moreover have "take 1 ds \<noteq> []" "hd (take 1 ds) = hd ds" using ds(1) by auto
  moreover have "int (length (drop 1 ds)) = int (length ds) - 1" using ds(1) by (cases ds) auto
  ultimately show thesis
    using that[of "take 1 ds" "drop 1 ds" "Some (decpt - 1)"] False ds
    by (auto simp: layout_repr_def point_def expo_def)
qed

text \<open>What \<open>repr\<close> prints for a positive double.\<close>

lemma repr_pos_parts:
  assumes "0 < q" "is_double q"
  obtains ip fd x y where "repr_pos q = ip @ point fd @ expo x" "digits ip" "digits fd"
    "ip = ''0'' \<or> (ip \<noteq> [] \<and> hd ip \<noteq> CHR ''0'')" "fd \<noteq> [] \<or> x \<noteq> None"
    "parse_decimal (ip @ point fd @ expo x) = Some y" "round_double y = Fin q"
proof -
  obtain m e where s: "shortest q = Some (m, e)" and r: "round_double (of_int m * 10 powi e) = Fin q"
    and m: "0 < m"
    using shortest_reads[OF assms] by blast
  let ?s = "str_of_nat (nat m)" and ?d = "strip_zeros (str_of_nat (nat m))"
  have "0 < nat m" using m by simp
  then obtain j where d: "?d \<noteq> []" "digits ?d" "hd ?d \<noteq> CHR ''0''" "length ?s = length ?d + j"
    "nat m = nat_of_digits ?d * 10 ^ j"
    by (rule stripped_digits)
  from d(1-3) obtain ip fd x where l: "layout_repr ?d (e + int (length ?s)) = ip @ point fd @ expo x"
    "digits ip" "digits fd" "ip = ''0'' \<or> (ip \<noteq> [] \<and> hd ip \<noteq> CHR ''0'')" "fd \<noteq> [] \<or> x \<noteq> None"
    "of_nat (nat_of_digits (ip @ fd)) * 10 powi ((case x of None \<Rightarrow> 0 | Some e \<Rightarrow> e) - int (length fd)) =
       (of_nat (nat_of_digits ?d) * 10 powi (e + int (length ?s) - int (length ?d)) :: rat)"
    by (rule layout_parts)
  have "(of_nat (nat_of_digits ?d) :: rat) * 10 powi (e + int (length ?s) - int (length ?d)) = of_int m * 10 powi e"
  proof -
    have "e + int (length ?s) - int (length ?d) = e + int j" using d(4) by simp
    then have "(10 :: rat) powi (e + int (length ?s) - int (length ?d)) = 10 powi (e + int j)"
      by (simp only:)
    also have "\<dots> = 10 powi e * 10 ^ j" by (simp add: power_int_add)
    finally have "(10 :: rat) powi (e + int (length ?s) - int (length ?d)) = 10 powi e * 10 ^ j" .
    moreover have "(of_int m :: rat) = of_nat (nat m)" using m by simp
    moreover have "(of_nat (nat m) :: rat) = of_nat (nat_of_digits ?d) * 10 ^ j"
      by (subst d(5)) simp
    ultimately show ?thesis by (simp add: mult.assoc mult.left_commute)
  qed
  then have "round_double (of_nat (nat_of_digits (ip @ fd)) *
      10 powi ((case x of None \<Rightarrow> 0 | Some e \<Rightarrow> e) - int (length fd))) = Fin q"
    using l(6) r by simp
  moreover have "ip \<noteq> []" using l(4) by auto
  moreover have "repr_pos q = ip @ point fd @ expo x" using s l(1) by (simp add: repr_pos_def Let_def)
  ultimately show thesis
    using that[OF _ l(2-5) parse_decimal_parts[OF l(2,3)]] by blast
qed

text \<open>A number of one digit and zeros.\<close>

lemma repr_round:
  assumes "0 < d" "d < 10" "int d * 10 ^ k \<le> 2 ^ 53"
  shows "repr_pos (of_nat d * 10 ^ k) =
    layout_repr (strip_zeros (str_of_nat d)) (int k + int (length (str_of_nat d)))"
proof -
  let ?q = "of_nat d * 10 ^ k :: rat"
  have d: "(1::rat) \<le> of_nat d" "of_nat d < (10::rat)" using assms(1,2) by simp_all
  have q: "10 powi int k \<le> ?q" "?q < 10 powi (int k + 1)"
    using d by (simp_all add: power_int_add)
  have "0 < ?q" using assms(1) by simp
  from ilog_bounds[OF this, of 10] have b: "10 powi ilog 10 ?q \<le> ?q" "?q < 10 powi (ilog 10 ?q + 1)" by simp_all
  have "(10::rat) powi int k < 10 powi (ilog 10 ?q + 1)" "(10::rat) powi ilog 10 ?q < 10 powi (int k + 1)"
    using q b by linarith+
  then have i: "ilog 10 ?q = int k"
    using power_int_increasing[of "ilog 10 ?q + 1" "int k" "10::rat"] power_int_increasing[of "int k + 1" "ilog 10 ?q" "10::rat"]
    by linarith
  have "is_double (of_int (int d * 10 ^ k))" using assms(3) by (intro is_double_int) simp
  then have r: "round_double ?q = Fin ?q" by (simp add: is_double_def)
  have "?q / 10 powi int k = of_int (int d)" by simp
  then have "shortest_try ?q 1 = Some (int d, int k)"
    unfolding shortest_try_def Let_def i using r by (simp add: reads_as_def rhe_of_int[of "int d", simplified])
  then have "shortest ?q = Some (int d, int k)"
    by (simp add: shortest_def eval_nat_numeral)
  then show ?thesis by (simp add: repr_pos_def Let_def)
qed

end
