(* ===== verification/Json_Roundtrip.thy ===== *)
theory Json_Roundtrip
  imports Py_Json_Parse Py_Float_Text
begin

text \<open>
  \<open>json.loads(json.dumps(v, sort_keys=True, separators=(",", ":")))\<close>: the text of a JSON
  value parses back to the value with its dictionaries in key order. So the canonical form of
  \<open>evidence.py\<close> and the token payload of \<open>tokens.py\<close> determine the value.
\<close>

section \<open>JSON values and their normal form\<close>

fun json_val :: "pyval \<Rightarrow> bool" where
  "json_val PNone = True"
| "json_val (PBool b) = True"
| "json_val (PInt n) = (length (str_of_nat (nat \<bar>n\<bar>)) \<le> 4300)"
| "json_val (PFloat x) = (case x of Fin q \<Rightarrow> is_double q | _ \<Rightarrow> True)"
| "json_val (PStr s) = True"
| "json_val (PList xs) = list_all json_val xs"
| "json_val (PDict d) = (distinct (map fst d) \<and> list_all (is_str_key \<circ> fst) d \<and> list_all json_val (map snd d))"
| "json_val _ = False"

fun canon :: "pyval \<Rightarrow> pyval" where
  "canon (PList xs) = PList (map canon xs)"
| "canon (PDict d) = PDict (sort_key (str_key \<circ> fst) (map (\<lambda>(k, v). (k, canon v)) d))"
| "canon v = v"

definition compact :: "json_opts \<Rightarrow> bool" where
  "compact jo \<longleftrightarrow> jo_item_sep jo = '','' \<and> jo_key_sep jo = '':''"

text \<open>What may follow a value inside a text.\<close>

definition closed :: "string \<Rightarrow> bool" where
  "closed r \<longleftrightarrow> (case r of [] \<Rightarrow> True | c # _ \<Rightarrow> c = CHR '','' \<or> c = CHR '']'' \<or> c = CHR ''}'')"

lemma closed_simps [simp]:
  "closed []" "closed (CHR '','' # r)" "closed (CHR '']'' # r)" "closed (CHR ''}'' # r)"
  by (simp_all add: closed_def)

lemma closed_hd: "closed r \<Longrightarrow> r = [] \<or> (\<not> is_digit (hd r) \<and> hd r \<noteq> CHR ''.'' \<and> hd r \<noteq> CHR ''e'' \<and>
    hd r \<noteq> CHR ''E'')"
  by (cases r) (auto simp: closed_def is_digit_def)

section \<open>Strings\<close>

lemma hex_val_digit: "n < 16 \<Longrightarrow> hex_val (hex_digit n) = Some n"
  by (auto simp: hex_val_def hex_digit_def Let_def)

lemma hex4_hex2: "hex4 (CHR ''0'') (CHR ''0'') (hex_digit (of_char c div 16)) (hex_digit (of_char c mod 16))
    = Some (of_char c)"
proof -
  have "of_char c div 16 < (16 :: nat)" by (rule less_mult_imp_div_less) simp
  moreover have "hex_val CHR ''0'' = Some 0" by (simp add: hex_val_def)
  ultimately show ?thesis by (simp add: hex4_def hex_val_digit)
qed

lemma control_chars:
  "char_of (8 :: nat) = CHR 0x08" "char_of (9 :: nat) = CHR 0x09" "char_of (10 :: nat) = CHR 0x0A"
  "char_of (12 :: nat) = CHR 0x0C" "char_of (13 :: nat) = CHR 0x0D"
  by code_simp+

lemma parse_string_jchar: "parse_string (jchar a c @ s) = map_option (apfst ((#) c)) (parse_string s)"
proof -
  let ?n = "of_char c :: nat"
  have eq: "c = char_of m" if "?n = m" for m using that by auto
  consider "c = CHR 0x22 \<or> c = CHR 0x5C" | "?n \<in> {8, 9, 10, 12, 13}"
    | "c \<noteq> CHR 0x22" "c \<noteq> CHR 0x5C" "?n \<notin> {8, 9, 10, 12, 13}" "?n < 32 \<or> (a \<and> 127 \<le> ?n)"
    | "c \<noteq> CHR 0x22" "c \<noteq> CHR 0x5C" "\<not> ?n < 32" "\<not> (a \<and> 127 \<le> ?n)"
    by blast
  then show ?thesis
  proof cases
    case 1
    then show ?thesis by (auto simp: jchar_def escape_char_def)
  next
    case 2
    then show ?thesis
      using eq[of 8] eq[of 9] eq[of 10] eq[of 12] eq[of 13]
      by (auto simp: jchar_def escape_char_def Let_def control_chars)
  next
    case 3
    then have "jchar a c = [CHR 0x5C, CHR ''u'', CHR ''0'', CHR ''0''] @ hex2 c"
      by (simp add: jchar_def Let_def)
    then show ?thesis by (simp add: hex2_def Let_def hex4_hex2)
  next
    case 4
    then have "jchar a c = [c]" by (auto simp: jchar_def Let_def)
    then show ?thesis using 4 by simp
  qed
qed

lemma parse_string_text: "parse_string (concat (map (jchar a) s) @ CHR 0x22 # r) = Some (s, r)"
  by (induction s) (simp_all add: parse_string_jchar del: parse_string.simps(2), simp)

section \<open>Numbers\<close>

lemma takeWhile_closed:
  assumes "digits a" "closed r"
  shows "takeWhile is_digit (a @ r) = a" "dropWhile is_digit (a @ r) = r"
  using takeWhile_digits[OF assms(1)] closed_hd[OF assms(2)] by blast+

lemma scan_int_digits:
  assumes "digits ip" "ip = ''0'' \<or> (ip \<noteq> [] \<and> hd ip \<noteq> CHR ''0'')" "r = [] \<or> \<not> is_digit (hd r)"
  shows "scan_int (ip @ r) = Some (ip, r)"
proof (cases "ip = ''0''")
  case False
  then obtain c t where t: "ip = c # t" "c \<noteq> CHR ''0''" using assms(2) by (cases ip) auto
  then show ?thesis using takeWhile_digits[of t r] assms(1,3) by (simp add: scan_int_def)
qed (simp add: scan_int_def)

lemma scan_frac_point:
  assumes "digits fd" "r = [] \<or> (\<not> is_digit (hd r) \<and> hd r \<noteq> CHR ''.'')"
  shows "scan_frac (point fd @ r) = (point fd, r)"
proof (cases fd)
  case Nil
  then show ?thesis using assms(2) by (auto simp: scan_frac_def point_def split: list.splits)
next
  case (Cons c t)
  then show ?thesis
    using takeWhile_digits[of t r] assms by (auto simp: scan_frac_def point_def)
qed

lemma scan_exp_expo:
  assumes "closed r"
  shows "scan_exp (expo x @ r) = (expo x, r)"
proof (cases x)
  case None
  then show ?thesis using closed_hd[OF assms] by (cases r) (auto simp: scan_exp_def expo_def)
next
  case (Some e)
  obtain ds where ds: "exponent_text e = (if e < 0 then CHR ''-'' else CHR ''+'') # ds" "ds \<noteq> []" "digits ds"
    by (rule exponent_digits)
  then show ?thesis
    using takeWhile_closed[OF ds(3) assms] Some by (simp add: scan_exp_def expo_def Let_def)
qed

lemma expo_closed_hd: "closed r \<Longrightarrow> expo x @ r = [] \<or> (\<not> is_digit (hd (expo x @ r)) \<and> hd (expo x @ r) \<noteq> CHR ''.'')"
  using closed_hd[of r] by (auto simp: expo_def split: option.splits)

lemma point_hd: "r = [] \<or> \<not> is_digit (hd r) \<Longrightarrow> point fd @ r = [] \<or> \<not> is_digit (hd (point fd @ r))"
  by (auto simp: point_def)

text \<open>Numbers begin with a digit, after their sign.\<close>

definition digit_head :: "string \<Rightarrow> bool" where
  "digit_head s \<longleftrightarrow> (\<exists>c r. s = c # r \<and> is_digit c)"

lemma unsigned:
  assumes "digits ip" "ip \<noteq> []"
  shows "(case ip @ s of [] \<Rightarrow> (False, []) | c # t \<Rightarrow> if c = CHR ''-'' then (True, t) else (False, ip @ s)) = (False, ip @ s)"
  using assms by (cases ip) auto

lemma parse_number_parts:
  assumes "closed r" "digits ip" "digits fd" "ip = ''0'' \<or> (ip \<noteq> [] \<and> hd ip \<noteq> CHR ''0'')"
  shows "parse_number ((if neg then [CHR ''-''] else []) @ ip @ point fd @ expo x @ r) =
    (if fd = [] \<and> x = None then
       (if length ip \<le> 4300
        then Some (PInt (if neg then - int (nat_of_digits ip) else int (nat_of_digits ip)), r) else None)
     else (case parse_decimal (ip @ point fd @ expo x) of
         Some q \<Rightarrow> Some (PFloat (if neg then fneg (round_double q) else round_double q), r) | None \<Rightarrow> None))"
proof -
  have h: "expo x @ r = [] \<or> (\<not> is_digit (hd (expo x @ r)) \<and> hd (expo x @ r) \<noteq> CHR ''.'')"
    by (rule expo_closed_hd[OF assms(1)])
  have i: "scan_int (ip @ point fd @ expo x @ r) = Some (ip, point fd @ expo x @ r)"
    using scan_int_digits[OF assms(2,4), of "point fd @ expo x @ r"] point_hd[of "expo x @ r" fd] h by blast
  have f: "scan_frac (point fd @ expo x @ r) = (point fd, expo x @ r)"
    using scan_frac_point[OF assms(3)] h by blast
  have e: "scan_exp (expo x @ r) = (expo x, r)" by (rule scan_exp_expo[OF assms(1)])
  have ne: "point fd = [] \<longleftrightarrow> fd = []" "expo x = [] \<longleftrightarrow> x = None"
    by (auto simp: point_def expo_def split: option.splits)
  have ip: "ip \<noteq> []" using assms(4) by auto
  show ?thesis
  proof (cases neg)
    case True
    then show ?thesis
      by (cases "parse_decimal (ip @ point fd @ expo x)") (simp_all add: parse_number_def i f e ne)
  next
    case False
    then show ?thesis
      by (cases "parse_decimal (ip @ point fd @ expo x)")
        (simp_all add: parse_number_def unsigned[OF assms(2) ip] i f e ne)
  qed
qed

lemma parse_number_int:
  assumes "closed r" "length (str_of_nat (nat \<bar>n\<bar>)) \<le> 4300"
  shows "parse_number (str_of_int n @ r) = Some (PInt n, r)"
proof -
  let ?s = "str_of_nat (nat \<bar>n\<bar>)"
  have z: "?s = ''0'' \<or> (?s \<noteq> [] \<and> hd ?s \<noteq> CHR ''0'')"
  proof (cases "n = 0")
    case True
    then show ?thesis by (simp add: str_of_nat.simps digit_char_def)
  next
    case False
    then show ?thesis using str_of_nat_hd[of "nat \<bar>n\<bar>"] by simp
  qed
  have "str_of_int n = (if n < 0 then [CHR ''-''] else []) @ ?s"
    by (simp add: str_of_int_def)
  then show ?thesis
    using parse_number_parts[OF assms(1) str_of_nat_digits _ z, of "[]" "n < 0" None] assms(2)
    by (simp add: point_def expo_def)
qed

lemma parse_number_float:
  assumes "closed r" "is_double q"
  shows "parse_number (repr_float (Fin q) @ r) = Some (PFloat (Fin q), r)"
proof -
  have pos: "parse_number ((if neg then [CHR ''-''] else []) @ repr_pos p @ r) =
      Some (PFloat (if neg then Fin (- p) else Fin p), r)" if p: "0 < p" "is_double p" for p neg
  proof -
    obtain ip fd x y where "repr_pos p = ip @ point fd @ expo x" "digits ip" "digits fd"
      "ip = ''0'' \<or> (ip \<noteq> [] \<and> hd ip \<noteq> CHR ''0'')" "fd \<noteq> [] \<or> x \<noteq> None"
      "parse_decimal (ip @ point fd @ expo x) = Some y" "round_double y = Fin p"
      using p by (rule repr_pos_parts)
    then show ?thesis using parse_number_parts[OF assms(1), of ip fd neg x] by auto
  qed
  consider "q = 0" | "0 < q" | "q < 0" by linarith
  then show ?thesis
  proof cases
    case 1
    have "parse_decimal ''0.0'' = Some 0" by code_simp
    then show ?thesis
      using parse_number_parts[OF assms(1), of "''0''" "''0''" False None] 1
      by (simp add: point_def expo_def round_double_def)
  next
    case 2
    then show ?thesis using pos[of q False] assms(2) by simp
  next
    case 3
    then show ?thesis using pos[of "- q" True] assms(2) by simp
  qed
qed

section \<open>Literals\<close>

lemma strip_prefix_append: "strip_prefix p (p @ s) = Some s"
  by (simp add: strip_prefix_def)

lemma strip_prefix_hd: "p \<noteq> [] \<Longrightarrow> s \<noteq> [] \<Longrightarrow> hd p \<noteq> hd s \<Longrightarrow> strip_prefix p s = None"
  by (cases p; cases s) (auto simp: strip_prefix_def)

text \<open>A text that begins with a digit, or with a minus and a digit, is read as a number.\<close>

definition numeric :: "string \<Rightarrow> bool" where
  "numeric s \<longleftrightarrow> (\<exists>c r. s = c # r \<and> (is_digit c \<or> (c = CHR ''-'' \<and> (\<exists>d t. r = d # t \<and> is_digit d))))"

lemma numeric_append: "numeric s \<Longrightarrow> numeric (s @ t)"
  by (auto simp: numeric_def)

lemma numeric_hd:
  assumes "numeric s"
  shows "s \<noteq> []" "hd s = CHR ''-'' \<or> is_digit (hd s)" "strip_prefix ''-Infinity'' s = None"
  using assms by (auto simp: numeric_def strip_prefix_def is_digit_def)

lemma parse_literal_numeric: "numeric s \<Longrightarrow> parse_literal s = parse_number s"
proof -
  assume n: "numeric s"
  have h: "hd s \<notin> {CHR ''n'', CHR ''t'', CHR ''f'', CHR ''N'', CHR ''I''}"
    using numeric_hd(2)[OF n] by (auto simp: is_digit_def)
  have "strip_prefix p s = None" if "p \<noteq> []" "hd p \<in> {CHR ''n'', CHR ''t'', CHR ''f'', CHR ''N'', CHR ''I''}" for p
    by (rule strip_prefix_hd[OF that(1) numeric_hd(1)[OF n]]) (use that(2) h in auto)
  then show ?thesis using numeric_hd(3)[OF n] by (simp add: parse_literal_def)
qed

lemma numeric_int: "numeric (str_of_int n)"
proof -
  have d: "\<exists>c t. str_of_nat m = c # t \<and> is_digit c" for m
    using str_of_nat_digits[of m] by (cases "str_of_nat m") auto
  show ?thesis
    using d[of "nat n"] d[of "nat (- n)"] by (auto simp: str_of_int_def numeric_def)
qed

lemma numeric_float:
  assumes "is_double q"
  shows "numeric (repr_float (Fin q))"
proof -
  have pos: "\<exists>c t. repr_pos p = c # t \<and> is_digit c" if p: "0 < p" "is_double p" for p
  proof -
    obtain ip fd x y where "repr_pos p = ip @ point fd @ expo x" "digits ip" "digits fd"
      "ip = ''0'' \<or> (ip \<noteq> [] \<and> hd ip \<noteq> CHR ''0'')" "fd \<noteq> [] \<or> x \<noteq> None"
      "parse_decimal (ip @ point fd @ expo x) = Some y" "round_double y = Fin p"
      using p by (rule repr_pos_parts)
    then show ?thesis by (cases ip) auto
  qed
  consider "q = 0" | "0 < q" | "q < 0" by linarith
  then show ?thesis
  proof cases
    case 2
    then show ?thesis using pos[of q] assms by (auto simp: numeric_def)
  next
    case 3
    then show ?thesis using pos[of "- q"] assms by (auto simp: numeric_def)
  qed (simp add: numeric_def)
qed

section \<open>Values\<close>

text \<open>A text \<open>t\<close> of a value \<open>v\<close>: it starts as a value does and parses back to it anywhere.\<close>

definition text_head :: "string \<Rightarrow> bool" where
  "text_head t \<longleftrightarrow> t \<noteq> [] \<and> \<not> json_ws (hd t) \<and> hd t \<noteq> CHR '']'' \<and> hd t \<noteq> CHR ''}''"

definition text_of :: "pyval \<Rightarrow> string \<Rightarrow> bool" where
  "text_of v t \<longleftrightarrow> text_head t \<and>
     (\<forall>f r. closed r \<longrightarrow> 2 * length t + 1 \<le> f \<longrightarrow> parse_value f (t @ r) = Some (v, r))"

lemma text_ofD: "text_of v t \<Longrightarrow> closed r \<Longrightarrow> 2 * length t + 1 \<le> f \<Longrightarrow> parse_value f (t @ r) = Some (v, r)"
  by (simp add: text_of_def)

lemma skip_ws_head: "text_head t \<Longrightarrow> skip_ws (t @ s) = t @ s"
  by (cases t) (auto simp: skip_ws_def text_head_def)

lemma skip_ws_simps [simp]:
  "skip_ws (CHR '','' # s) = CHR '','' # s" "skip_ws (CHR '']'' # s) = CHR '']'' # s"
  "skip_ws (CHR ''}'' # s) = CHR ''}'' # s" "skip_ws (CHR '':'' # s) = CHR '':'' # s"
  "skip_ws (CHR 0x22 # s) = CHR 0x22 # s" "skip_ws [] = []"
  by (simp_all add: skip_ws_def json_ws_def)

text \<open>Scalars: their texts do not start like a string, a list or an object.\<close>

lemma text_of_literal:
  assumes "t \<noteq> []" "hd t \<notin> {CHR 0x22, CHR ''['', CHR ''{'', CHR '']'', CHR ''}''}" "\<not> json_ws (hd t)"
    and "\<And>r. closed r \<Longrightarrow> parse_literal (t @ r) = Some (v, r)"
  shows "text_of v t"
proof -
  obtain c s where t: "t = c # s" using assms(1) by (cases t) auto
  have "parse_value f (t @ r) = Some (v, r)" if "closed r" "2 * length t + 1 \<le> f" for f r
    using that assms(2) assms(4)[OF that(1)] t by (cases f) auto
  then show ?thesis using assms t by (simp add: text_of_def text_head_def)
qed

lemma text_of_numeric:
  assumes "numeric t" "\<And>r. closed r \<Longrightarrow> parse_number (t @ r) = Some (v, r)"
  shows "text_of v t"
proof (rule text_of_literal)
  show "t \<noteq> []" by (rule numeric_hd(1)[OF assms(1)])
  show "hd t \<notin> {CHR 0x22, CHR ''['', CHR ''{'', CHR '']'', CHR ''}''}" "\<not> json_ws (hd t)"
    using numeric_hd(2)[OF assms(1)] by (auto simp: is_digit_def json_ws_def)
  show "parse_literal (t @ r) = Some (v, r)" if "closed r" for r
    using parse_literal_numeric[OF numeric_append[OF assms(1)]] assms(2)[OF that] by simp
qed

lemma text_of_string: "text_of (PStr s) (jstring a s)"
proof -
  have "parse_value f (jstring a s @ r) = Some (PStr s, r)" if "2 * length (jstring a s) + 1 \<le> f" for f r
    using that parse_string_text[of a s r] by (cases f) (simp_all add: jstring_def)
  then show ?thesis by (simp add: text_of_def text_head_def jstring_def json_ws_def)
qed

lemma parse_items_text:
  assumes "list_all2 text_of vs ts" "ts \<noteq> []" "2 * length (join '','' ts) + 2 \<le> f"
  shows "parse_items f (join '','' ts @ CHR '']'' # r) = Some (vs, r)"
  using assms
proof (induction ts arbitrary: vs f rule: list.induct)
  case (Cons t ts)
  obtain v ws where vs: "vs = v # ws" "text_of v t" "list_all2 text_of ws ts"
    using Cons.prems(1) by (auto simp: list_all2_Cons2)
  obtain g where f: "f = Suc g" using Cons.prems(3) by (cases f) auto
  show ?case
  proof (cases ts)
    case Nil
    then show ?thesis
      using vs f Cons.prems(3) text_ofD[OF vs(2), of "CHR '']'' # r" g] by simp
  next
    case (Cons t' ts')
    have l: "2 * length t + 1 \<le> g" "2 * length (join '','' ts) + 2 \<le> g"
      using Cons.prems(3) f Cons by simp_all
    have h: "text_head t'" using vs(3) Cons by (auto simp: list_all2_Cons2 text_of_def)
    then have "text_head (join '','' ts)" using Cons by (cases ts') (auto simp: text_head_def)
    moreover have "parse_items g (join '','' ts @ CHR '']'' # r) = Some (ws, r)"
      using Cons.IH[OF vs(3) _ l(2)] Cons by simp
    ultimately show ?thesis
      using vs f Cons text_ofD[OF vs(2) _ l(1), of "CHR '','' # join '','' ts @ CHR '']'' # r"]
      by (simp add: skip_ws_head)
  qed
qed simp

text \<open>Pairs of an object.\<close>

definition pair_of :: "bool \<Rightarrow> pykey \<times> pyval \<Rightarrow> string \<Rightarrow> bool" where
  "pair_of a kv t \<longleftrightarrow> (\<exists>k u. fst kv = KStr k \<and> t = jstring a k @ '':'' @ u \<and> text_of (snd kv) u)"

lemma parse_string_after_quote:
  "jstring a k @ s = CHR 0x22 # (concat (map (jchar a) k) @ CHR 0x22 # s)"
  by (simp add: jstring_def)

lemma parse_pairs_text:
  assumes "list_all2 (pair_of a) kvs ts" "ts \<noteq> []" "2 * length (join '','' ts) + 2 \<le> f"
  shows "parse_pairs f (join '','' ts @ CHR ''}'' # r) = Some (kvs, r)"
  using assms
proof (induction ts arbitrary: kvs f rule: list.induct)
  case (Cons t ts)
  obtain kv kvs' where kvs: "kvs = kv # kvs'" "pair_of a kv t" "list_all2 (pair_of a) kvs' ts"
    using Cons.prems(1) by (auto simp: list_all2_Cons2)
  obtain k u v where u: "kv = (KStr k, v)" "t = jstring a k @ '':'' @ u" "text_of v u"
    using kvs(2) by (cases kv) (auto simp: pair_of_def)
  obtain g where f: "f = Suc g" using Cons.prems(3) by (cases f) auto
  have uh: "text_head u" using u(3) by (simp add: text_of_def)
  have lu: "2 * length u + 1 \<le> g"
    using Cons.prems(3) f u(2) by (cases ts) (simp_all add: jstring_def)
  show ?case
  proof (cases ts)
    case Nil
    have "parse_value g (u @ CHR ''}'' # r) = Some (v, CHR ''}'' # r)"
      using text_ofD[OF u(3) _ lu] by simp
    then show ?thesis
      using kvs u f Nil skip_ws_head[OF uh] by (simp add: parse_string_after_quote parse_string_text)
  next
    case (Cons t' ts')
    let ?rest = "join '','' ts @ CHR ''}'' # r"
    have l: "2 * length (join '','' ts) + 2 \<le> g" using Cons.prems(3) f Cons by simp
    have "pair_of a (hd kvs') t'" using kvs(3) Cons by (auto simp: list_all2_Cons2)
    then have "text_head t'" by (auto simp: pair_of_def text_head_def jstring_def json_ws_def)
    then have "text_head (join '','' ts)" using Cons by (cases ts') (auto simp: text_head_def)
    then have "skip_ws ?rest = ?rest" by (rule skip_ws_head)
    moreover have "parse_pairs g ?rest = Some (kvs', r)"
      using Cons.IH[OF kvs(3) _ l] Cons by simp
    moreover have "parse_value g (u @ CHR '','' # ?rest) = Some (v, CHR '','' # ?rest)"
      using text_ofD[OF u(3) _ lu] by simp
    ultimately show ?thesis
      using kvs u f Cons skip_ws_head[OF uh] by (simp add: parse_string_after_quote parse_string_text)
  qed
qed simp

lemma dict_set_fresh: "k \<notin> fst ` set d \<Longrightarrow> dict_set d k v = d @ [(k, v)]"
  by (induction d) auto

lemma foldl_dict_set:
  assumes "distinct (map fst (d @ kvs))"
  shows "foldl (\<lambda>d (k, v). dict_set d k v) d kvs = d @ kvs"
  using assms
proof (induction kvs arbitrary: d)
  case (Cons kv kvs)
  obtain k v where kv: "kv = (k, v)" by fastforce
  have "dict_set d k v = d @ [(k, v)]" using Cons.prems kv by (intro dict_set_fresh) auto
  then show ?case using Cons.IH[of "d @ [(k, v)]"] Cons.prems kv by simp
qed simp

lemma collect_list_all2: "collect (map g xs) = Inr ts \<Longrightarrow> list_all2 (\<lambda>x t. g x = Inr t) xs ts"
  by (induction xs arbitrary: ts) (auto split: sum.splits)

lemma insort_key_map: "insort_key f (g x) (map g xs) = map g (insort_key (\<lambda>x. f (g x)) x xs)"
  by (induction xs) auto

lemma sort_key_map: "sort_key f (map g xs) = map g (sort_key (\<lambda>x. f (g x)) xs)"
  by (induction xs) (simp_all add: insort_key_map)

lemma text_of_list:
  assumes "list_all2 text_of vs ts"
  shows "text_of (PList vs) (''['' @ join '','' ts @ '']'')"
proof -
  have "parse_value f ((''['' @ join '','' ts @ '']'') @ r) = Some (PList vs, r)"
    if f: "2 * length (''['' @ join '','' ts @ '']'') + 1 \<le> f" for f r
  proof -
    obtain g where g: "f = Suc g" using f by (cases f) auto
    show ?thesis
    proof (cases ts)
      case Nil
      then show ?thesis using assms g by simp
    next
      case (Cons t ts')
      have i: "parse_items g (join '','' ts @ CHR '']'' # r) = Some (vs, r)"
        using parse_items_text[OF assms] f g Cons by simp
      have h: "text_head t" using assms Cons by (auto simp: list_all2_Cons2 text_of_def)
      then obtain c s where cs: "join '','' ts = c # s" "c \<noteq> CHR '']''"
        using Cons by (cases ts'; cases t) (auto simp: text_head_def)
      moreover have "skip_ws (join '','' ts @ CHR '']'' # r) = join '','' ts @ CHR '']'' # r"
        using h Cons by (intro skip_ws_head) (cases ts'; auto simp: text_head_def)
      ultimately have "skip_ws (c # s @ CHR '']'' # r) = c # s @ CHR '']'' # r" by simp
      moreover have "parse_items g (c # s @ CHR '']'' # r) = Some (vs, r)" using i cs by simp
      ultimately show ?thesis using g cs(2) by (simp add: cs(1))
    qed
  qed
  then show ?thesis by (simp add: text_of_def text_head_def json_ws_def)
qed

lemma join_head: "text_head t \<Longrightarrow> text_head (join '','' (t # ts))"
  by (cases ts) (auto simp: text_head_def)

lemma text_head_cons: "text_head t \<Longrightarrow> \<exists>c s. t = c # s \<and> c \<noteq> CHR '']'' \<and> c \<noteq> CHR ''}''"
  by (cases t) (auto simp: text_head_def)

lemma pair_head: "pair_of a kv t \<Longrightarrow> text_head t"
  by (auto simp: pair_of_def text_head_def jstring_def json_ws_def)

lemma text_of_dict:
  assumes "list_all2 (pair_of a) kvs ts" "distinct (map fst kvs)"
  shows "text_of (PDict kvs) (''{'' @ join '','' ts @ ''}'')"
proof -
  have "parse_value f ((''{'' @ join '','' ts @ ''}'') @ r) = Some (PDict kvs, r)"
    if f: "2 * length (''{'' @ join '','' ts @ ''}'') + 1 \<le> f" for f r
  proof -
    obtain g where g: "f = Suc g" using f by (cases f) auto
    show ?thesis
    proof (cases ts)
      case Nil
      then show ?thesis using assms(1) g by simp
    next
      case (Cons t ts')
      have i: "parse_pairs g (join '','' ts @ CHR ''}'' # r) = Some (kvs, r)"
        using parse_pairs_text[OF assms(1)] f g Cons by simp
      have "text_head t" using assms(1) Cons pair_head by (auto simp: list_all2_Cons2)
      then have h: "text_head (join '','' ts)" using Cons join_head by simp
      obtain c s where cs: "join '','' ts = c # s" "c \<noteq> CHR ''}''"
        using text_head_cons[OF h] by blast
      have "skip_ws (c # s @ CHR ''}'' # r) = c # s @ CHR ''}'' # r"
        using skip_ws_head[OF h, of "CHR ''}'' # r"] cs(1) by simp
      moreover have "parse_pairs g (c # s @ CHR ''}'' # r) = Some (kvs, r)" using i cs by simp
      moreover have "foldl (\<lambda>d (k, v). dict_set d k v) [] kvs = kvs"
        using foldl_dict_set[of "[]" kvs] assms(2) by simp
      ultimately show ?thesis using g cs(2) by (simp add: cs(1))
    qed
  qed
  then show ?thesis by (simp add: text_of_def text_head_def json_ws_def)
qed

lemma numeric_head: "numeric t \<Longrightarrow> t \<noteq> []"
  by (auto simp: numeric_def)

lemma text_of_word:
  assumes "p = ''null'' \<and> v = PNone \<or> p = ''true'' \<and> v = PBool True \<or> p = ''false'' \<and> v = PBool False \<or>
    p = ''NaN'' \<and> v = PFloat NaN \<or> p = ''Infinity'' \<and> v = PFloat PosInf \<or> p = ''-Infinity'' \<and> v = PFloat NegInf"
  shows "text_of v p"
  using assms
  by (elim disjE conjE; intro text_of_literal; simp add: json_ws_def parse_literal_def strip_prefix_def)

lemma list_all2_collect:
  assumes "collect (map g xs) = Inr ts" "\<And>x t. x \<in> set xs \<Longrightarrow> g x = Inr t \<Longrightarrow> P (h x) t"
  shows "list_all2 P (map h xs) ts"
  using collect_list_all2[OF assms(1)] assms(2)
  by (auto simp: list_all2_conv_all_nth)

lemma map_fst_pairs: "map fst (map (\<lambda>(k, v). (k, g v)) d) = map fst d"
  by (simp add: comp_def case_prod_beta)

fun scalar :: "pyval \<Rightarrow> bool" where
  "scalar (PList xs) = False"
| "scalar (PDict d) = False"
| "scalar v = True"

lemma dumps_text_scalar:
  assumes "scalar v" "json_val v" "dumps jo v = Inr t"
  shows "text_of (canon v) t"
proof (cases v)
  case (PBool b)
  then show ?thesis using assms by (cases b) (auto intro!: text_of_word simp: jbool_def)
next
  case (PInt n)
  then have "t = str_of_int n" "length (str_of_nat (nat \<bar>n\<bar>)) \<le> 4300"
    using assms by (auto simp: jint_def split: if_splits)
  then show ?thesis using PInt numeric_int parse_number_int by (auto intro!: text_of_numeric)
next
  case (PFloat x)
  then show ?thesis
  proof (cases x)
    case (Fin q)
    then show ?thesis
      using PFloat assms numeric_float[of q] parse_number_float by (auto intro!: text_of_numeric)
  qed (use PFloat assms in \<open>auto intro!: text_of_word\<close>)
qed (use assms in \<open>auto intro!: text_of_word text_of_string\<close>)

text \<open>A dumped value is a text of its normal form.\<close>

theorem dumps_text: "compact jo \<Longrightarrow> json_val v \<Longrightarrow> dumps jo v = Inr t \<Longrightarrow> text_of (canon v) t"
proof (induction v arbitrary: t rule: canon.induct)
  case (1 xs)
  then obtain ts where ts: "collect (map (dumps jo) xs) = Inr ts" "t = ''['' @ join '','' ts @ '']''"
    by (auto simp: dump_items_def compact_def split: sum.splits)
  have "list_all2 text_of (map canon xs) ts"
    using ts(1) 1 by (intro list_all2_collect[where g = "dumps jo"]) (auto simp: list_all_iff)
  then show ?case using text_of_list ts(2) by simp
next
  case (2 d)
  let ?f = "\<lambda>(k, v). (k, dumps jo v)" and ?n = "\<lambda>(k, v). (k, canon v)"
  let ?s = "sort_key (str_key \<circ> fst) d"
  have d: "distinct (map fst d)" "list_all (is_str_key \<circ> fst) d" "list_all json_val (map snd d)"
    using "2.prems"(2) by simp_all
  have k: "(\<lambda>x. (str_key \<circ> fst) (?f x)) = str_key \<circ> fst" "(\<lambda>x. (str_key \<circ> fst) (?n x)) = str_key \<circ> fst"
    by auto
  have s: "sort_items (map ?f d) = Inr (map ?f ?s)"
    using d(2) by (simp add: sort_items_def list_all_iff sort_key_map comp_def case_prod_beta)
  have n: "canon (PDict d) = PDict (map ?n ?s)"
    by (simp add: sort_key_map comp_def case_prod_beta)
  obtain ts where ts: "collect (map (\<lambda>x. dump_pair jo (?f x)) ?s) = Inr ts" "t = ''{'' @ join '','' ts @ ''}''"
    using "2.prems"(1,3) s by (auto simp: dump_dict_def compact_def comp_def split: sum.splits)
  have "list_all2 (pair_of (jo_ascii jo)) (map ?n ?s) ts"
  proof (rule list_all2_collect[OF ts(1)])
    fix x u
    assume x: "x \<in> set ?s" and u: "dump_pair jo (?f x) = Inr u"
    then have m: "x \<in> set d" by simp
    have "is_str_key (fst x)" using m d(2) by (auto simp: list_all_iff)
    then obtain k v where kv: "x = (KStr k, v)" by (cases x; cases "fst x") auto
    obtain w where w: "dumps jo v = Inr w" "u = jstring (jo_ascii jo) k @ '':'' @ w"
      using u kv "2.prems"(1) by (auto simp: dump_pair_def compact_def split: sum.splits)
    have "json_val v" using d(3) m kv by (auto simp: list_all_iff)
    then have "text_of (canon v) w" using "2.IH"[OF m _ "2.prems"(1)] kv w(1) by simp
    then show "pair_of (jo_ascii jo) (?n x) u" using kv w(2) by (simp add: pair_of_def)
  qed
  moreover have "distinct (map fst (map ?n ?s))"
    unfolding map_fst_pairs using d(1) by (simp add: distinct_map)
  ultimately show ?case using text_of_dict n ts(2) by simp
qed (rule dumps_text_scalar; simp)+

section \<open>Whole texts\<close>

lemma utf8_roundtrip: "utf8_decode (utf8 s) = Some s"
proof (induction s)
  case (Cons c s)
  let ?n = "of_char c :: nat"
  show ?case
  proof (cases "?n < 128")
    case True
    then show ?thesis using Cons.IH by (simp add: utf8_def utf8_char_def)
  next
    case False
    have lt: "?n < 256" by (rule nat_of_char_less_256)
    have "?n div 64 < 4" using lt by (simp add: div_less_iff_less_mult)
    moreover have "2 \<le> ?n div 64" using False by auto
    ultimately have d: "?n div 64 = 2 \<or> ?n div 64 = 3" by linarith
    have h: "of_char (char_of (192 + ?n div 64) :: char) = (192 + ?n div 64 :: nat)"
      "of_char (char_of (128 + ?n mod 64) :: char) = (128 + ?n mod 64 :: nat)"
      using d by (auto simp: of_char_of less_trans[OF mod_less_divisor])
    have "?n mod 64 < 64" by simp
    moreover have "?n div 64 * 64 + ?n mod 64 = ?n" by simp
    ultimately show ?thesis
      using Cons.IH False d h by (auto simp: utf8_def utf8_char_def Let_def)
  qed
qed (simp add: utf8_def)

lemma text_of_parse:
  assumes "text_of v t"
  shows "json_parse t = Some v"
proof -
  have "skip_ws t = t" using skip_ws_head[of t "[]"] assms by (simp add: text_of_def)
  then show ?thesis
    using text_ofD[OF assms, of "[]" "2 * length t + 2"] by (simp add: json_parse_def)
qed

lemma json_loads_utf8:
  assumes "t = [] \<or> of_char (hd t) < (128 :: nat)"
  shows "json_loads (utf8 t) = json_parse t"
proof -
  have "take 3 (utf8 t) \<noteq> [CHR 0xEF, CHR 0xBB, CHR 0xBF]"
  proof (cases t)
    case (Cons c s)
    then have "utf8 t = c # utf8 s" "c \<noteq> CHR 0xEF"
      using assms by (auto simp: utf8_def utf8_char_def)
    then show ?thesis by simp
  qed (simp add: utf8_def)
  then show ?thesis by (simp add: json_loads_def utf8_roundtrip)
qed

text \<open>Serialisation of a JSON value succeeds, and depends on its normal form only.\<close>

lemma dumps_json_val_ok: "json_val v \<Longrightarrow> \<exists>t. dumps jo v = Inr t"
proof (induction v rule: canon.induct)
  case (1 xs)
  then obtain ts where "collect (map (dumps jo) xs) = Inr ts"
    using collect_ok[of "map (dumps jo) xs"] by (auto simp: list_all_iff)
  then show ?case by (simp add: dump_items_def)
next
  case (2 d)
  let ?d = "map (\<lambda>(k, v). (k, dumps jo v)) d"
  have s: "list_all (is_str_key \<circ> fst) ?d" using "2.prems" by (auto simp: list_all_iff)
  have "\<exists>t. snd kv = Inr t" if kv: "kv \<in> set ?d" for kv
  proof -
    obtain k v where "(k, v) \<in> set d" "kv = (k, dumps jo v)" using kv by auto
    then show ?thesis using "2.IH"[of "(k, v)" k v] "2.prems" by (auto simp: list_all_iff)
  qed
  then show ?case using dump_dict_ok[OF s] by simp
qed (auto simp: jint_def)

lemma dumps_norm: "json_val v \<Longrightarrow> dumps jo (canon v) = dumps jo v"
proof (induction v rule: canon.induct)
  case (1 xs)
  then have "map (dumps jo) (map canon xs) = map (dumps jo) xs" by (auto simp: list_all_iff)
  then show ?case by (simp only: canon.simps dumps.simps)
next
  case (2 d)
  let ?d = "map (\<lambda>(k, v). (k, canon v)) d"
  have dd: "distinct (map fst ?d)" unfolding map_fst_pairs using "2.prems" by simp
  have "dumps jo (canon (PDict d)) = dumps jo (PDict ?d)"
  proof (unfold canon.simps, rule dumps_dict_perm)
    show "distinct (map fst (sort_key (str_key \<circ> fst) ?d))"
      using dd by (simp only: distinct_map distinct_sort set_sort)
    show "list_all (is_str_key \<circ> fst) (sort_key (str_key \<circ> fst) ?d)"
      using 2 by (auto simp: list_all_iff)
  qed simp
  also have "map (\<lambda>(k, v). (k, dumps jo v)) ?d = map (\<lambda>(k, v). (k, dumps jo v)) d"
    using 2 by (auto simp: list_all_iff)
  then have "dumps jo (PDict ?d) = dumps jo (PDict d)" by (simp only: dumps.simps)
  finally show ?case .
qed simp_all

theorem dumps_eq_iff:
  assumes "compact jo" "json_val v" "json_val v'"
  shows "dumps jo v = dumps jo v' \<longleftrightarrow> canon v = canon v'"
proof
  assume e: "dumps jo v = dumps jo v'"
  obtain t where t: "dumps jo v = Inr t" using dumps_json_val_ok[OF assms(2)] by blast
  have "text_of (canon v) t" "text_of (canon v') t"
    using dumps_text[OF assms(1,2)] dumps_text[OF assms(1,3)] t e by simp_all
  then show "canon v = canon v'" by (auto dest!: text_of_parse)
next
  assume "canon v = canon v'"
  then show "dumps jo v = dumps jo v'" using dumps_norm assms(2,3) by metis
qed

text \<open>The text of a value starts with an ASCII character, so it is not taken for a byte order mark.\<close>

lemma parse_literal_high:
  assumes "128 \<le> (of_char c :: nat)"
  shows "parse_literal (c # s) = None"
proof -
  have h: "c \<noteq> d" if "of_char d < (128 :: nat)" for d using assms that by auto
  have "strip_prefix p (c # s) = None" if "p \<noteq> []" "of_char (hd p) < (128 :: nat)" for p
    using h[OF that(2)] by (intro strip_prefix_hd[OF that(1)]) simp_all
  moreover have "c \<noteq> CHR ''-''" "c \<noteq> CHR ''0''" by (rule h; simp)+
  moreover have "\<not> is_digit c" using assms by (auto simp: is_digit_def)
  ultimately show ?thesis by (simp add: parse_literal_def parse_number_def scan_int_def)
qed

lemma text_of_head_ascii:
  assumes "text_of v t"
  shows "of_char (hd t) < (128 :: nat)"
proof (rule ccontr)
  assume "\<not> ?thesis"
  then have h: "128 \<le> (of_char (hd t) :: nat)" by simp
  obtain c s where t: "t = c # s" using assms by (cases t) (auto simp: text_of_def text_head_def)
  have "c \<noteq> CHR 0x22" "c \<noteq> CHR ''[''" "c \<noteq> CHR ''{''" using h t by auto
  then have "parse_value (Suc (2 * length t)) t = None"
    using parse_literal_high[of c s] h t by simp
  then show False using text_ofD[OF assms, of "[]" "Suc (2 * length t)"] by simp
qed

theorem json_loads_dumps:
  assumes "compact jo" "json_val v" "dumps jo v = Inr t"
  shows "json_loads (utf8 t) = Some (canon v)"
  using dumps_text[OF assms] json_loads_utf8[of t] text_of_parse text_of_head_ascii by simp

end
