(* ===== verification/Token_Wire.thy ===== *)
theory Token_Wire
  imports Tokens Json_Roundtrip
begin

text \<open>
  The wire form of a token (\<open>AuthorizationToken.to_wire\<close>, \<open>from_wire\<close> in
  \<open>tokens.py\<close>): the JSON payload in URL-safe Base64, a dot, the signature. Decoding follows
  the lenient \<open>binascii.a2b_base64\<close>, which skips foreign characters.
\<close>

section \<open>Base64\<close>

definition b64_char :: "nat \<Rightarrow> char" where
  "b64_char n = (if n < 26 then char_of (65 + n) else if n < 52 then char_of (71 + n)
     else if n < 62 then char_of (n - 4) else if n = 62 then CHR ''-'' else CHR ''_'')"

fun b64encode :: "string \<Rightarrow> string" where
  "b64encode [] = []"
| "b64encode [a] = (let x = of_char a :: nat in
     [b64_char (x div 4), b64_char (x mod 4 * 16), CHR ''='', CHR ''=''])"
| "b64encode [a, b] = (let x = of_char a :: nat; y = of_char b in
     [b64_char (x div 4), b64_char (x mod 4 * 16 + y div 16), b64_char (y mod 16 * 4), CHR ''=''])"
| "b64encode (a # b # c # r) = (let x = of_char a :: nat; y = of_char b; z = of_char c in
     [b64_char (x div 4), b64_char (x mod 4 * 16 + y div 16), b64_char (y mod 16 * 4 + z div 64),
      b64_char (z mod 64)] @ b64encode r)"

text \<open>
  The table after \<open>-\<close> and \<open>_\<close> are translated to \<open>+\<close> and \<open>/\<close>, which are accepted too.
\<close>

definition b64_val :: "char \<Rightarrow> nat option" where
  "b64_val c = (let n = of_char c :: nat in
     if 65 \<le> n \<and> n \<le> 90 then Some (n - 65)
     else if 97 \<le> n \<and> n \<le> 122 then Some (n - 71)
     else if 48 \<le> n \<and> n \<le> 57 then Some (n + 4)
     else if c = CHR ''-'' \<or> c = CHR ''+'' then Some 62
     else if c = CHR ''_'' \<or> c = CHR ''/'' then Some 63 else None)"

text \<open>State: position in the quadruple, bits left over, padding characters seen.\<close>

fun a2b :: "nat \<Rightarrow> nat \<Rightarrow> nat \<Rightarrow> string \<Rightarrow> string option" where
  "a2b pos left pads [] = (if pos = 0 then Some [] else None)"
| "a2b pos left pads (c # cs) =
    (if c = CHR ''='' then
       (if 2 \<le> pos then (if 4 \<le> pos + (pads + 1) then Some [] else a2b pos left (pads + 1) cs)
        else a2b pos left pads cs)
     else (case b64_val c of
         None \<Rightarrow> a2b pos left pads cs
       | Some v \<Rightarrow>
          (if pos = 0 then a2b 1 v 0 cs
           else if pos = 1 then map_option ((#) (char_of (left * 4 + v div 16))) (a2b 2 (v mod 16) 0 cs)
           else if pos = 2 then map_option ((#) (char_of (left * 16 + v div 4))) (a2b 3 (v mod 4) 0 cs)
           else map_option ((#) (char_of (left * 64 + v))) (a2b 0 0 0 cs))))"

definition b64decode :: "string \<Rightarrow> string option" where
  "b64decode s = a2b 0 0 0 s"

section \<open>The wire\<close>

definition to_wire :: "authorization_token \<Rightarrow> pyexc + string" where
  "to_wire t = (case dumps token_opts (token_payload t) of Inl e \<Rightarrow> Inl e
     | Inr raw \<Rightarrow> Inr (b64encode (utf8 raw) @ ''.'' @ at_signature t))"

text \<open>\<open>wire.rsplit(".", 1)\<close>; None when there is no dot and the unpacking fails.\<close>

definition rsplit_dot :: "string \<Rightarrow> (string \<times> string) option" where
  "rsplit_dot s = (if CHR ''.'' \<in> set s
     then Some (rev (tl (dropWhile (\<lambda>c. c \<noteq> CHR ''.'') (rev s))), rev (takeWhile (\<lambda>c. c \<noteq> CHR ''.'') (rev s)))
     else None)"

text \<open>\<open>payload[key]\<close>: \<open>KeyError\<close>, or \<open>TypeError\<close> when the payload is no dictionary.\<close>

definition field :: "pyval \<Rightarrow> string \<Rightarrow> exn + pyval" where
  "field payload key = (case payload of
     PDict d \<Rightarrow> (case dict_get d (KStr key) of Some v \<Rightarrow> Inr v
        | None \<Rightarrow> Inl (Foreign (PyExc ''KeyError'' (repr_str key)) True))
   | _ \<Rightarrow> Inl (Foreign (PyExc ''TypeError'' ''payload is not a dictionary'') True))"

definition field_or_None :: "pyval \<Rightarrow> string \<Rightarrow> pyval" where
  "field_or_None payload key = (case payload of
     PDict d \<Rightarrow> (case dict_get d (KStr key) of Some v \<Rightarrow> v | None \<Rightarrow> PNone) | _ \<Rightarrow> PNone)"

definition decode_payload :: "string \<Rightarrow> pyval option" where
  "decode_payload encoded = (if ascii encoded then Option.bind (b64decode encoded) json_loads else None)"

definition from_wire :: "string \<Rightarrow> exn + authorization_token" where
  "from_wire wire =
    (case rsplit_dot wire of
       None \<Rightarrow> Inl (TokenInvalid ''Malformed token'')
     | Some (encoded, signature) \<Rightarrow>
        (case decode_payload encoded of
           None \<Rightarrow> Inl (TokenInvalid ''Malformed token'')
         | Some payload \<Rightarrow>
            (case field payload ''token_id'' of Inl e \<Rightarrow> Inl e | Inr tid \<Rightarrow>
            (case field payload ''agent_name'' of Inl e \<Rightarrow> Inl e | Inr agent \<Rightarrow>
            (case field payload ''tool_name'' of Inl e \<Rightarrow> Inl e | Inr tool \<Rightarrow>
            (case field payload ''issued_at'' of Inl e \<Rightarrow> Inl e | Inr issued \<Rightarrow>
            (case field payload ''expires_at'' of Inl e \<Rightarrow> Inl e | Inr expires \<Rightarrow>
               Inr \<lparr>at_token_id = tid, at_agent_name = agent, at_tool_name = tool,
                 at_operation = field_or_None payload ''operation'', at_issued_at = issued,
                 at_expires_at = expires, at_signature = signature\<rparr>)))))))"

section \<open>Base64 round trip\<close>

lemma b64_val_char: "n < 64 \<Longrightarrow> b64_val (b64_char n) = Some n"
  by (auto simp: b64_val_def b64_char_def Let_def)

lemma b64_char_not_pad: "n < 64 \<Longrightarrow> b64_char n \<noteq> CHR ''=''"
  using b64_val_char[of n] by (auto simp: b64_val_def Let_def)

lemma b64_char_ascii: "n < 64 \<Longrightarrow> of_char (b64_char n) < (128 :: nat)"
  by (auto simp: b64_char_def)

lemma char_lt: "of_char (c :: char) < (256 :: nat)"
  using nat_of_char_less_256 .

lemma a2b_step [simp]:
  "n < 64 \<Longrightarrow> a2b 0 l p (b64_char n # cs) = a2b 1 n 0 cs"
  "n < 64 \<Longrightarrow> a2b (Suc 0) l p (b64_char n # cs) =
     map_option ((#) (char_of (l * 4 + n div 16))) (a2b 2 (n mod 16) 0 cs)"
  "n < 64 \<Longrightarrow> a2b 2 l p (b64_char n # cs) =
     map_option ((#) (char_of (l * 16 + n div 4))) (a2b 3 (n mod 4) 0 cs)"
  "n < 64 \<Longrightarrow> a2b 3 l p (b64_char n # cs) = map_option ((#) (char_of (l * 64 + n))) (a2b 0 0 0 cs)"
  by (simp_all add: a2b.simps(2) b64_val_char b64_char_not_pad)

declare a2b.simps(2) [simp del]

lemma a2b_pad [simp]:
  "a2b pos l p (CHR ''='' # cs) = (if 2 \<le> pos then (if 4 \<le> pos + (p + 1) then Some [] else a2b pos l (p + 1) cs)
     else a2b pos l p cs)"
  by (simp add: a2b.simps(2))

lemma char_of_nat: "n = of_char c \<Longrightarrow> char_of (n :: nat) = c"
  by simp

lemma b64_bits:
  fixes x y z :: nat
  assumes "x < 256" "y < 256" "z < 256"
  shows "x div 4 < 64" "x mod 4 * 16 < 64" "x mod 4 * 16 + y div 16 < 64" "y mod 16 * 4 < 64"
    "y mod 16 * 4 + z div 64 < 64" "z mod 64 < 64"
    "x div 4 * 4 + (x mod 4 * 16 + y div 16) div 16 = x" "x div 4 * 4 + x mod 4 * 16 div 16 = x"
    "(x mod 4 * 16 + y div 16) mod 16 * 16 + (y mod 16 * 4 + z div 64) div 4 = y"
    "(x mod 4 * 16 + y div 16) mod 16 * 16 + y mod 16 * 4 div 4 = y"
    "(y mod 16 * 4 + z div 64) mod 4 * 64 + z mod 64 = z"
proof -
  have y: "y div 16 < 16" and z: "z div 64 < 4" using assms by auto
  show "x div 4 < 64" "x mod 4 * 16 < 64" "y mod 16 * 4 < 64" "z mod 64 < 64"
    "x mod 4 * 16 + y div 16 < 64" "y mod 16 * 4 + z div 64 < 64"
    using assms y z mod_less_divisor[of 4 x] mod_less_divisor[of 16 y] by linarith+
  show "x div 4 * 4 + (x mod 4 * 16 + y div 16) div 16 = x" "x div 4 * 4 + x mod 4 * 16 div 16 = x"
    using y by simp_all
  show "(x mod 4 * 16 + y div 16) mod 16 * 16 + (y mod 16 * 4 + z div 64) div 4 = y"
    "(x mod 4 * 16 + y div 16) mod 16 * 16 + y mod 16 * 4 div 4 = y"
    using y z by simp_all
  show "(y mod 16 * 4 + z div 64) mod 4 * 64 + z mod 64 = z"
    using z by simp
qed

lemma b64_roundtrip: "b64decode (b64encode s) = Some s"
  unfolding b64decode_def
proof (induction s rule: b64encode.induct)
  case (2 a)
  then show ?case using b64_bits[OF char_lt[of a] char_lt char_lt] by (simp add: Let_def)
next
  case (3 a b)
  then show ?case using b64_bits[OF char_lt[of a] char_lt[of b] char_lt] by (simp add: Let_def)
next
  case (4 a b c r)
  then show ?case using b64_bits[OF char_lt[of a] char_lt[of b] char_lt[of c]] by (simp add: Let_def)
qed simp

lemma b64_char_mem [simp]: "n < 64 \<Longrightarrow> b64_char n \<in> b64_char ` {..<64}"
  by simp

lemma b64encode_chars: "set (b64encode s) \<subseteq> insert (CHR ''='') (b64_char ` {..<64})"
proof (induction s rule: b64encode.induct)
  case (2 a)
  then show ?case using b64_bits[OF char_lt[of a] char_lt char_lt] by (simp add: Let_def)
next
  case (3 a b)
  then show ?case using b64_bits[OF char_lt[of a] char_lt[of b] char_lt] by (simp add: Let_def)
next
  case (4 a b c r)
  then show ?case using b64_bits[OF char_lt[of a] char_lt[of b] char_lt[of c]] by (simp add: Let_def)
qed simp

lemma b64encode_ascii: "ascii (b64encode s)"
  using b64encode_chars[of s] b64_char_ascii by (force simp: ascii_def)

section \<open>The wire round trip\<close>

text \<open>Fields whose JSON form keeps no dictionary to reorder.\<close>

definition flat :: "pyval \<Rightarrow> bool" where
  "flat v \<longleftrightarrow> json_val v \<and> canon v = v"

lemma flat_simps [simp]:
  "flat (PStr s)" "flat PNone" "flat (PFloat x) \<longleftrightarrow> json_val (PFloat x)"
  by (simp_all add: flat_def)

lemma flat_opt_str [simp]: "flat (opt_str x)"
  by (cases x) (simp_all add: opt_str_def)

definition wire_token :: "authorization_token \<Rightarrow> bool" where
  "wire_token t \<longleftrightarrow> flat (at_token_id t) \<and> flat (at_agent_name t) \<and> flat (at_tool_name t) \<and>
     flat (at_operation t) \<and> flat (at_issued_at t) \<and> flat (at_expires_at t) \<and>
     CHR ''.'' \<notin> set (at_signature t)"

lemma compact_token: "compact token_opts"
  by (simp add: compact_def token_opts_def)

lemma json_val_payload: "wire_token t \<Longrightarrow> json_val (token_payload t)"
  by (simp add: wire_token_def token_payload_def flat_def)

text \<open>Sorting a dictionary keeps what each key finds.\<close>

lemma canon_dict_get:
  assumes "distinct (map fst d)" "canon (PDict d) = PDict e"
  shows "dict_get e k = map_option canon (dict_get d k)"
proof -
  let ?d = "map (\<lambda>(k, v). (k, canon v)) d"
  have "e = sort_key (str_key \<circ> fst) ?d" using assms(2) by simp
  moreover have dd: "distinct (map fst ?d)" using assms(1) by (simp only: map_fst_pairs)
  moreover have "distinct (map fst (sort_key (str_key \<circ> fst) ?d))"
    using dd by (simp only: distinct_map distinct_sort set_sort)
  ultimately have "map_of e = map_of ?d" by (simp only: map_of_inject_set set_sort)
  moreover have "map_of ?d k = map_option canon (map_of d k)" by (induction d) auto
  ultimately show ?thesis by (simp add: dict_get_def)
qed

lemma payload_field:
  assumes "canon (token_payload t) = v"
  shows "field v ''token_id'' = Inr (canon (at_token_id t))" "field v ''agent_name'' = Inr (canon (at_agent_name t))"
    "field v ''tool_name'' = Inr (canon (at_tool_name t))" "field v ''issued_at'' = Inr (canon (at_issued_at t))"
    "field v ''expires_at'' = Inr (canon (at_expires_at t))"
    "field_or_None v ''operation'' = canon (at_operation t)"
proof -
  obtain d where d: "token_payload t = PDict d" by (simp add: token_payload_def)
  obtain e where e: "v = PDict e" using assms by (auto simp: d)
  have "distinct (map fst d)" using d by (auto simp: token_payload_def)
  then have g: "dict_get e k = map_option canon (dict_get d k)" for k
    using canon_dict_get assms d e by simp
  then show "field v ''token_id'' = Inr (canon (at_token_id t))" "field v ''agent_name'' = Inr (canon (at_agent_name t))"
    "field v ''tool_name'' = Inr (canon (at_tool_name t))" "field v ''issued_at'' = Inr (canon (at_issued_at t))"
    "field v ''expires_at'' = Inr (canon (at_expires_at t))"
    "field_or_None v ''operation'' = canon (at_operation t)"
    using d by (auto simp: e field_def field_or_None_def dict_get_def token_payload_def)
qed

lemma rsplit_dot_append:
  assumes "CHR ''.'' \<notin> set sig"
  shows "rsplit_dot (s @ ''.'' @ sig) = Some (s, sig)"
proof -
  have "takeWhile (\<lambda>c. c \<noteq> CHR ''.'') (rev sig @ CHR ''.'' # rev s) = rev sig"
    "dropWhile (\<lambda>c. c \<noteq> CHR ''.'') (rev sig @ CHR ''.'' # rev s) = CHR ''.'' # rev s"
    using assms by (subst takeWhile_append2 dropWhile_append2; auto)+
  then show ?thesis by (simp add: rsplit_dot_def)
qed

lemma wire_roundtrip:
  assumes "wire_token t"
  shows "\<exists>s. to_wire t = Inr s \<and> from_wire s = Inr t"
proof -
  have j: "json_val (token_payload t)" by (rule json_val_payload[OF assms])
  obtain raw where raw: "dumps token_opts (token_payload t) = Inr raw"
    using dumps_json_val_ok[OF j] by blast
  have "decode_payload (b64encode (utf8 raw)) = Some (canon (token_payload t))"
    using json_loads_dumps[OF compact_token j raw]
    by (simp add: decode_payload_def b64encode_ascii b64_roundtrip)
  moreover have "rsplit_dot (b64encode (utf8 raw) @ ''.'' @ at_signature t)
      = Some (b64encode (utf8 raw), at_signature t)"
    using assms by (intro rsplit_dot_append) (simp add: wire_token_def)
  ultimately have "from_wire (b64encode (utf8 raw) @ ''.'' @ at_signature t) = Inr t"
    using assms payload_field[OF refl, of t] by (simp add: from_wire_def wire_token_def flat_def)
  then show ?thesis by (simp add: to_wire_def raw)
qed

lemma fadd_json: "is_double a \<Longrightarrow> json_val (PFloat (fadd (Fin a) x))"
  using round_double_Fin_is_double by (cases x) (auto split: pyfloat.splits)

lemma hex_digit_no_dot: "n < 16 \<Longrightarrow> hex_digit n \<noteq> CHR ''.''"
  using hex_val_digit[of n] by (auto simp: hex_val_def)

lemma hexdigest_no_dot:
  assumes "\<And>b. b \<in> set bs \<Longrightarrow> b < 256"
  shows "CHR ''.'' \<notin> set (hexdigest bs)"
proof -
  have "hex_digit (b div 16) \<noteq> CHR ''.''" "hex_digit (b mod 16) \<noteq> CHR ''.''" if "b \<in> set bs" for b
    using assms[OF that] by (simp_all add: hex_digit_no_dot)
  then show ?thesis by (fastforce simp: hexdigest_def)
qed

lemma sign_no_dot:
  assumes "sign self p = Inr s"
  shows "CHR ''.'' \<notin> set s"
proof -
  obtain k bs where "s = hexdigest (sha256_bytes bs)"
    using assms by (auto simp: sign_def hmac_sha256_hex_def Let_def split: sum.splits)
  then show ?thesis using hexdigest_no_dot sha256_bytes_less by blast
qed

lemma issued_wire_token:
  assumes "issue self agent tool opn w = (Inr t, w')" "is_double (wall w (wall_ix w))"
  shows "wire_token t"
proof -
  have "at_agent_name t = PStr agent" "at_tool_name t = PStr tool" "at_operation t = opt_str opn"
    "\<exists>i. at_token_id t = PStr i" "at_issued_at t = PFloat (Fin (wall w (wall_ix w)))"
    "at_expires_at t = PFloat (fadd (Fin (wall w (wall_ix w))) (ti_ttl_seconds self))"
    "\<exists>p. sign self p = Inr (at_signature t)"
    using assms(1) by (auto simp: issue_def bindE_Inr_iff time_time_def token_secret_def Let_def)
  then show ?thesis
    using assms(2) fadd_json[OF assms(2)] sign_no_dot by (auto simp: wire_token_def)
qed

text \<open>C19: An issued token survives the wire: it serialises, and the text parses back to the same
  token, field by field, signature included, so what the proxy verifies is what was issued.\<close>

theorem issued_token_crosses_the_wire:
  assumes "issue self agent tool opn w = (Inr t, w')" "is_double (wall w (wall_ix w))"
  shows "\<exists>s. to_wire t = Inr s \<and> from_wire s = Inr t"
  by (rule wire_roundtrip[OF issued_wire_token[OF assms]])

theorem issued_token_crosses_the_wire_witness:
  "\<exists>t w' s. issue \<lparr>ti_secret = ''k'', ti_ttl_seconds = Fin 30\<rparr> ''bot'' ''pay'' None sample_world = (Inr t, w') \<and>
     to_wire t = Inr s \<and> from_wire s = Inr t"
proof -
  obtain t and w' :: world
    where t: "issue \<lparr>ti_secret = ''k'', ti_ttl_seconds = Fin 30\<rparr> ''bot'' ''pay'' None sample_world = (Inr t, w')"
    using issue_ok by blast
  have "is_double (wall sample_world (wall_ix sample_world))"
    using is_double_numeral by (simp add: sample_world_def)
  from issued_token_crosses_the_wire[OF t this] show ?thesis using t by blast
qed

end
