(* ===== verification/Canonical_Form.thy ===== *)
theory Canonical_Form
  imports Evidence Json_Roundtrip
begin

text \<open>
  What a digest of \<open>evidence.py\<close> binds. On JSON values the canonical form is a faithful
  encoding up to the order of keys: it parses back, and two values share it exactly when they
  are equal up to key order. So the digests of two different calls are hashes of different
  texts. On other Python values the encoding is not faithful.
\<close>

section \<open>Dictionaries up to key order\<close>

lemma canon_dict_lookup:
  assumes "canon (PDict d) = canon (PDict d')" "distinct (map fst d)" "distinct (map fst d')"
  shows "map_option canon (map_of d k) = map_option canon (map_of d' k)"
proof -
  let ?f = "map (\<lambda>(k, v). (k, canon v))"
  have m: "map_of (?f e) k = map_option canon (map_of e k)" for e :: pydict
    by (induction e) auto
  have "set (?f d) = set (?f d')"
    using arg_cong[OF assms(1), of "\<lambda>v. case v of PDict e \<Rightarrow> set e | _ \<Rightarrow> {}"] by simp
  moreover have "distinct (map fst (?f d))" "distinct (map fst (?f d'))"
    using assms(2,3) by (simp_all only: map_fst_pairs)
  ultimately have "map_of (?f d) = map_of (?f d')" by (simp only: map_of_inject_set)
  then have "map_of (?f d) k = map_of (?f d') k" by (rule fun_cong)
  then show ?thesis by (simp only: m)
qed

lemma canon_opt_str [simp]: "canon (opt_str x) = opt_str x"
  by (cases x) (simp_all add: opt_str_def)

lemma json_val_opt_str [simp]: "json_val (opt_str x)"
  by (cases x) (simp_all add: opt_str_def)

lemma opt_str_inject [simp]: "opt_str x = opt_str y \<longleftrightarrow> x = y"
  by (cases x; cases y) (simp_all add: opt_str_def)

lemma utf8_inject: "utf8 s = utf8 t \<longleftrightarrow> s = t"
  by (metis option.inject utf8_roundtrip)

lemma compact_canonical: "compact canonical_opts"
  by (simp add: compact_def canonical_opts_def)

section \<open>The canonical form\<close>

text \<open>C26: \<open>canonicalize\<close> encodes a JSON value without loss: it succeeds, and \<open>json.loads\<close> of
  its UTF-8 bytes returns the value with the keys of its dictionaries in order.\<close>

theorem canonical_form_parses_back:
  assumes "json_val v"
  shows "\<exists>t. canonicalize v = Inr t \<and> json_loads (utf8 t) = Some (canon v)"
  using dumps_json_val_ok[OF assms] json_loads_dumps[OF compact_canonical assms]
  unfolding canonicalize_def by blast

text \<open>Two JSON values have the same canonical form exactly when they are equal up to the
  order of dictionary keys.\<close>

theorem canonical_form_iff:
  assumes "json_val v" "json_val v'"
  shows "canonicalize v = canonicalize v' \<longleftrightarrow> canon v = canon v'"
  unfolding canonicalize_def by (rule dumps_eq_iff[OF compact_canonical assms])

section \<open>The digest of a call\<close>

definition same_call :: "frozen_tool_call \<Rightarrow> frozen_tool_call \<Rightarrow> bool" where
  "same_call c c' \<longleftrightarrow>
    fc_agent_name c = fc_agent_name c' \<and> fc_tool_name c = fc_tool_name c' \<and>
    fc_operation c = fc_operation c' \<and> canon (PDict (fc_arguments c)) = canon (PDict (fc_arguments c')) \<and>
    fc_resource c = fc_resource c' \<and> fc_tool_version c = fc_tool_version c' \<and>
    fc_schema_hash c = fc_schema_hash c' \<and> fc_manifest_hash c = fc_manifest_hash c' \<and>
    fc_approval_id c = fc_approval_id c' \<and> fc_approval_state c = fc_approval_state c'"

definition binding_items :: "frozen_tool_call \<Rightarrow> pydict" where
  "binding_items call = (case call_binding call of PDict d \<Rightarrow> d | _ \<Rightarrow> [])"

lemma call_binding_items: "call_binding c = PDict (binding_items c)"
  by (simp add: binding_items_def call_binding_def)

lemma binding_keys: "distinct (map fst (binding_items c))"
  by (simp add: binding_items_def call_binding_def)

lemma json_val_binding: "json_val (PDict (fc_arguments c)) \<Longrightarrow> json_val (call_binding c)"
  by (simp add: call_binding_def del: json_val.simps(7)) (simp add: json_val.simps(7))

lemma canon_binding_iff: "canon (call_binding c) = canon (call_binding c') \<longleftrightarrow> same_call c c'"
proof
  assume e: "canon (call_binding c) = canon (call_binding c')"
  note l = canon_dict_lookup[OF e[unfolded call_binding_items] binding_keys binding_keys]
  show "same_call c c'"
    using l[of "KStr ''agent_name''"] l[of "KStr ''tool_name''"] l[of "KStr ''operation''"]
      l[of "KStr ''arguments''"] l[of "KStr ''resource''"] l[of "KStr ''tool_version''"]
      l[of "KStr ''schema_hash''"] l[of "KStr ''manifest_hash''"] l[of "KStr ''approval_id''"]
      l[of "KStr ''approval_state''"]
    by (simp add: same_call_def binding_items_def call_binding_def del: canon.simps(2))
next
  assume "same_call c c'"
  then show "canon (call_binding c) = canon (call_binding c')"
    by (simp add: same_call_def call_binding_def)
qed

text \<open>C21: Two calls with JSON arguments have digests, and these hash the same bytes exactly when
  the calls agree in every field a digest covers, the arguments up to key order. So a change of
  any of them keeps the digest only through a collision of SHA-256 on the two canonical forms.\<close>

theorem digest_binds_the_call:
  assumes "json_val (PDict (fc_arguments c))" "json_val (PDict (fc_arguments c'))"
  shows "\<exists>t t'. canonicalize (call_binding c) = Inr t \<and> canonicalize (call_binding c') = Inr t' \<and>
    call_digest c = Inr (sha256_hex (utf8 t)) \<and> call_digest c' = Inr (sha256_hex (utf8 t')) \<and>
    (utf8 t = utf8 t' \<longleftrightarrow> same_call c c')"
proof -
  note j = json_val_binding[OF assms(1)] json_val_binding[OF assms(2)]
  obtain t where t: "canonicalize (call_binding c) = Inr t"
    using dumps_json_val_ok[OF j(1)] by (auto simp: canonicalize_def)
  obtain t' where t': "canonicalize (call_binding c') = Inr t'"
    using dumps_json_val_ok[OF j(2)] by (auto simp: canonicalize_def)
  have "t = t' \<longleftrightarrow> canon (call_binding c) = canon (call_binding c')"
    using dumps_eq_iff[OF compact_canonical j] t t' by (simp add: canonicalize_def)
  then show ?thesis
    using t t' by (simp add: call_digest_def digest_of_def sha256_def utf8_inject canon_binding_iff)
qed

text \<open>Reordering the items of a dictionary at any depth gives an equal normal form.\<close>

lemma canon_perm:
  assumes m: "mset d = mset d'" and d: "distinct (map fst d)" and s: "list_all (is_str_key \<circ> fst) d"
  shows "canon (PDict d) = canon (PDict d')"
proof -
  let ?f = "\<lambda>(k, v). (k, canon v)"
  have "sort_items (map ?f d) = sort_items (map ?f d')"
  proof (rule sort_items_perm)
    show "mset (map ?f d) = mset (map ?f d')" using m by simp
    show "distinct (map fst (map ?f d))" using d by (simp only: map_fst_pairs)
    show "list_all (is_str_key \<circ> fst) (map ?f d)" using s by (auto simp: list_all_iff)
  qed
  moreover have "list_all (is_str_key \<circ> fst) (map ?f d)" using s by (auto simp: list_all_iff)
  moreover have "list_all (is_str_key \<circ> fst) (map ?f d')"
    using s list_all_cong_mset[OF m] by (auto simp: list_all_iff)
  ultimately show ?thesis by (simp add: sort_items_def)
qed

text \<open>The digest of a call does not depend on the order of its arguments, whatever values
  they hold.\<close>

theorem digest_ignores_argument_order:
  assumes "mset args = mset (fc_arguments c)" "distinct (map fst (fc_arguments c))"
    "list_all (is_str_key \<circ> fst) (fc_arguments c)"
  shows "call_digest (c\<lparr>fc_arguments := args\<rparr>) = call_digest c"
proof -
  have "dumps canonical_opts (PDict (fc_arguments c)) = dumps canonical_opts (PDict args)"
    by (rule dumps_dict_perm) (use assms in simp_all)
  then show ?thesis
    by (simp add: call_digest_def digest_of_def canonicalize_def call_binding_def del: dumps.simps(8))
      (simp add: dumps.simps(8)[of _ "_ # _"] del: dumps.simps(8))
qed

text \<open>Beyond JSON values the digest binds less than the exact call: a list and a tuple of the
  same items, a text key and the number it spells, and a foreign object and the text that
  \<open>str()\<close> gives of it share a canonical form in every call.\<close>

theorem digest_confuses_python_types:
  assumes "length (str_of_nat (nat \<bar>n\<bar>)) \<le> 4300"
  shows "canonicalize (PTuple xs) = canonicalize (PList xs) \<and>
    canonicalize (PObj ty (Inr s) r) = canonicalize (PStr s) \<and>
    call_digest (c\<lparr>fc_arguments := [(KInt n, v)]\<rparr>) =
      call_digest (c\<lparr>fc_arguments := [(KStr (str_of_int n), v)]\<rparr>)"
  using assms
  by (simp add: canonicalize_def call_digest_def digest_of_def call_binding_def canonical_opts_def
      dump_foreign_def dump_dict_def sort_items_def dump_pair_def jint_def)

section \<open>Concrete calls\<close>

definition sample_frozen :: frozen_tool_call where
  "sample_frozen = \<lparr>fc_agent_name = ''billing'', fc_tool_name = ''pay'', fc_operation = Some ''send'',
     fc_arguments = [(KStr ''to'', PStr ''bob''), (KStr ''amount'', PInt 5)], fc_resource = None,
     fc_tool_version = None, fc_schema_hash = None, fc_manifest_hash = None, fc_approval_id = None,
     fc_approval_state = None, fc_call_digest = []\<rparr>"

lemma sample_frozen_json: "json_val (PDict (fc_arguments sample_frozen))"
  by (simp add: sample_frozen_def str_of_nat.simps)

lemma canonical_form_parses_back_witness:
  "\<exists>t. canonicalize (PDict (fc_arguments sample_frozen)) = Inr t \<and>
     json_loads (utf8 t) = Some (canon (PDict (fc_arguments sample_frozen)))"
  by (rule canonical_form_parses_back[OF sample_frozen_json])

lemma canonical_form_iff_witness:
  "canonicalize (PDict (fc_arguments sample_frozen)) \<noteq> canonicalize PNone"
  using canonical_form_iff[OF sample_frozen_json, of PNone] by simp

lemma digest_binds_the_call_witness:
  "\<exists>t t'. call_digest sample_frozen = Inr (sha256_hex (utf8 t)) \<and>
     call_digest (sample_frozen\<lparr>fc_operation := Some ''refund''\<rparr>) = Inr (sha256_hex (utf8 t')) \<and>
     utf8 t \<noteq> utf8 t'"
  using digest_binds_the_call[of sample_frozen "sample_frozen\<lparr>fc_operation := Some ''refund''\<rparr>"]
    sample_frozen_json
  by (auto simp: same_call_def sample_frozen_def)

lemma digest_ignores_argument_order_witness:
  "call_digest (sample_frozen\<lparr>fc_arguments := [(KStr ''amount'', PInt 5), (KStr ''to'', PStr ''bob'')]\<rparr>) =
     call_digest sample_frozen"
  by (rule digest_ignores_argument_order) (simp_all add: sample_frozen_def)

lemma digest_confuses_python_types_witness:
  "call_digest (sample_frozen\<lparr>fc_arguments := [(KInt 1, PNone)]\<rparr>) =
     call_digest (sample_frozen\<lparr>fc_arguments := [(KStr (str_of_int 1), PNone)]\<rparr>)"
  using digest_confuses_python_types[of 1] by (simp add: str_of_nat.simps)

end
