(* ===== verification/Py_Url.thy ===== *)
theory Py_Url
  imports Py_Json_Parse Policy_Types
begin

text \<open>
  The URL functions of the standard library that \<open>network.py\<close> calls: \<open>urlsplit\<close>,
  \<open>unquote\<close> and \<open>posixpath.join\<close>. The validity check of a bracketed (IPv6) network
  location is not modelled; such a URL is marked as outside the model.
\<close>

section \<open>\<open>urlsplit\<close>\<close>

record split_url =
  su_scheme :: string
  su_netloc :: string
  su_path :: string
  su_query :: string
  su_fragment :: string

definition ascii_alpha :: "char \<Rightarrow> bool" where
  "ascii_alpha c \<longleftrightarrow> (let n = of_char c :: nat in (65 \<le> n \<and> n \<le> 90) \<or> (97 \<le> n \<and> n \<le> 122))"

definition scheme_char :: "char \<Rightarrow> bool" where
  "scheme_char c \<longleftrightarrow> ascii_alpha c \<or> is_digit c \<or> c \<in> {CHR ''+'', CHR ''-'', CHR ''.''}"

definition removed_char :: "char \<Rightarrow> bool" where
  "removed_char c \<longleftrightarrow> c \<in> {CHR 0x09, CHR 0x0A, CHR 0x0D}"

text \<open>Leading control characters and spaces, and tabs and line ends anywhere, are dropped.\<close>

definition clean_url :: "string \<Rightarrow> string" where
  "clean_url url = filter (\<lambda>c. \<not> removed_char c) (dropWhile (\<lambda>c. of_char c \<le> (32 :: nat)) url)"

definition split_scheme :: "string \<Rightarrow> string \<times> string" where
  "split_scheme url = (case py_partition (CHR '':'') url of (h, sep, t) \<Rightarrow>
     if sep \<and> h \<noteq> [] \<and> ascii_alpha (hd h) \<and> list_all scheme_char h then (py_lower h, t) else ([], url))"

definition netloc_end :: "char \<Rightarrow> bool" where
  "netloc_end c \<longleftrightarrow> c \<in> {CHR ''/'', CHR ''?'', CHR ''#''}"

definition split_netloc :: "string \<Rightarrow> string \<times> string" where
  "split_netloc url = (if take 2 url = ''//''
     then (takeWhile (\<lambda>c. \<not> netloc_end c) (drop 2 url), dropWhile (\<lambda>c. \<not> netloc_end c) (drop 2 url))
     else ([], url))"

definition urlsplit :: "string \<Rightarrow> exn + split_url" where
  "urlsplit url =
    (case split_scheme (clean_url url) of (scheme, url1) \<Rightarrow>
    (case split_netloc url1 of (netloc, url2) \<Rightarrow>
       if (CHR ''['' \<in> set netloc) \<noteq> (CHR '']'' \<in> set netloc) then
         Inl (Foreign (PyExc ''ValueError'' ''Invalid IPv6 URL'') True)
       else if CHR ''['' \<in> set netloc then
         Inl (Foreign (PyExc ''OutOfModel'' ''bracketed network location'') True)
       else
         (case py_partition (CHR ''#'') url2 of (url3, _, fragment) \<Rightarrow>
         (case py_partition (CHR ''?'') url3 of (path, _, query) \<Rightarrow>
            Inr \<lparr>su_scheme = scheme, su_netloc = netloc, su_path = path, su_query = query,
              su_fragment = fragment\<rparr>))))"

section \<open>\<open>unquote\<close>\<close>

text \<open>
  The decoded path as bytes: an escape becomes its byte. The program looks for ASCII
  characters only, and decoding the bytes as UTF-8 keeps every ASCII byte and turns a run of
  other bytes into at least one other character, so the tests agree on both.
\<close>

fun unquote :: "string \<Rightarrow> string" where
  "unquote [] = []"
| "unquote (c # s) =
    (if c = CHR 0x25 then
       (case s of
          a # b # r \<Rightarrow>
            (case hex_val a of
               None \<Rightarrow> c # unquote s
             | Some x \<Rightarrow> (case hex_val b of None \<Rightarrow> c # unquote s
                 | Some y \<Rightarrow> char_of (16 * x + y) # unquote r))
        | _ \<Rightarrow> c # unquote s)
     else c # unquote s)"

section \<open>\<open>posixpath.join\<close>\<close>

definition posix_join :: "string \<Rightarrow> string \<Rightarrow> string" where
  "posix_join a b =
    (if b \<noteq> [] \<and> hd b = CHR ''/'' then b
     else if a = [] \<or> last a = CHR ''/'' then a @ b
     else a @ ''/'' @ b)"

section \<open>Facts\<close>

lemma scheme_char_lower: "scheme_char c \<Longrightarrow> scheme_char (py_lower_char c)"
  by (auto simp: scheme_char_def py_lower_char_def ascii_alpha_def is_digit_def Let_def)

lemma ascii_alpha_lower: "ascii_alpha c \<Longrightarrow> ascii_alpha (py_lower_char c)"
  by (auto simp: py_lower_char_def ascii_alpha_def Let_def)

lemma py_lower_char_idem: "py_lower_char (py_lower_char c) = py_lower_char c"
proof -
  have "of_char c < (256 :: nat)" by (rule nat_of_char_less_256)
  then show ?thesis by (auto simp: py_lower_char_def Let_def)
qed

text \<open>A scheme as \<open>urlsplit\<close> returns it, and a network location.\<close>

definition good_scheme :: "string \<Rightarrow> bool" where
  "good_scheme s \<longleftrightarrow> s \<noteq> [] \<and> ascii_alpha (hd s) \<and> list_all scheme_char s \<and> py_lower s = s"

definition good_netloc :: "string \<Rightarrow> bool" where
  "good_netloc s \<longleftrightarrow> (\<forall>c \<in> set s. \<not> netloc_end c \<and> \<not> removed_char c \<and> c \<noteq> CHR ''['' \<and> c \<noteq> CHR '']'')"

lemma split_scheme_good:
  assumes "split_scheme url = (s, t)" "s \<noteq> []"
  shows "good_scheme s"
proof -
  obtain h where "h \<noteq> []" "ascii_alpha (hd h)" "list_all scheme_char h" "s = py_lower h"
    using assms by (auto simp: split_scheme_def split: prod.splits if_splits)
  then show ?thesis
    by (cases h) (auto simp: good_scheme_def py_lower_def list_all_iff scheme_char_lower
        ascii_alpha_lower py_lower_char_idem)
qed

lemma split_scheme_set: "split_scheme url = (s, t) \<Longrightarrow> set t \<subseteq> set url"
  by (auto simp: split_scheme_def split: prod.splits if_splits dest!: py_partition_found)

lemma clean_url_set: "c \<in> set (clean_url url) \<Longrightarrow> \<not> removed_char c"
  by (simp add: clean_url_def)

lemma split_netloc_chars:
  assumes "split_netloc url = (n, t)" "c \<in> set n"
  shows "\<not> netloc_end c" "c \<in> set url"
  using assms by (auto simp: split_netloc_def split: if_splits dest: set_takeWhileD in_set_dropD)

lemma split_netloc_rest:
  assumes "split_netloc url = (n, t)" "n \<noteq> []"
  shows "t = [] \<or> netloc_end (hd t)"
proof (cases "t = []")
  case False
  have t: "t = dropWhile (\<lambda>c. \<not> netloc_end c) (drop 2 url)"
    using assms by (auto simp: split_netloc_def split: if_splits)
  have "\<not> \<not> netloc_end (hd t)" unfolding t by (rule hd_dropWhile) (use False t in simp)
  then show ?thesis by simp
qed simp

lemma py_partition_head:
  assumes "py_partition c s = (h, sep, t)" "h \<noteq> []"
  shows "hd h = hd s"
  using py_partition_found[OF assms(1)] assms(2) by (cases h) auto

lemma py_partition_no_sep: "py_partition c s = (h, sep, t) \<Longrightarrow> h \<noteq> [] \<Longrightarrow> hd h \<noteq> c \<and> s \<noteq> []"
  using py_partition_found[of c s h sep t] hd_in_set[of h] by auto

text \<open>What \<open>urlsplit\<close> returns.\<close>

lemma urlsplit_good:
  assumes "urlsplit url = Inr u"
  shows "su_scheme u = [] \<or> good_scheme (su_scheme u)" "good_netloc (su_netloc u)"
    "su_netloc u \<noteq> [] \<Longrightarrow> su_path u = [] \<or> hd (su_path u) = CHR ''/''"
proof -
  obtain s t where st: "split_scheme (clean_url url) = (s, t)" by fastforce
  obtain n r where nr: "split_netloc t = (n, r)" by fastforce
  obtain r' f1 f where f: "py_partition (CHR ''#'') r = (r', f1, f)" by (metis prod.exhaust)
  obtain p q1 q where q: "py_partition (CHR ''?'') r' = (p, q1, q)" by (metis prod.exhaust)
  have b: "CHR ''['' \<notin> set n" "CHR '']'' \<notin> set n" and u: "su_scheme u = s" "su_netloc u = n" "su_path u = p"
    using assms by (auto simp: urlsplit_def st nr f q split: if_splits)
  show "su_scheme u = [] \<or> good_scheme (su_scheme u)" using split_scheme_good[OF st] u by auto
  have "set n \<subseteq> set (clean_url url)"
    using split_netloc_chars(2)[OF nr] split_scheme_set[OF st] by blast
  then show "good_netloc (su_netloc u)"
    using b u split_netloc_chars(1)[OF nr] clean_url_set by (fastforce simp: good_netloc_def)
  show "su_path u = [] \<or> hd (su_path u) = CHR ''/''" if "su_netloc u \<noteq> []"
  proof (cases "p = []")
    case False
    then have p: "hd p = hd r'" "hd p \<noteq> CHR ''?''" "r' \<noteq> []"
      using py_partition_head[OF q] py_partition_no_sep[OF q] by simp_all
    have r: "hd r' = hd r" "hd r' \<noteq> CHR ''#''" "r \<noteq> []"
      using py_partition_head[OF f p(3)] py_partition_no_sep[OF f p(3)] by simp_all
    have "netloc_end (hd r)" using split_netloc_rest[OF nr] that u r(3) by simp
    then show ?thesis using p r u by (auto simp: netloc_end_def)
  qed (simp add: u)
qed

text \<open>A URL put together from a scheme, a network location and a path is taken apart again.\<close>

lemma urlsplit_build:
  assumes s: "good_scheme s" and n: "good_netloc n"
  shows "\<exists>u. urlsplit (s @ ''://'' @ n @ CHR ''/'' # p) = Inr u \<and> su_scheme u = s \<and> su_netloc u = n"
proof -
  let ?p = "filter (\<lambda>c. \<not> removed_char c) p"
  have sc: "scheme_char c \<Longrightarrow> c \<noteq> CHR '':'' \<and> \<not> removed_char c \<and> \<not> of_char c \<le> (32 :: nat)" for c
    by (auto simp: scheme_char_def ascii_alpha_def is_digit_def removed_char_def Let_def)
  obtain c s' where c: "s = c # s'" "scheme_char c" using s by (cases s) (auto simp: good_scheme_def)
  have keep: "filter (\<lambda>c. \<not> removed_char c) s = s" "filter (\<lambda>c. \<not> removed_char c) n = n"
    using s n sc by (auto simp: good_scheme_def good_netloc_def list_all_iff filter_id_conv)
  have colon: "\<not> removed_char CHR '':''" "\<not> removed_char CHR ''/''" by (simp_all add: removed_char_def)
  have "dropWhile (\<lambda>c. of_char c \<le> (32 :: nat)) (s @ ''://'' @ n @ CHR ''/'' # p) = s @ ''://'' @ n @ CHR ''/'' # p"
    using c sc by simp
  then have 1: "clean_url (s @ ''://'' @ n @ CHR ''/'' # p) = s @ CHR '':'' # ''//'' @ n @ CHR ''/'' # ?p"
    using keep colon by (simp add: clean_url_def)
  have "CHR '':'' \<notin> set s" using s sc by (auto simp: good_scheme_def list_all_iff)
  then have 2: "split_scheme (s @ CHR '':'' # ''//'' @ n @ CHR ''/'' # ?p) = (s, ''//'' @ n @ CHR ''/'' # ?p)"
    using s by (simp add: split_scheme_def py_partition_append good_scheme_def)
  have "takeWhile (\<lambda>c. \<not> netloc_end c) (n @ CHR ''/'' # ?p) = n"
    "dropWhile (\<lambda>c. \<not> netloc_end c) (n @ CHR ''/'' # ?p) = CHR ''/'' # ?p"
    using n by (auto simp: good_netloc_def netloc_end_def takeWhile_append2 dropWhile_append2)
  then have 3: "split_netloc (''//'' @ n @ CHR ''/'' # ?p) = (n, CHR ''/'' # ?p)"
    by (simp add: split_netloc_def)
  have "CHR ''['' \<notin> set n" "CHR '']'' \<notin> set n" using n by (auto simp: good_netloc_def)
  moreover obtain r f1 f where f: "py_partition (CHR ''#'') (CHR ''/'' # ?p) = (r, f1, f)"
    by (metis prod.exhaust)
  moreover obtain pa q1 q where q: "py_partition (CHR ''?'') r = (pa, q1, q)" by (metis prod.exhaust)
  ultimately show ?thesis unfolding urlsplit_def 1 2 prod.case 3 f q by simp
qed

end
