(* ===== verification/Network_Target.thy ===== *)
theory Network_Target
  imports Py_Url "HOL-Library.Sublist"
begin

text \<open>
  \<open>_resolve_target\<close> of \<open>network.py\<close>: joining the client's path to the operator's base
  URL. The specification is the walk of the decoded segments through the upstream's
  directories: a resolved target never leaves the directory of the base.
\<close>

section \<open>The function\<close>

definition bad_path :: "string \<Rightarrow> bool" where
  "bad_path decoded_path \<longleftrightarrow> CHR 0x5C \<in> set decoded_path \<or> CHR 0x00 \<in> set decoded_path \<or>
     list_ex (\<lambda>segment. segment = ''..'') (py_split (CHR ''/'') decoded_path)"

definition clean_path :: "string \<Rightarrow> string \<Rightarrow> string" where
  "clean_path base_path path =
    posix_join (if base_path = [] then ''/'' else base_path) (py_lstrip_char (CHR ''/'') path)"

definition target_of :: "split_url \<Rightarrow> string \<Rightarrow> string" where
  "target_of base_parts rest =
    (case py_partition (CHR ''?'') rest of (path, separator, query) \<Rightarrow>
       su_scheme base_parts @ ''://'' @ su_netloc base_parts @ clean_path (su_path base_parts) path @
       (if separator then ''?'' @ query else []))"

definition resolve_target :: "string option \<Rightarrow> string \<Rightarrow> exn + string option" where
  "resolve_target base rest =
    (case base of None \<Rightarrow> Inr None
     | Some b \<Rightarrow>
        (case urlsplit b of Inl e \<Rightarrow> Inl e
         | Inr base_parts \<Rightarrow>
            if bad_path (unquote (fst (py_partition (CHR ''?'') rest))) then Inr None
            else (case urlsplit (target_of base_parts rest) of Inl e \<Rightarrow> Inl e
              | Inr parts \<Rightarrow>
                  if su_netloc parts \<noteq> su_netloc base_parts then Inr None
                  else Inr (Some (target_of base_parts rest)))))"

section \<open>Directories\<close>

text \<open>
  What a server makes of a path: the decoded segments are walked from the root, empty ones
  and \<open>.\<close> stay, \<open>..\<close> goes up.
\<close>

fun walk :: "string list \<Rightarrow> string list \<Rightarrow> string list" where
  "walk dir [] = dir"
| "walk dir (seg # segs) =
     (if seg = [] \<or> seg = ''.'' then walk dir segs
      else if seg = ''..'' then walk (butlast dir) segs
      else walk (dir @ [seg]) segs)"

definition directory :: "string \<Rightarrow> string list" where
  "directory path = walk [] (py_split (CHR ''/'') (unquote path))"

lemma walk_append: "walk dir (xs @ ys) = walk (walk dir xs) ys"
  by (induction dir xs rule: walk.induct) auto

lemma walk_down: "''..'' \<notin> set segs \<Longrightarrow> prefix dir (walk dir segs)"
proof (induction dir segs rule: walk.induct)
  case (2 dir seg segs)
  then show ?case by (auto dest: append_prefixD)
qed simp

lemma py_split_append: "py_split c (xs @ c # ys) = py_split c xs @ py_split c ys"
  by (induction xs) (auto split: list.splits)

lemma hex_val_slash: "hex_val CHR ''/'' = None"
  by (simp add: hex_val_def)

text \<open>No escape reaches across a slash.\<close>

lemma unquote_append: "unquote (s @ CHR ''/'' # t) = unquote s @ CHR ''/'' # unquote t"
proof (induction s rule: unquote.induct)
  case (2 c s)
  show ?case
  proof (cases "c = CHR 0x25")
    case True
    consider "s = []" | a where "s = [a]" | a b r where "s = a # b # r"
      by (metis list.exhaust)
    then show ?thesis
    proof cases
      case 1
      then show ?thesis using True by (cases t) (auto simp: hex_val_slash)
    next
      case 2
      then show ?thesis using True "2.IH" by (cases "hex_val a") (auto simp: hex_val_slash)
    next
      case 3
      then show ?thesis using True "2.IH" by (cases "hex_val a"; cases "hex_val b") auto
    qed
  qed (use 2 in auto)
qed simp

lemma unquote_lstrip: "''..'' \<notin> set (py_split (CHR ''/'') (unquote s)) \<Longrightarrow>
    ''..'' \<notin> set (py_split (CHR ''/'') (unquote (py_lstrip_char (CHR ''/'') s)))"
  by (induction s) (auto simp: py_lstrip_char_def)

text \<open>The joined path is the base, up to a final slash, followed by the client's path.\<close>

lemma directory_slash: "directory (b @ CHR ''/'' # p) = walk (directory b) (py_split (CHR ''/'') (unquote p))"
  by (simp add: directory_def unquote_append py_split_append walk_append)

lemma posix_join_shape:
  assumes "a \<noteq> []" "p = [] \<or> hd p \<noteq> CHR ''/''"
  shows "(\<exists>b. posix_join a p = b @ CHR ''/'' # p \<and> directory b = directory a) \<and>
    (\<exists>c. posix_join a p = hd a # c)"
proof (cases "last a = CHR ''/''")
  case True
  then obtain b where b: "a = b @ [CHR ''/'']" using assms(1) by (metis append_butlast_last_id)
  have d: "directory b = directory a" unfolding b directory_slash by simp
  have j: "posix_join a p = a @ p" using assms True by (auto simp: posix_join_def)
  then have "posix_join a p = b @ CHR ''/'' # p" by (simp add: b)
  moreover have "posix_join a p = hd a # tl a @ p" using j assms(1) by simp
  ultimately show ?thesis using d by blast
next
  case False
  then have "posix_join a p = a @ CHR ''/'' # p" using assms by (auto simp: posix_join_def)
  then show ?thesis using assms(1) by (cases a) auto
qed

lemma lstrip_no_slash: "py_lstrip_char (CHR ''/'') p = [] \<or> hd (py_lstrip_char (CHR ''/'') p) \<noteq> CHR ''/''"
  by (cases "py_lstrip_char (CHR ''/'') p") (auto dest: py_lstrip_char_head)

lemma directory_root: "directory ''/'' = directory []"
  by (simp add: directory_def)

lemma clean_path_shape:
  assumes "base = [] \<or> hd base = CHR ''/''"
  shows "(\<exists>b. clean_path base p = b @ CHR ''/'' # py_lstrip_char (CHR ''/'') p \<and>
      directory b = directory base) \<and> (\<exists>c. clean_path base p = CHR ''/'' # c)"
proof (cases "base = []")
  case True
  then show ?thesis
    using posix_join_shape[of "''/''", OF _ lstrip_no_slash] directory_root by (simp add: clean_path_def)
next
  case False
  then show ?thesis
    using posix_join_shape[OF False lstrip_no_slash[of p]] assms by (simp add: clean_path_def)
qed

lemma clean_path_contained:
  assumes "base = [] \<or> hd base = CHR ''/''" "\<not> bad_path (unquote p)"
  shows "prefix (directory base) (directory (clean_path base p))"
proof -
  obtain b where b: "clean_path base p = b @ CHR ''/'' # py_lstrip_char (CHR ''/'') p"
    "directory b = directory base"
    using clean_path_shape[OF assms(1), of p] by blast
  have "''..'' \<notin> set (py_split (CHR ''/'') (unquote p))"
    using assms(2) by (auto simp: bad_path_def list_ex_iff)
  then have "prefix (directory b) (walk (directory b) (py_split (CHR ''/'') (unquote (py_lstrip_char (CHR ''/'') p))))"
    by (intro walk_down unquote_lstrip)
  then show ?thesis unfolding b(1) directory_slash using b(2) by simp
qed

section \<open>Authority and containment\<close>

lemma target_urlsplit:
  assumes "urlsplit base = Inr b" "su_scheme b \<noteq> []" "su_netloc b \<noteq> []"
  shows "\<exists>u. urlsplit (target_of b rest) = Inr u \<and> su_scheme u = su_scheme b \<and> su_netloc u = su_netloc b"
proof -
  obtain path sep query where q: "py_partition (CHR ''?'') rest = (path, sep, query)"
    by (metis prod.exhaust)
  have "su_path b = [] \<or> hd (su_path b) = CHR ''/''" by (rule urlsplit_good(3)[OF assms(1,3)])
  then obtain c where "clean_path (su_path b) path = CHR ''/'' # c"
    using clean_path_shape by blast
  then have "target_of b rest = su_scheme b @ ''://'' @ su_netloc b @ CHR ''/'' #
      (c @ (if sep then ''?'' @ query else []))"
    by (simp add: target_of_def q)
  moreover have "good_scheme (su_scheme b)" "good_netloc (su_netloc b)"
    using urlsplit_good(1,2)[OF assms(1)] assms(2) by auto
  ultimately show ?thesis using urlsplit_build by presburger
qed

lemma resolve_target_iff:
  assumes "urlsplit base = Inr b" "su_scheme b \<noteq> []" "su_netloc b \<noteq> []"
  shows "resolve_target (Some base) rest =
    Inr (if bad_path (unquote (fst (py_partition (CHR ''?'') rest))) then None else Some (target_of b rest))"
  using target_urlsplit[OF assms, of rest] assms(1) by (auto simp: resolve_target_def)

text \<open>C24: For a base URL with a scheme and a host, a client path resolves exactly when its decoded
  form holds no backslash, no NUL and no \<open>..\<close> segment. The target then has the scheme and
  the authority of the base, carries the query unchanged, and its decoded path stays below the
  directory of the base: no encoding of the path escapes it.\<close>

theorem target_stays_below_the_base:
  assumes "urlsplit base = Inr b" "su_scheme b \<noteq> []" "su_netloc b \<noteq> []"
    and "py_partition (CHR ''?'') rest = (path, sep, query)"
  shows "\<exists>u p. urlsplit (target_of b rest) = Inr u \<and> su_scheme u = su_scheme b \<and> su_netloc u = su_netloc b \<and>
    target_of b rest = su_scheme b @ ''://'' @ su_netloc b @ p @ (if sep then ''?'' @ query else []) \<and>
    resolve_target (Some base) rest = Inr (if bad_path (unquote path) then None else Some (target_of b rest)) \<and>
    (bad_path (unquote path) \<or> prefix (directory (su_path b)) (directory p))"
proof -
  obtain u where u: "urlsplit (target_of b rest) = Inr u" "su_scheme u = su_scheme b" "su_netloc u = su_netloc b"
    using target_urlsplit[OF assms(1-3)] by blast
  have "bad_path (unquote path) \<or> prefix (directory (su_path b)) (directory (clean_path (su_path b) path))"
    using clean_path_contained urlsplit_good(3)[OF assms(1,3)] by blast
  then show ?thesis
    using u resolve_target_iff[OF assms(1-3), of rest] assms(4)
    by (intro exI[of _ u] exI[of _ "clean_path (su_path b) path"]) (simp add: target_of_def)
qed

theorem target_stays_below_the_base_witness:
  "resolve_target (Some ''http://crm.local/api'') ''v1/%2e%2E/admin?x=1'' = Inr None \<and>
   resolve_target (Some ''http://crm.local/api'') ''v1/users?x=1'' = Inr (Some ''http://crm.local/api/v1/users?x=1'')"
proof -
  define b where "b = \<lparr>su_scheme = ''http'', su_netloc = ''crm.local'', su_path = ''/api'', su_query = [], su_fragment = []\<rparr>"
  have u: "urlsplit ''http://crm.local/api'' = Inr b" "su_scheme b \<noteq> []" "su_netloc b \<noteq> []"
    unfolding b_def by code_simp+
  have p: "py_partition (CHR ''?'') ''v1/%2e%2E/admin?x=1'' = (''v1/%2e%2E/admin'', True, ''x=1'')"
    "py_partition (CHR ''?'') ''v1/users?x=1'' = (''v1/users'', True, ''x=1'')"
    "bad_path (unquote ''v1/%2e%2E/admin'')" "\<not> bad_path (unquote ''v1/users'')"
    by code_simp+
  have t: "target_of b ''v1/users?x=1'' = ''http://crm.local/api/v1/users?x=1''"
    unfolding b_def by code_simp
  show ?thesis
    using target_stays_below_the_base[OF u p(1)] target_stays_below_the_base[OF u p(2)] p(3,4) t by auto
qed

end
