(* ===== verification/Token_Ledger.thy ===== *)
theory Token_Ledger
  imports Tokens
begin

text \<open>
  The ledger of used tokens: what \<open>mark_used\<close> promises the proxy (the locale
  \<open>single_use\<close>), the in-memory store of \<open>tokens.py\<close> as a stateful object, and its steps
  when several handler threads of the proxy interleave, which no lock prevents.
\<close>

section \<open>What a ledger promises\<close>

text \<open>
  \<open>mark now i x s\<close> marks the identifier \<open>i\<close> of expiry \<open>x\<close> at the time \<open>now\<close>;
  \<open>spent t s i\<close>: a mark of \<open>i\<close> at the time \<open>t\<close> is refused; \<open>sane x\<close>: an expiry the
  ledger can represent.
\<close>

locale single_use =
  fixes mark :: "rat \<Rightarrow> string \<Rightarrow> pynum \<Rightarrow> 's \<Rightarrow> bool \<times> 's"
    and spent :: "rat \<Rightarrow> 's \<Rightarrow> string \<Rightarrow> bool"
    and sane :: "pynum \<Rightarrow> bool"
  assumes spent_refused: "spent now s i \<Longrightarrow> fst (mark now i x s) = False"
    and mark_spends: "mark now i x s = (True, s') \<Longrightarrow> sane x \<Longrightarrow> 0 \<le> now \<Longrightarrow> now \<le> t \<Longrightarrow>
      \<not> num_lt x (NFloat (Fin t)) \<Longrightarrow> spent t s' i"
    and spent_kept: "spent t s i \<Longrightarrow> now \<le> t \<Longrightarrow> spent t (snd (mark now j x s)) i"
begin

fun run :: "(rat \<times> string \<times> pynum) list \<Rightarrow> 's \<Rightarrow> 's" where
  "run [] s = s"
| "run ((now, i, x) # ops) s = run ops (snd (mark now i x s))"

lemma spent_run: "spent t s i \<Longrightarrow> \<forall>op \<in> set ops. fst op \<le> t \<Longrightarrow> spent t (run ops s) i"
proof (induction ops arbitrary: s)
  case (Cons op ops)
  obtain n j x where "op = (n, j, x)" by (metis prod.exhaust)
  then show ?case using Cons spent_kept[of t s i n j x] by simp
qed simp

text \<open>Between its use and its expiry a token is refused, whatever else is marked.\<close>

theorem used_once:
  assumes "mark n0 i x s = (True, s0)" "sane x" "0 \<le> n0" "n0 \<le> t" "\<not> num_lt x (NFloat (Fin t))"
    and "\<forall>op \<in> set ops. fst op \<le> t"
  shows "fst (mark t i y (run ops s0)) = False"
  by (rule spent_refused[OF spent_run[OF mark_spends[OF assms(1-5)] assms(6)]])

end

section \<open>The in-memory ledger\<close>

definition ledger_spent :: "rat \<Rightarrow> token_store \<Rightarrow> string \<Rightarrow> bool" where
  "ledger_spent t used i \<longleftrightarrow> (\<exists>x. used i = Some x \<and> \<not> num_lt x (NFloat (Fin t)))"

lemma num_lt_mono: "a \<le> b \<Longrightarrow> num_lt x (NFloat (Fin a)) \<Longrightarrow> num_lt x (NFloat (Fin b))"
  unfolding num_lt_def by (cases "num_val x") auto

lemma gc_at_Some: "gc_at now used i = Some x \<longleftrightarrow> used i = Some x \<and> \<not> num_lt x (NFloat (Fin now))"
  by (auto simp: gc_at_def split: option.splits)

lemma ledger_mark_spends:
  "mark_used_at now i x s = (True, s') \<Longrightarrow> \<not> num_lt x (NFloat (Fin t)) \<Longrightarrow> ledger_spent t s' i"
  by (auto simp: mark_used_at_def Let_def ledger_spent_def split: if_splits)

interpretation ledger: single_use mark_used_at ledger_spent "\<lambda>_. True"
proof (unfold_locales, goal_cases)
  case (1 now s i x)
  then have "i \<in> dom (gc_at now s)" by (auto simp: ledger_spent_def gc_at_Some domIff)
  then show ?case by (simp add: mark_used_at_def Let_def)
next
  case (2 now i x s s' t)
  show ?case by (rule ledger_mark_spends[OF 2(1,5)])
next
  case (3 t s i now j x)
  then obtain y where y: "s i = Some y" "\<not> num_lt y (NFloat (Fin t))" by (auto simp: ledger_spent_def)
  then have "gc_at now s i = Some y" using num_lt_mono 3(2) by (auto simp: gc_at_Some)
  then show ?case
    using y(2) by (auto simp: mark_used_at_def Let_def ledger_spent_def split: if_splits)
qed

text \<open>The methods as effects: \<open>_gc\<close> reads the clock. A key that is no string, which no issuer
  signs, is outside the model.\<close>

record ledger_world = world +
  used_tokens :: token_store

definition mark_used :: "pyval \<Rightarrow> pyval \<Rightarrow> ('w ledger_world_scheme, exn, bool) eff" where
  "mark_used token_id expires_at =
    bindE time_time (\<lambda>now w.
      case (token_id, as_num expires_at) of
        (PStr i, Some x) \<Rightarrow> (case mark_used_at now i x (used_tokens w) of
            (first, used) \<Rightarrow> (Inr first, w\<lparr>used_tokens := used\<rparr>))
      | _ \<Rightarrow> (Inl (Foreign (PyExc ''OutOfModel'' ''token_id is not a string'') True), w))"

section \<open>Threads\<close>

text \<open>
  A thread in \<open>mark_used\<close>: about to collect, about to look up, about to insert, returned.
  Each is a separate step of the interpreter; the collection is taken as one.
\<close>

datatype mark_pc = Collect string pynum | Lookup string pynum | Insert string pynum | Returned bool

record threads =
  pcs :: "nat \<Rightarrow> mark_pc"
  shared :: token_store

inductive thread_step :: "threads \<Rightarrow> threads \<Rightarrow> bool" where
  collect: "pcs s p = Collect i x \<Longrightarrow>
     thread_step s (s\<lparr>pcs := (pcs s)(p := Lookup i x), shared := gc_at now (shared s)\<rparr>)"
| known: "pcs s p = Lookup i x \<Longrightarrow> i \<in> dom (shared s) \<Longrightarrow>
     thread_step s (s\<lparr>pcs := (pcs s)(p := Returned False)\<rparr>)"
| fresh: "pcs s p = Lookup i x \<Longrightarrow> i \<notin> dom (shared s) \<Longrightarrow>
     thread_step s (s\<lparr>pcs := (pcs s)(p := Insert i x)\<rparr>)"
| insert: "pcs s p = Insert i x \<Longrightarrow>
     thread_step s (s\<lparr>pcs := (pcs s)(p := Returned True), shared := (shared s)(i \<mapsto> x)\<rparr>)"

abbreviation reaches :: "threads \<Rightarrow> threads \<Rightarrow> bool" where
  "reaches \<equiv> thread_step\<^sup>*\<^sup>*"

text \<open>A thread alone runs \<open>mark_used_at\<close>.\<close>

lemma alone:
  assumes "pcs s p = Collect i x"
  shows "reaches s (s\<lparr>pcs := (pcs s)(p := Returned (fst (mark_used_at now i x (shared s)))),
    shared := snd (mark_used_at now i x (shared s))\<rparr>)"
proof -
  let ?s1 = "s\<lparr>pcs := (pcs s)(p := Lookup i x), shared := gc_at now (shared s)\<rparr>"
  have 1: "thread_step s ?s1" by (rule collect[where now = now, OF assms])
  have l: "pcs ?s1 p = Lookup i x" by simp
  show ?thesis
  proof (cases "i \<in> dom (gc_at now (shared s))")
    case True
    then have "thread_step ?s1 (?s1\<lparr>pcs := (pcs ?s1)(p := Returned False)\<rparr>)" by (intro known[OF l]) simp
    from converse_rtranclp_into_rtranclp[OF 1 r_into_rtranclp[of thread_step, OF this]]
    show ?thesis using True by (cases s) (simp add: mark_used_at_def Let_def)
  next
    case False
    let ?s2 = "?s1\<lparr>pcs := (pcs ?s1)(p := Insert i x)\<rparr>"
    have 2: "thread_step ?s1 ?s2" using False by (intro fresh[OF l]) simp
    have m: "pcs ?s2 p = Insert i x" by simp
    from converse_rtranclp_into_rtranclp[OF 1 converse_rtranclp_into_rtranclp[OF 2 r_into_rtranclp[of thread_step, OF insert[OF m]]]]
    show ?thesis using False by (cases s) (simp add: mark_used_at_def Let_def)
  qed
qed

section \<open>Single use\<close>

text \<open>Marks one after the other: once the in-memory ledger has accepted a token, it refuses the
  token at every later time up to its expiry, whatever other tokens are marked in between and
  however often expired entries are collected.\<close>

theorem ledger_is_single_use:
  assumes "mark_used_at n0 i x s = (True, s0)" "n0 \<le> t" "\<not> num_lt x (NFloat (Fin t))"
    and "\<forall>op \<in> set ops. fst op \<le> t"
  shows "fst (mark_used_at t i y (ledger.run ops s0)) = False"
  by (rule ledger.spent_refused[OF ledger.spent_run[OF ledger_mark_spends[OF assms(1,3)] assms(4)]])

theorem ledger_is_single_use_witness:
  "fst (mark_used_at 1020 ''t'' (NFloat (Fin 1030))
     (ledger.run [(1010, ''u'', NFloat (Fin 1005))] (snd (mark_used_at 1000 ''t'' (NFloat (Fin 1030)) Map.empty)))) = False"
proof -
  have "mark_used_at 1000 ''t'' (NFloat (Fin 1030)) Map.empty = (True, [''t'' \<mapsto> NFloat (Fin 1030)])"
    by (simp add: mark_used_at_def gc_at_def)
  then show ?thesis
    using ledger_is_single_use[of 1000 "''t''" "NFloat (Fin 1030)" Map.empty _ 1020
        "[(1010, ''u'', NFloat (Fin 1005))]"]
    by (simp add: num_lt_def)
qed

text \<open>C33: Marks of two threads: the check and the insertion are separate steps, so from any state in
  which the token is unused two threads can both be told that theirs is the first use. The
  in-memory ledger of the threaded proxy does not enforce single use against concurrent
  replays.\<close>

theorem concurrent_marks_both_succeed:
  assumes "pcs s p = Collect i x" "pcs s q = Collect i y" "p \<noteq> q" "i \<notin> dom (shared s)"
  shows "\<exists>s'. reaches s s' \<and> pcs s' p = Returned True \<and> pcs s' q = Returned True"
proof -
  have u: "i \<notin> dom (gc_at n (shared s))" for n using assms(4) by (simp add: gc_at_def domIff)
  let ?g = "gc_at 0 (gc_at 0 (shared s))"
  have g: "i \<notin> dom ?g" using u by (auto simp: gc_at_def domIff)
  let ?s1 = "s\<lparr>pcs := (pcs s)(p := Lookup i x), shared := gc_at 0 (shared s)\<rparr>"
  let ?s2 = "?s1\<lparr>pcs := (pcs ?s1)(q := Lookup i y), shared := ?g\<rparr>"
  let ?s3 = "?s2\<lparr>pcs := (pcs ?s2)(p := Insert i x)\<rparr>"
  let ?s4 = "?s3\<lparr>pcs := (pcs ?s3)(q := Insert i y)\<rparr>"
  let ?s5 = "?s4\<lparr>pcs := (pcs ?s4)(p := Returned True), shared := (shared ?s4)(i \<mapsto> x)\<rparr>"
  let ?s6 = "?s5\<lparr>pcs := (pcs ?s5)(q := Returned True), shared := (shared ?s5)(i \<mapsto> y)\<rparr>"
  have 1: "thread_step s ?s1" by (rule collect[OF assms(1)])
  have 2: "thread_step ?s1 ?s2" using collect[of ?s1 q i y 0] assms(2,3) by simp
  have 3: "thread_step ?s2 ?s3" by (rule fresh[of _ _ _ x]) (use assms(3) g in auto)
  have 4: "thread_step ?s3 ?s4" by (rule fresh[of _ _ _ y]) (use assms(3) g in auto)
  have 5: "thread_step ?s4 ?s5" by (rule insert) (use assms(3) in auto)
  have 6: "thread_step ?s5 ?s6" by (rule insert) (use assms(3) in auto)
  note step = converse_rtranclp_into_rtranclp[of thread_step]
  have "reaches s ?s6"
    by (rule step[OF 1 step[OF 2 step[OF 3 step[OF 4 step[OF 5 r_into_rtranclp[of thread_step, OF 6]]]]]])
  moreover have "pcs ?s6 p = Returned True" "pcs ?s6 q = Returned True" using assms(3) by simp_all
  ultimately show ?thesis by blast
qed

theorem concurrent_marks_both_succeed_witness:
  "\<exists>s'. reaches \<lparr>pcs = (\<lambda>_. Collect ''t'' (NFloat (Fin 1030))), shared = Map.empty\<rparr> s' \<and>
     pcs s' 0 = Returned True \<and> pcs s' 1 = Returned True"
  by (rule concurrent_marks_both_succeed) auto

end
