(* ===== verification/Network.thy ===== *)
theory Network
  imports Network_Target Token_Ledger Token_Wire Boundary_Decision "HOL-Library.AList"
begin

text \<open>
  \<open>network.py\<close>: the local proxy that forwards a request only with a valid, unexpired,
  unused token. The token store is a pair of a mark operation and the state it keeps in the
  world, the upstream server is a function, the callback \<open>on_denied\<close> is a function. The
  request line and headers come parsed from \<open>http.server\<close>; writing the reply to the
  client's socket is taken to succeed, and the \<open>Server\<close> and \<open>Date\<close> headers that the
  library adds are left out.
\<close>

section \<open>The enforcer\<close>

record upstream_route =
  ur_tool_name :: string
  ur_upstream_base_url :: string
  ur_required_operation :: "string option"

record 'w enforcer =
  en_issuer :: token_issuer
  en_routes :: "string \<rightharpoonup> upstream_route"
  en_mark_used :: "pyval \<Rightarrow> pyval \<Rightarrow> ('w world_scheme, exn, bool) eff"
  en_on_denied :: "(string \<Rightarrow> string \<Rightarrow> ('w world_scheme, exn, unit) eff) option"
  en_max_body_bytes :: int
  en_server :: "(string \<times> int) option"
  en_thread :: bool

definition route_map :: "upstream_route list \<Rightarrow> string \<rightharpoonup> upstream_route" where
  "route_map routes = foldl (\<lambda>m r. m(ur_tool_name r \<mapsto> r)) Map.empty routes"

definition make_enforcer ::
  "token_issuer \<Rightarrow> upstream_route list \<Rightarrow> (pyval \<Rightarrow> pyval \<Rightarrow> ('w world_scheme, exn, bool) eff) \<Rightarrow>
   (string \<Rightarrow> string \<Rightarrow> ('w world_scheme, exn, unit) eff) option \<Rightarrow> int \<Rightarrow> exn + 'w enforcer" where
  "make_enforcer issuer routes mark on_denied max_body_bytes =
    (if max_body_bytes < 0 then
       Inl (Foreign (PyExc ''ValueError'' ''max_body_bytes must be non-negative.'') True)
     else Inr \<lparr>en_issuer = issuer, en_routes = route_map routes, en_mark_used = mark,
       en_on_denied = on_denied, en_max_body_bytes = max_body_bytes, en_server = None, en_thread = False\<rparr>)"

definition add_route :: "upstream_route \<Rightarrow> 'w enforcer \<Rightarrow> 'w enforcer" where
  "add_route route self = self\<lparr>en_routes := (en_routes self)(ur_tool_name route \<mapsto> route)\<rparr>"

text \<open>Binding the socket is the operating system's; it may refuse.\<close>

definition start_server ::
  "(string \<Rightarrow> int \<Rightarrow> exn + unit) \<Rightarrow> string \<Rightarrow> int \<Rightarrow> ('w enforcer \<times> 'w world_scheme, exn, unit) eff" where
  "start_server bind_socket host port = (\<lambda>(self, w).
    case bind_socket host port of
      Inl e \<Rightarrow> (Inl e, (self, w))
    | Inr _ \<Rightarrow> (Inr (), (self\<lparr>en_server := Some (host, port), en_thread := True\<rparr>,
        snd (log_line ''toolboundary.network'' 20
          (''toolboundary.network: enforcer listening on '' @ host @ '':'' @ str_of_int port) w))))"

definition stop_server :: "'w enforcer \<Rightarrow> 'w enforcer" where
  "stop_server self = self\<lparr>en_server := None, en_thread := False\<rparr>"

definition is_running :: "'w enforcer \<Rightarrow> bool" where
  "is_running self \<longleftrightarrow> en_server self \<noteq> None"

section \<open>Deciding on a request\<close>

definition authorize_and_resolve ::
  "'w enforcer \<Rightarrow> string \<Rightarrow> string option \<Rightarrow>
   ('w world_scheme, exn, bool \<times> string \<times> string option) eff" where
  "authorize_and_resolve self tool_name token_wire =
    (case en_routes self tool_name of
       None \<Rightarrow> returnE (False, ''UNKNOWN_ROUTE'', None)
     | Some route \<Rightarrow>
        if \<not> truthy token_wire then returnE (False, ''MISSING_TOKEN'', None)
        else (case from_wire (the token_wire) of
            Inl e \<Rightarrow> returnE (False, ''MALFORMED_TOKEN'', None)
          | Inr token \<Rightarrow> (\<lambda>w.
              case verify (en_issuer self) token None (Some tool_name) (ur_required_operation route) w of
                (Inl e, w1) \<Rightarrow>
                  if is_TokenExpired e then (Inr (False, ''TOKEN_EXPIRED'', None), w1)
                  else if is_TokenInvalid e then (Inr (False, ''TOKEN_INVALID'', None), w1)
                  else (Inl e, w1)
              | (Inr _, w1) \<Rightarrow>
                  bindE (en_mark_used self (at_token_id token) (at_expires_at token)) (\<lambda>first_use.
                    if \<not> first_use then returnE (False, ''TOKEN_ALREADY_USED'', None)
                    else returnE (True, ''ALLOWED'', Some (ur_upstream_base_url route))) w1)))"

section \<open>Handling a request\<close>

record http_request =
  hr_command :: string
  hr_path :: string
  hr_headers :: "(string \<times> string) list"
  hr_input :: string

record http_reply =
  rp_status :: int
  rp_headers :: "(string \<times> string) list"
  rp_body :: string
  rp_close :: bool

text \<open>What the upstream answers: a response, \<open>HTTPError\<close> with its status and the outcome of
  reading its body, or another exception.\<close>

datatype upstream_answer =
    UpResponse int "(string \<times> string) list" string
  | UpHTTPError int "exn + string"

type_synonym 'w upstream =
  "string \<Rightarrow> string \<Rightarrow> string option \<Rightarrow> (string \<times> string) list \<Rightarrow> ('w world_scheme, exn, upstream_answer) eff"

text \<open>\<open>headers.get(name)\<close>: the first header of that name, case ignored.\<close>

definition header_get :: "(string \<times> string) list \<Rightarrow> string \<Rightarrow> string option" where
  "header_get hs name = map_of (map (\<lambda>(k, v). (py_lower k, v)) hs) (py_lower name)"

definition AUTH_HEADER :: string where
  "AUTH_HEADER = ''X-ToolBoundary-Token''"

definition request_parts :: "string \<Rightarrow> string \<times> string" where
  "request_parts path = (case py_partition (CHR ''/'') (py_lstrip_char (CHR ''/'') path) of
     (tool_name, sep, rest) \<Rightarrow> (tool_name, if sep then rest else []))"

definition error_reply :: "int \<Rightarrow> string \<Rightarrow> http_reply" where
  "error_reply status body = \<lparr>rp_status = status,
     rp_headers = [(''Content-Type'', ''application/json''), (''Content-Length'', str_of_int (int (length body)))],
     rp_body = body, rp_close = True\<rparr>"

definition json_error :: "string \<Rightarrow> string" where
  "json_error what = [CHR ''{'', CHR 0x22] @ ''error'' @ [CHR 0x22, CHR '':'', CHR 0x22] @ what @ [CHR 0x22, CHR ''}'']"

definition denied_body :: "string \<Rightarrow> string" where
  "denied_body reason = [CHR ''{'', CHR 0x22] @ ''error'' @ [CHR 0x22, CHR '':'', CHR 0x22] @ ''denied'' @
     [CHR 0x22, CHR '','', CHR 0x22] @ ''reason'' @ [CHR 0x22, CHR '':'', CHR 0x22] @ reason @ [CHR 0x22, CHR ''}'']"

text \<open>\<open>on_denied\<close>: its ordinary exceptions are swallowed.\<close>

definition notify_denied :: "'w enforcer \<Rightarrow> string \<Rightarrow> string \<Rightarrow> ('w world_scheme, exn, unit) eff" where
  "notify_denied self tool_name reason w =
    (case en_on_denied self of
       None \<Rightarrow> (Inr (), w)
     | Some f \<Rightarrow> (case f tool_name reason w of
         (Inr _, w') \<Rightarrow> (Inr (), w')
       | (Inl e, w') \<Rightarrow> ((if is_exception e then Inr () else Inl e), w')))"

definition forward_headers :: "(string \<times> string) list \<Rightarrow> (string \<times> string) list" where
  "forward_headers hs =
    foldl (\<lambda>d (k, v). AList.update k v d) []
      (filter (\<lambda>(k, v). py_lower k \<notin> {''host'', py_lower AUTH_HEADER, ''content-length''}) hs)"

definition reply_headers :: "(string \<times> string) list \<Rightarrow> string \<Rightarrow> (string \<times> string) list" where
  "reply_headers hs body =
    filter (\<lambda>(k, v). py_lower k \<notin> {''transfer-encoding'', ''connection''}) hs @
    [(''Content-Length'', str_of_int (int (length body)))]"

text \<open>The length of the request body, or the reply that refuses it.\<close>

definition body_length :: "int \<Rightarrow> (string \<times> string) list \<Rightarrow> http_reply + int" where
  "body_length max_body_bytes hs =
    (if header_get hs ''Transfer-Encoding'' \<noteq> None then
       Inl (error_reply 400 (json_error ''unsupported_transfer_encoding''))
     else (case (case header_get hs ''Content-Length'' of None \<Rightarrow> Some 0 | Some s \<Rightarrow> int_of_string s) of
         None \<Rightarrow> Inl (error_reply 400 (json_error ''invalid_content_length''))
       | Some n \<Rightarrow>
           if n < 0 then Inl (error_reply 400 (json_error ''invalid_content_length''))
           else if n > max_body_bytes then Inl (error_reply 413 (json_error ''body_too_large''))
           else Inr n))"

definition forward :: "'w upstream \<Rightarrow> http_request \<Rightarrow> string \<Rightarrow> int \<Rightarrow> ('w world_scheme, exn, http_reply) eff" where
  "forward upstream rq target_url n w =
    (let body = (if n \<noteq> 0 then Some (take (nat n) (hr_input rq)) else None)
     in case upstream (hr_command rq) target_url body (forward_headers (hr_headers rq)) w of
          (Inr (UpResponse status hs response_body), w') \<Rightarrow>
            (Inr \<lparr>rp_status = status, rp_headers = reply_headers hs response_body, rp_body = response_body,
               rp_close = False\<rparr>, w')
        | (Inr (UpHTTPError code read), w') \<Rightarrow>
            (case read of Inl e \<Rightarrow> (Inl e, w')
             | Inr response_body \<Rightarrow>
                 (Inr \<lparr>rp_status = code,
                    rp_headers = [(''Content-Length'', str_of_int (int (length response_body)))],
                    rp_body = response_body, rp_close = False\<rparr>, w'))
        | (Inl e, w') \<Rightarrow>
            if is_exception e then
              (let body = json_error ''upstream_unreachable''
               in (Inr \<lparr>rp_status = 502, rp_headers = [(''Content-Length'', str_of_int (int (length body)))],
                    rp_body = body, rp_close = False\<rparr>,
                   snd (log_line ''toolboundary.network'' 30
                     (''toolboundary.network: upstream request failed: '' @ exn_text e) w')))
            else (Inl e, w'))"

definition handle :: "'w enforcer \<Rightarrow> 'w upstream \<Rightarrow> http_request \<Rightarrow> ('w world_scheme, exn, http_reply) eff" where
  "handle self upstream rq =
    (case request_parts (hr_path rq) of (tool_name, rest) \<Rightarrow>
     bindE (authorize_and_resolve self tool_name (header_get (hr_headers rq) AUTH_HEADER))
       (\<lambda>(allowed, reason, upstream_base).
          if \<not> allowed then
            thenE (notify_denied self tool_name reason) (returnE (error_reply 403 (denied_body reason)))
          else
            bindE (liftE (resolve_target upstream_base rest)) (\<lambda>target_url.
              case target_url of
                None \<Rightarrow> thenE (notify_denied self tool_name ''BAD_PATH'')
                          (returnE (error_reply 400 (json_error ''bad_path'')))
              | Some url \<Rightarrow>
                  (case body_length (en_max_body_bytes self) (hr_headers rq) of
                     Inl reply \<Rightarrow> returnE reply
                   | Inr n \<Rightarrow> forward upstream rq url n))))"

end
