(* ===== verification/Network_Safety.thy ===== *)
theory Network_Safety
  imports Network
begin

text \<open>
  What the proxy guarantees: which requests reach an upstream, that a token opens its route
  once, and where the handler falls short of its documentation.
\<close>

section \<open>The decision\<close>

lemma authorize_allowed_iff:
  "authorize_and_resolve self tool wire w = (Inr (True, reason, base), w') \<longleftrightarrow>
    (\<exists>route s token w1. en_routes self tool = Some route \<and> wire = Some s \<and> s \<noteq> [] \<and>
      from_wire s = Inr token \<and>
      verify (en_issuer self) token None (Some tool) (ur_required_operation route) w = (Inr (), w1) \<and>
      en_mark_used self (at_token_id token) (at_expires_at token) w1 = (Inr True, w') \<and>
      reason = ''ALLOWED'' \<and> base = Some (ur_upstream_base_url route))"
  by (cases wire)
    (auto simp: authorize_and_resolve_def bindE_def split: option.splits sum.splits prod.splits if_splits)

text \<open>A request that passes: everything between the request line and the upstream.\<close>

definition passes ::
  "'w enforcer \<Rightarrow> http_request \<Rightarrow> 'w world_scheme \<Rightarrow> string \<Rightarrow> int \<Rightarrow> 'w world_scheme \<Rightarrow> bool" where
  "passes self rq w url n w2 \<longleftrightarrow>
    (case request_parts (hr_path rq) of (tool, rest) \<Rightarrow>
      \<exists>reason base. authorize_and_resolve self tool (header_get (hr_headers rq) AUTH_HEADER) w =
          (Inr (True, reason, Some base), w2) \<and>
        resolve_target (Some base) rest = Inr (Some url) \<and>
        body_length (en_max_body_bytes self) (hr_headers rq) = Inr n)"

lemma handle_passes: "passes self rq w url n w2 \<Longrightarrow> handle self up rq w = forward up rq url n w2"
  by (auto simp: passes_def handle_def bindE_def split: prod.splits)

lemma resolve_None: "resolve_target None rest = Inr None"
  by (simp add: resolve_target_def)

lemma handle_refuses:
  assumes "\<nexists>url n w2. passes self rq w url n w2"
  shows "handle self up rq w = handle self up' rq w"
proof -
  obtain tool rest where p: "request_parts (hr_path rq) = (tool, rest)" by fastforce
  obtain r w1 where a: "authorize_and_resolve self tool (header_get (hr_headers rq) AUTH_HEADER) w = (r, w1)"
    by fastforce
  show ?thesis
  proof (cases r)
    case (Inl e)
    then show ?thesis by (simp add: handle_def p a bindE_def)
  next
    case (Inr d)
    obtain allowed reason base where d: "d = (allowed, reason, base)" by (metis prod.exhaust)
    show ?thesis
    proof (cases "allowed \<and> (\<exists>b url. base = Some b \<and> resolve_target base rest = Inr (Some url))")
      case True
      then obtain b url where b: "allowed" "base = Some b" "resolve_target base rest = Inr (Some url)" by auto
      then have "\<nexists>n. body_length (en_max_body_bytes self) (hr_headers rq) = Inr n"
        using assms p a Inr d by (auto simp: passes_def)
      then obtain reply where "body_length (en_max_body_bytes self) (hr_headers rq) = Inl reply"
        by (cases "body_length (en_max_body_bytes self) (hr_headers rq)") auto
      then show ?thesis using b p a Inr d by (simp add: handle_def bindE_def)
    next
      case False
      then show ?thesis
        using p a Inr d resolve_None
        by (cases base) (auto simp: handle_def bindE_def split: sum.splits option.splits)
    qed
  qed
qed

text \<open>C3: Only a request with a good token reaches an upstream. If two upstream servers could tell
  the difference for a request, by anything in the reply or the final state, then the request
  carries a token signed with the enforcer's secret for exactly the route it names, with the
  operation the route requires, unexpired at the first clock reading and accepted by the
  ledger as a first use, its path resolves to a target and its length is admissible; and what
  the upstream is sent is that target. Every other request is refused without it.\<close>

theorem only_authorized_requests_are_forwarded:
  assumes "handle self up rq w \<noteq> handle self up' rq w"
  shows "\<exists>tool rest route s token url n w1 w2. request_parts (hr_path rq) = (tool, rest) \<and>
    en_routes self tool = Some route \<and> header_get (hr_headers rq) AUTH_HEADER = Some s \<and>
    from_wire s = Inr token \<and>
    sign (en_issuer self) (token_payload token) = Inr (at_signature token) \<and>
    at_tool_name token = PStr tool \<and>
    (\<forall>x. ur_required_operation route = Some x \<longrightarrow> at_operation token = PStr x) \<and>
    (\<exists>x. as_num (at_expires_at token) = Some x \<and> \<not> num_lt x (NFloat (Fin (wall w (wall_ix w))))) \<and>
    w1 = w\<lparr>wall_ix := Suc (wall_ix w)\<rparr> \<and>
    en_mark_used self (at_token_id token) (at_expires_at token) w1 = (Inr True, w2) \<and>
    resolve_target (Some (ur_upstream_base_url route)) rest = Inr (Some url) \<and>
    body_length (en_max_body_bytes self) (hr_headers rq) = Inr n \<and>
    handle self up rq w = forward up rq url n w2"
proof -
  obtain url n w2 where p: "passes self rq w url n w2" using handle_refuses assms by blast
  obtain tool rest where r: "request_parts (hr_path rq) = (tool, rest)" by fastforce
  obtain reason base where
    a: "authorize_and_resolve self tool (header_get (hr_headers rq) AUTH_HEADER) w = (Inr (True, reason, Some base), w2)"
    and t: "resolve_target (Some base) rest = Inr (Some url)" "body_length (en_max_body_bytes self) (hr_headers rq) = Inr n"
    using p r by (auto simp: passes_def)
  show ?thesis
    using a t r handle_passes[OF p] unfolding authorize_allowed_iff verify_ok_iff by force
qed

section \<open>The handler falls short\<close>

text \<open>C39: The signature of a token is compared with \<open>hmac.compare_digest\<close>, which raises on
  non-ASCII text. A request whose token has a readable payload and a signature with such a
  character is not answered at all: the \<open>TypeError\<close> leaves the handler, no 403 is sent and
  \<open>on_denied\<close> is not called. It is not forwarded either.\<close>

theorem non_ascii_signature_gets_no_reply:
  assumes "request_parts (hr_path rq) = (tool, rest)" "en_routes self tool = Some route"
    and "header_get (hr_headers rq) AUTH_HEADER = Some s" "s \<noteq> []" "from_wire s = Inr token"
    and "sign (en_issuer self) (token_payload token) = Inr sig" "\<not> ascii (at_signature token)"
  shows "handle self up rq w = (Inl (Foreign (PyExc ''TypeError''
    ''comparing strings with non-ASCII characters is not supported'') True), w)"
proof -
  have "verify (en_issuer self) token None (Some tool) (ur_required_operation route) w =
    (Inl (Foreign (PyExc ''TypeError'' ''comparing strings with non-ASCII characters is not supported'') True), w)"
    using assms(6,7) by (simp add: verify_def bindE_def compare_digest_def)
  then show ?thesis
    using assms(1-5) by (simp add: handle_def authorize_and_resolve_def bindE_def)
qed

text \<open>The reply repeats the length: the upstream's own \<open>Content-Length\<close> is passed on and
  another is added, so a response with one length header is proxied with two.\<close>

theorem reply_repeats_content_length:
  "length (filter (\<lambda>(k, v). py_lower k = ''content-length'') (reply_headers hs body)) =
   Suc (length (filter (\<lambda>(k, v). py_lower k = ''content-length'') hs))"
proof -
  have "py_lower ''Content-Length'' = ''content-length''" by code_simp
  moreover have "filter (\<lambda>(k, v). py_lower k = ''content-length'')
      (filter (\<lambda>(k, v). py_lower k \<notin> {''transfer-encoding'', ''connection''}) hs) =
    filter (\<lambda>(k, v). py_lower k = ''content-length'') hs"
    by (auto simp: filter_filter intro!: filter_cong)
  ultimately show ?thesis by (simp add: reply_headers_def)
qed

section \<open>A token from the boundary to the proxy\<close>

lemma mark_used_apply:
  assumes "at_token_id t = PStr i" "as_num (at_expires_at t) = Some x"
  shows "mark_used (at_token_id t) (at_expires_at t) w =
    (case mark_used_at (wall w (wall_ix w)) i x (used_tokens w) of
       (first, used) \<Rightarrow> (Inr first, w\<lparr>wall_ix := Suc (wall_ix w), used_tokens := used\<rparr>))"
  using assms by (simp add: mark_used_def bindE_def time_time_def split: prod.splits)

lemma mark_used_Inr:
  assumes "mark_used v e w = (Inr b, w')"
  shows "\<exists>i x. v = PStr i \<and> as_num e = Some x \<and> b = fst (mark_used_at (wall w (wall_ix w)) i x (used_tokens w)) \<and>
    w' = w\<lparr>wall_ix := Suc (wall_ix w), used_tokens := snd (mark_used_at (wall w (wall_ix w)) i x (used_tokens w))\<rparr>"
  using assms
  by (auto simp: mark_used_def bindE_def time_time_def split: prod.splits pyval.splits option.splits)

lemma issued_token:
  assumes "check_and_authorize b rq w = (Inr t, w')" "b_token_issuer b = Some issuer"
  obtains i q where "at_token_id t = PStr i" "at_agent_name t = PStr (b_agent_name b)"
    "at_tool_name t = PStr (rq_tool_name rq)" "at_operation t = opt_str (rq_operation rq)"
    "at_issued_at t = PFloat (Fin q)" "at_expires_at t = PFloat (fadd (Fin q) (ti_ttl_seconds issuer))"
    "sign issuer (token_payload t) = Inr (at_signature t)"
proof -
  obtain w1 where "issue issuer (b_agent_name b) (rq_tool_name rq) (rq_operation rq) w1 = (Inr t, w')"
    using assms by (auto simp: check_and_authorize_def thenE_Inr_iff)
  then show ?thesis
    using that by (auto simp: issue_def bindE_Inr_iff time_time_def token_secret_def Let_def token_payload_def)
qed

lemma issued_wire:
  assumes "check_and_authorize b rq w = (Inr t, w')" "b_token_issuer b = Some issuer"
    and "at_issued_at t = PFloat (Fin q)" "is_double q"
  shows "\<exists>s. to_wire t = Inr s \<and> s \<noteq> [] \<and> from_wire s = Inr t"
proof -
  obtain i q' where f: "at_token_id t = PStr i" "at_agent_name t = PStr (b_agent_name b)"
    "at_tool_name t = PStr (rq_tool_name rq)" "at_operation t = opt_str (rq_operation rq)"
    "at_issued_at t = PFloat (Fin q')" "at_expires_at t = PFloat (fadd (Fin q') (ti_ttl_seconds issuer))"
    "sign issuer (token_payload t) = Inr (at_signature t)"
    by (rule issued_token[OF assms(1,2)])
  have "q' = q" using assms(3) f(5) by simp
  then have "wire_token t"
    using assms(4) fadd_json[OF assms(4)] sign_no_dot[OF f(7)] by (simp add: wire_token_def f)
  then obtain s where s: "to_wire t = Inr s" "from_wire s = Inr t" using wire_roundtrip by blast
  moreover have "s \<noteq> []" using s(1) by (auto simp: to_wire_def split: sum.splits)
  ultimately show ?thesis by blast
qed

text \<open>An unexpired token at the proxy: only the ledger is left to decide; an expired one is refused.\<close>

lemma presented_token:
  fixes u :: "'x ledger_world_scheme"
  assumes "s \<noteq> []" "from_wire s = Inr t" "at_tool_name t = PStr tool" "at_operation t = opt_str opn"
    and "sign (en_issuer self) (token_payload t) = Inr (at_signature t)"
    and "en_routes self tool = Some route" "en_mark_used self = mark_used"
    and "\<And>x. ur_required_operation route = Some x \<Longrightarrow> opn = Some x"
    and "at_token_id t = PStr i" "as_num (at_expires_at t) = Some x"
    and "\<not> num_lt x (NFloat (Fin (wall u (wall_ix u))))"
  shows "authorize_and_resolve self tool (Some s) u =
    (case mark_used_at (wall u (Suc (wall_ix u))) i x (used_tokens u) of (first, used) \<Rightarrow>
      (Inr (if first then (True, ''ALLOWED'', Some (ur_upstream_base_url route)) else (False, ''TOKEN_ALREADY_USED'', None)),
       u\<lparr>wall_ix := Suc (Suc (wall_ix u)), used_tokens := used\<rparr>))"
proof -
  have "verify (en_issuer self) t None (Some tool) (ur_required_operation route) u = (Inr (), u\<lparr>wall_ix := Suc (wall_ix u)\<rparr>)"
    using assms(3-5,8,10,11) sign_ascii[OF assms(5)] by (auto simp: verify_ok_iff opt_str_def)
  then show ?thesis
    using assms(1,2,6,7)
    by (simp add: authorize_and_resolve_def mark_used_apply[OF assms(9,10)] bindE_def split: prod.splits)
qed

text \<open>C5: From an allowed call to one opened route. A token that the boundary mints for a call, sent
  in its wire form to an enforcer with the same issuer and an in-memory ledger that has not
  seen it, opens the route of the call's tool while it is unexpired, and a second presentation
  to the ledger left behind is refused as already used until the token expires.\<close>

theorem minted_token_opens_its_route_once:
  fixes v :: "'x ledger_world_scheme"
  assumes "check_and_authorize b rq w = (Inr t, w')" "b_token_issuer b = Some (en_issuer self)"
    and "at_issued_at t = PFloat (Fin q)" "is_double q"
    and "en_routes self (rq_tool_name rq) = Some route" "en_mark_used self = mark_used"
    and "\<And>x. ur_required_operation route = Some x \<Longrightarrow> rq_operation rq = Some x"
    and "at_token_id t = PStr i" "as_num (at_expires_at t) = Some x"
    and "used_tokens v i = None" "\<not> num_lt x (NFloat (Fin (wall v (wall_ix v))))"
  shows "\<exists>s v'. to_wire t = Inr s \<and>
    authorize_and_resolve self (rq_tool_name rq) (Some s) v =
      (Inr (True, ''ALLOWED'', Some (ur_upstream_base_url route)), v') \<and>
    (\<forall>u. used_tokens u = used_tokens v' \<longrightarrow> \<not> num_lt x (NFloat (Fin (wall u (wall_ix u)))) \<longrightarrow>
       \<not> num_lt x (NFloat (Fin (wall u (Suc (wall_ix u))))) \<longrightarrow>
       fst (authorize_and_resolve self (rq_tool_name rq) (Some s) u) = Inr (False, ''TOKEN_ALREADY_USED'', None))"
proof -
  obtain s where s: "to_wire t = Inr s" "s \<noteq> []" "from_wire s = Inr t"
    using issued_wire[OF assms(1-4)] by blast
  have f: "at_tool_name t = PStr (rq_tool_name rq)" "at_operation t = opt_str (rq_operation rq)"
    "sign (en_issuer self) (token_payload t) = Inr (at_signature t)"
    by (rule issued_token[OF assms(1,2)], assumption)+
  have auth: "authorize_and_resolve self (rq_tool_name rq) (Some s) u =
      (case mark_used_at (wall u (Suc (wall_ix u))) i x (used_tokens u) of (first, used) \<Rightarrow>
        (Inr (if first then (True, ''ALLOWED'', Some (ur_upstream_base_url route)) else (False, ''TOKEN_ALREADY_USED'', None)),
         u\<lparr>wall_ix := Suc (Suc (wall_ix u)), used_tokens := used\<rparr>))"
    if "\<not> num_lt x (NFloat (Fin (wall u (wall_ix u))))" for u :: "'x ledger_world_scheme"
    by (rule presented_token[OF s(2,3) f assms(5,6,7,8,9) that])
  have m: "fst (mark_used_at n i x (used_tokens v)) = True" "snd (mark_used_at n i x (used_tokens v)) i = Some x" for n
    using assms(10) by (auto simp: mark_used_at_def Let_def gc_at_def domIff)
  let ?n = "wall v (Suc (wall_ix v))"
  let ?v' = "v\<lparr>wall_ix := Suc (Suc (wall_ix v)), used_tokens := snd (mark_used_at ?n i x (used_tokens v))\<rparr>"
  have "authorize_and_resolve self (rq_tool_name rq) (Some s) v =
      (Inr (True, ''ALLOWED'', Some (ur_upstream_base_url route)), ?v')"
    using auth[OF assms(11)] m(1)[of ?n] by (simp add: case_prod_beta)
  moreover have "fst (authorize_and_resolve self (rq_tool_name rq) (Some s) u) = Inr (False, ''TOKEN_ALREADY_USED'', None)"
    if u: "used_tokens u = used_tokens ?v'" "\<not> num_lt x (NFloat (Fin (wall u (wall_ix u))))"
      "\<not> num_lt x (NFloat (Fin (wall u (Suc (wall_ix u)))))" for u :: "'x ledger_world_scheme"
  proof -
    have "ledger_spent (wall u (Suc (wall_ix u))) (used_tokens u) i"
      using u(1,3) m(2) by (simp add: ledger_spent_def)
    then have "fst (mark_used_at (wall u (Suc (wall_ix u))) i x (used_tokens u)) = False"
      by (rule ledger.spent_refused)
    then show ?thesis using auth[OF u(2)] by (simp add: case_prod_beta)
  qed
  ultimately show ?thesis using s(1) by blast
qed

section \<open>Sequences of requests\<close>

fun serve :: "'w enforcer \<Rightarrow> (string \<times> string option) list \<Rightarrow> 'w world_scheme \<Rightarrow> 'w world_scheme" where
  "serve self [] w = w"
| "serve self ((tool, wire) # rs) w = serve self rs (snd (authorize_and_resolve self tool wire w))"

lemma check_expiry_world: "\<exists>n. snd (check_expiry v w) = w\<lparr>wall_ix := wall_ix w + n\<rparr>"
  by (auto simp: check_expiry_def bindE_def time_time_def split: option.splits
      intro: exI[of _ 1] exI[of _ 2])

lemma verify_world: "\<exists>n. snd (verify self t ag tool opn w) = w\<lparr>wall_ix := wall_ix w + n\<rparr>"
proof -
  obtain n where n: "snd (check_expiry (at_expires_at t) w) = w\<lparr>wall_ix := wall_ix w + n\<rparr>"
    using check_expiry_world by blast
  have "snd (verify self t ag tool opn w) \<in> {w, snd (check_expiry (at_expires_at t) w)}"
    by (cases "check_expiry (at_expires_at t) w")
      (auto simp: verify_def bindE_def thenE_def split: sum.splits)
  then show ?thesis using n by (auto intro: exI[of _ 0])
qed

text \<open>A request reads the clock forward and marks at most one token, at one of its readings.\<close>

definition advances :: "'w ledger_world_scheme \<Rightarrow> 'w ledger_world_scheme \<Rightarrow> bool" where
  "advances w w' \<longleftrightarrow> wall w' = wall w \<and> wall_ix w \<le> wall_ix w' \<and>
    (used_tokens w' = used_tokens w \<or>
     (\<exists>k j y. wall_ix w \<le> k \<and> k < wall_ix w' \<and> used_tokens w' = snd (mark_used_at (wall w k) j y (used_tokens w))))"

lemma mark_used_advances: "advances w (snd (mark_used v e w))"
  by (auto simp: advances_def mark_used_def bindE_def time_time_def case_prod_beta
      split: pyval.splits option.splits intro!: exI[of _ "wall_ix w"])

lemma advances_readings: "advances (w\<lparr>wall_ix := wall_ix w + n\<rparr>) w' \<Longrightarrow> advances w w'"
  by (fastforce simp: advances_def)

lemma authorize_advances:
  assumes "en_mark_used self = mark_used"
  shows "advances w (snd (authorize_and_resolve self tool wire w))"
proof -
  have id: "advances w w" by (simp add: advances_def)
  show ?thesis
  proof (cases "\<exists>route token. en_routes self tool = Some route \<and> truthy wire \<and> from_wire (the wire) = Inr token")
    case False
    then show ?thesis
      using id by (auto simp: authorize_and_resolve_def split: option.splits sum.splits)
  next
    case True
    then obtain route token where t: "en_routes self tool = Some route" "truthy wire" "from_wire (the wire) = Inr token"
      by blast
    obtain r w1 where v: "verify (en_issuer self) token None (Some tool) (ur_required_operation route) w = (r, w1)"
      by fastforce
    obtain n where n: "w1 = w\<lparr>wall_ix := wall_ix w + n\<rparr>"
      using verify_world[of "en_issuer self" token None "Some tool" "ur_required_operation route" w] v by auto
    have w1: "advances w w1" unfolding n by (simp add: advances_def)
    have "snd (authorize_and_resolve self tool wire w) \<in> {w1, snd (mark_used (at_token_id token) (at_expires_at token) w1)}"
      using t v assms
      by (cases r) (auto simp: authorize_and_resolve_def bindE_def split: prod.splits sum.splits)
    moreover have "advances w (snd (mark_used (at_token_id token) (at_expires_at token) w1))"
      using mark_used_advances[of w1] n advances_readings by blast
    ultimately show ?thesis using w1 by auto
  qed
qed

lemma spent_advances:
  assumes "ledger_spent t (used_tokens w) i" "advances w w'" "\<forall>k < wall_ix w'. wall w k \<le> t"
  shows "ledger_spent t (used_tokens w') i"
  using assms ledger.spent_kept unfolding advances_def by metis

lemma serve_advances:
  assumes "en_mark_used self = mark_used"
  shows "wall (serve self rs w) = wall w \<and> wall_ix w \<le> wall_ix (serve self rs w) \<and>
    (ledger_spent t (used_tokens w) i \<longrightarrow> (\<forall>k < wall_ix (serve self rs w). wall w k \<le> t) \<longrightarrow>
      ledger_spent t (used_tokens (serve self rs w)) i)"
proof (induction rs arbitrary: w)
  case (Cons r rs)
  obtain tool wire where r: "r = (tool, wire)" by fastforce
  let ?w = "snd (authorize_and_resolve self tool wire w)"
  have a: "advances w ?w" by (rule authorize_advances[OF assms])
  then have "wall ?w = wall w" "wall_ix w \<le> wall_ix ?w" by (simp_all add: advances_def)
  then show ?case using Cons.IH[of ?w] spent_advances[OF _ a] unfolding r by fastforce
qed simp

lemma allowed_marks:
  assumes "en_mark_used self = mark_used"
    and "authorize_and_resolve self tool (Some s) w = (Inr (True, r, base), w')"
  shows "\<exists>token i x. from_wire s = Inr token \<and> at_token_id token = PStr i \<and> as_num (at_expires_at token) = Some x \<and>
    \<not> num_lt x (NFloat (Fin (wall w (wall_ix w)))) \<and>
    fst (mark_used_at (wall w (Suc (wall_ix w))) i x (used_tokens w)) = True \<and>
    w' = w\<lparr>wall_ix := Suc (Suc (wall_ix w)),
      used_tokens := snd (mark_used_at (wall w (Suc (wall_ix w))) i x (used_tokens w))\<rparr>"
proof -
  obtain route :: upstream_route and token w1 where t: "from_wire s = Inr token"
    and v: "verify (en_issuer self) token None (Some tool) (ur_required_operation route) w = (Inr (), w1)"
    and m: "mark_used (at_token_id token) (at_expires_at token) w1 = (Inr True, w')"
    using assms(2) unfolding authorize_allowed_iff assms(1) by auto
  obtain x where x: "as_num (at_expires_at token) = Some x" "\<not> num_lt x (NFloat (Fin (wall w (wall_ix w))))"
    and w1: "w1 = w\<lparr>wall_ix := Suc (wall_ix w)\<rparr>"
    using v unfolding verify_ok_iff by blast
  show ?thesis using mark_used_Inr[OF m] t x unfolding w1 by auto
qed

text \<open>C35: Replay over any sequence of requests, on a clock that does not go back: when the proxy with
  its in-memory ledger has allowed a token once and, after whatever other requests, allows the
  same token again, then the token was unexpired at the clock reading of the signature check
  and expired at the next reading, with which the ledger collects its entries. Up to its
  expiry a token is therefore allowed once.\<close>

theorem replay_needs_expiry_between_two_readings:
  fixes w :: "'x ledger_world_scheme"
  assumes "en_mark_used self = mark_used" "\<And>i j. i \<le> j \<Longrightarrow> wall w i \<le> wall w j"
    and "authorize_and_resolve self tool (Some s) w = (Inr (True, r, base), w1)"
    and "authorize_and_resolve self tool' (Some s) (serve self rs w1) = (Inr (True, r', base'), w3)"
  shows "\<exists>token x k. from_wire s = Inr token \<and> as_num (at_expires_at token) = Some x \<and>
    k = wall_ix (serve self rs w1) \<and> \<not> num_lt x (NFloat (Fin (wall w k))) \<and> num_lt x (NFloat (Fin (wall w (Suc k))))"
proof -
  let ?w2 = "serve self rs w1"
  let ?k = "wall_ix ?w2"
  obtain token i x where t: "from_wire s = Inr token" "at_token_id token = PStr i" "as_num (at_expires_at token) = Some x"
    and 1: "fst (mark_used_at (wall w (Suc (wall_ix w))) i x (used_tokens w)) = True"
      "w1 = w\<lparr>wall_ix := Suc (Suc (wall_ix w)), used_tokens := snd (mark_used_at (wall w (Suc (wall_ix w))) i x (used_tokens w))\<rparr>"
    using allowed_marks[OF assms(1,3)] by blast
  have w2: "wall ?w2 = wall w" "Suc (Suc (wall_ix w)) \<le> ?k"
    using serve_advances[OF assms(1), of rs w1] 1(2) by simp_all
  have 2: "\<not> num_lt x (NFloat (Fin (wall w ?k)))"
    "fst (mark_used_at (wall w (Suc ?k)) i x (used_tokens ?w2)) = True"
    using allowed_marks[OF assms(1,4)] t w2(1) by auto
  have "num_lt x (NFloat (Fin (wall w (Suc ?k))))"
  proof (rule ccontr)
    assume u: "\<not> ?thesis"
    have "mark_used_at (wall w (Suc (wall_ix w))) i x (used_tokens w) = (True, used_tokens w1)"
      using 1 by (simp add: prod_eq_iff)
    then have "ledger_spent (wall w (Suc ?k)) (used_tokens w1) i" using u by (rule ledger_mark_spends)
    moreover have "\<forall>k < ?k. wall w1 k \<le> wall w (Suc ?k)" using assms(2) 1(2) by simp
    ultimately have "ledger_spent (wall w (Suc ?k)) (used_tokens ?w2) i"
      using serve_advances[OF assms(1), of rs w1] by blast
    then show False using ledger.spent_refused 2(2) by blast
  qed
  then show ?thesis using t 2(1) by blast
qed

section \<open>A concrete proxy\<close>

text \<open>
  An enforcer with one route and the in-memory ledger, in a world whose clock reads 1000 three
  times and 2000 from then on; the token is the one the sample boundary mints.
\<close>

definition proxy_world :: ledger_world where
  "proxy_world = \<lparr>wall = (\<lambda>n. if n \<le> 2 then 1000 else 2000), wall_ix = 0, mono = (\<lambda>_. 50), mono_ix = 0,
     uuids = (\<lambda>_. []), uuid_ix = 0, secrets = (\<lambda>_. []), secret_ix = 0, environ = Map.empty, log = [],
     files = Map.empty, unwritable = {}, posts = [], limiters = (\<lambda>_. Map.empty), used_tokens = Map.empty\<rparr>"

definition pay_route :: upstream_route where
  "pay_route = \<lparr>ur_tool_name = ''pay'', ur_upstream_base_url = ''http://pay.local'', ur_required_operation = Some ''send''\<rparr>"

definition sample_enforcer :: "unit ledger_world_ext enforcer" where
  "sample_enforcer = \<lparr>en_issuer = \<lparr>ti_secret = ''k'', ti_ttl_seconds = Fin 30\<rparr>, en_routes = route_map [pay_route],
     en_mark_used = mark_used, en_on_denied = None, en_max_body_bytes = 100, en_server = None, en_thread = False\<rparr>"

definition proxied :: "string \<Rightarrow> http_request" where
  "proxied s = \<lparr>hr_command = ''GET'', hr_path = ''/pay/x'', hr_headers = [(AUTH_HEADER, s)], hr_input = []\<rparr>"

definition answering :: "int \<Rightarrow> 'w upstream" where
  "answering status = (\<lambda>_ _ _ _ w. (Inr (UpResponse status [] []), w))"

lemma sample_enforcer_fields [simp]:
  "en_issuer sample_enforcer = \<lparr>ti_secret = ''k'', ti_ttl_seconds = Fin 30\<rparr>"
  "en_routes sample_enforcer ''pay'' = Some pay_route" "en_mark_used sample_enforcer = mark_used"
  "en_max_body_bytes sample_enforcer = 100" "en_on_denied sample_enforcer = None"
  "ur_required_operation pay_route = Some ''send''" "ur_upstream_base_url pay_route = ''http://pay.local''"
  by (simp_all add: sample_enforcer_def route_map_def pay_route_def)

lemma proxy_world_fields [simp]:
  "wall proxy_world n = (if n \<le> 2 then 1000 else 2000)" "wall_ix proxy_world = 0" "used_tokens proxy_world = Map.empty"
  by (simp_all add: proxy_world_def)

lemma proxied_fields [simp]:
  "request_parts (hr_path (proxied s)) = (''pay'', ''x'')"
  "header_get (hr_headers (proxied s)) AUTH_HEADER = Some s"
  "header_get (hr_headers (proxied s)) ''Transfer-Encoding'' = None"
  "header_get (hr_headers (proxied s)) ''Content-Length'' = None"
proof -
  have l: "py_lower AUTH_HEADER \<noteq> py_lower ''Transfer-Encoding''" "py_lower AUTH_HEADER \<noteq> py_lower ''Content-Length''"
    by code_simp+
  show "request_parts (hr_path (proxied s)) = (''pay'', ''x'')" unfolding proxied_def by (simp add: request_parts_def py_lstrip_char_def)
  show "header_get (hr_headers (proxied s)) AUTH_HEADER = Some s"
    "header_get (hr_headers (proxied s)) ''Transfer-Encoding'' = None"
    "header_get (hr_headers (proxied s)) ''Content-Length'' = None"
    using l by (simp_all add: header_get_def proxied_def)
qed

lemma sample_wall: "keeps wall (check sample_boundary rq)"
proof (rule keeps_check)
  show "keeps wall (local_checks sample_boundary (context_of sample_boundary rq))"
    by (rule keeps_local_checks)
      (simp_all add: keeps_def check_and_record_def bindE_def time_monotonic_def split: prod.splits)
  show "keeps wall (s ev)" if "s \<in> set (b_audit sample_boundary)" for s ev
    using that unfolding sample_fields default_sinks_def logging_sink_emit_def Let_def
    by (auto intro!: keeps_intros)
qed simp_all

text \<open>The sample token, its wire form, and that it verifies before 1030.\<close>

lemma sample_token:
  obtains t w' s i where "check_and_authorize sample_boundary (send_request (PInt 120)) sample_world = (Inr t, w')"
    "at_token_id t = PStr i" "at_issued_at t = PFloat (Fin 1000)" "at_expires_at t = PFloat (Fin 1030)"
    "at_tool_name t = PStr ''pay''" "at_operation t = PStr ''send''"
    "sign \<lparr>ti_secret = ''k'', ti_ttl_seconds = Fin 30\<rparr> (token_payload t) = Inr (at_signature t)"
    "to_wire t = Inr s" "s \<noteq> []" "from_wire s = Inr t" "wire_token t"
proof -
  let ?rq = "send_request (PInt 120)"
  have i: "b_token_issuer sample_boundary = Some \<lparr>ti_secret = ''k'', ti_ttl_seconds = Fin 30\<rparr>" by simp
  have ok: "fst (check sample_boundary ?rq sample_world) = Inr ()"
    using sample_allowed[of 120 0] by (simp add: sample_uuid_ix)
  then obtain w1 where c: "check sample_boundary ?rq sample_world = (Inr (), w1)" by (metis prod.collapse)
  have "wall w1 = wall sample_world" by (rule keepsE[OF sample_wall c])
  then have wl: "wall w1 n = 1000" for n by (simp add: sample_world_def)
  obtain t w' where t: "check_and_authorize sample_boundary ?rq sample_world = (Inr t, w')"
    using check_and_authorize_ok[OF i ok] by blast
  have iss: "issue \<lparr>ti_secret = ''k'', ti_ttl_seconds = Fin 30\<rparr> ''bot'' ''pay'' (Some ''send'') w1 = (Inr t, w')"
    using t c by (simp add: check_and_authorize_def thenE_Inr)
  have "round_double 1030 = Fin 1030" by (rule round_double_numeral) simp
  then have f: "\<exists>i. at_token_id t = PStr i" "at_issued_at t = PFloat (Fin 1000)" "at_expires_at t = PFloat (Fin 1030)"
    "at_tool_name t = PStr ''pay''" "at_operation t = PStr ''send''"
    "sign \<lparr>ti_secret = ''k'', ti_ttl_seconds = Fin 30\<rparr> (token_payload t) = Inr (at_signature t)"
    using iss wl
    by (auto simp: issue_def bindE_Inr_iff time_time_def token_secret_def Let_def token_payload_def opt_str_def)
  have d: "is_double (wall w1 (wall_ix w1))" unfolding wl by (rule is_double_numeral) simp
  obtain s where s: "to_wire t = Inr s" "s \<noteq> []" "from_wire s = Inr t"
    using issued_wire[OF t i f(2)] d unfolding wl by blast
  have "wire_token t" by (rule issued_wire_token[OF iss d])
  then show ?thesis using that t f s by blast
qed

lemma sample_verifies:
  assumes "at_tool_name t = PStr ''pay''" "at_operation t = PStr ''send''" "at_expires_at t = PFloat (Fin 1030)"
    "sign \<lparr>ti_secret = ''k'', ti_ttl_seconds = Fin 30\<rparr> (token_payload t) = Inr (at_signature t)"
    and "wall w (wall_ix w) \<le> 1030"
  shows "verify \<lparr>ti_secret = ''k'', ti_ttl_seconds = Fin 30\<rparr> t None (Some ''pay'') (Some ''send'') w =
    (Inr (), w\<lparr>wall_ix := Suc (wall_ix w)\<rparr>)"
  using assms sign_ascii[OF assms(4)] by (auto simp: verify_ok_iff num_lt_def)

lemma sample_proxy_authorizes:
  assumes "at_tool_name t = PStr ''pay''" "at_operation t = PStr ''send''" "at_expires_at t = PFloat (Fin 1030)"
    "sign \<lparr>ti_secret = ''k'', ti_ttl_seconds = Fin 30\<rparr> (token_payload t) = Inr (at_signature t)"
    "s \<noteq> []" "from_wire s = Inr t" "at_token_id t = PStr i"
    and "wall w (wall_ix w) \<le> 1030" "i \<notin> dom (gc_at (wall w (Suc (wall_ix w))) (used_tokens w))"
  shows "\<exists>w'. authorize_and_resolve sample_enforcer ''pay'' (Some s) w = (Inr (True, ''ALLOWED'', Some ''http://pay.local''), w') \<and>
    wall w' = wall w \<and> wall_ix w' = Suc (Suc (wall_ix w)) \<and>
    used_tokens w' = (gc_at (wall w (Suc (wall_ix w))) (used_tokens w))(i \<mapsto> NFloat (Fin 1030))"
proof -
  let ?w1 = "w\<lparr>wall_ix := Suc (wall_ix w)\<rparr>" and ?g = "gc_at (wall w (Suc (wall_ix w))) (used_tokens w)"
  have "as_num (at_expires_at t) = Some (NFloat (Fin 1030))" by (simp add: assms(3))
  from mark_used_apply[OF assms(7) this, of ?w1]
  have "mark_used (at_token_id t) (at_expires_at t) ?w1 =
      (Inr True, ?w1\<lparr>wall_ix := Suc (wall_ix ?w1), used_tokens := ?g(i \<mapsto> NFloat (Fin 1030))\<rparr>)"
    using assms(9) by (simp add: mark_used_at_def Let_def)
  then have "authorize_and_resolve sample_enforcer ''pay'' (Some s) w = (Inr (True, ''ALLOWED'', Some ''http://pay.local''),
      ?w1\<lparr>wall_ix := Suc (wall_ix ?w1), used_tokens := ?g(i \<mapsto> NFloat (Fin 1030))\<rparr>)"
    using sample_verifies[OF assms(1-4,8)] assms(5,6) by (simp add: authorize_and_resolve_def bindE_def)
  then show ?thesis by simp
qed

theorem only_authorized_requests_are_forwarded_witness:
  "\<exists>s token. handle sample_enforcer (answering 200) (proxied s) proxy_world \<noteq>
      handle sample_enforcer (answering 500) (proxied s) proxy_world \<and>
     from_wire s = Inr token \<and> at_tool_name token = PStr ''pay''"
proof -
  obtain t w' s i where t: "at_token_id t = PStr i" "at_expires_at t = PFloat (Fin 1030)"
    "at_tool_name t = PStr ''pay''" "at_operation t = PStr ''send''"
    "sign \<lparr>ti_secret = ''k'', ti_ttl_seconds = Fin 30\<rparr> (token_payload t) = Inr (at_signature t)"
    "s \<noteq> []" "from_wire s = Inr t"
    using sample_token by metis
  obtain w2 where a: "authorize_and_resolve sample_enforcer ''pay'' (Some s) proxy_world =
      (Inr (True, ''ALLOWED'', Some ''http://pay.local''), w2)"
    using sample_proxy_authorizes[OF t(3,4,2,5,6,7,1), of proxy_world] by (auto simp: gc_at_def domIff)
  have u: "resolve_target (Some ''http://pay.local'') ''x'' = Inr (Some ''http://pay.local/x'')" by code_simp
  have b: "body_length 100 (hr_headers (proxied s)) = Inr 0" by (simp add: body_length_def)
  have p: "passes sample_enforcer (proxied s) proxy_world ''http://pay.local/x'' 0 w2"
    using a u b by (simp add: passes_def)
  have "handle sample_enforcer (answering 200) (proxied s) proxy_world \<noteq>
      handle sample_enforcer (answering 500) (proxied s) proxy_world"
    unfolding handle_passes[OF p] by (simp add: forward_def answering_def)
  from this only_authorized_requests_are_forwarded[OF this] show ?thesis by auto
qed

theorem non_ascii_signature_gets_no_reply_witness:
  "\<exists>s e. handle sample_enforcer (answering 200) (proxied s) proxy_world = (Inl e, proxy_world)"
proof -
  obtain t w' s0 i where t: "wire_token t"
    "sign \<lparr>ti_secret = ''k'', ti_ttl_seconds = Fin 30\<rparr> (token_payload t) = Inr (at_signature t)"
    using sample_token by metis
  let ?t = "t\<lparr>at_signature := [CHR 0xE9]\<rparr>"
  have "wire_token ?t" using t(1) by (simp add: wire_token_def)
  then obtain s where s: "to_wire ?t = Inr s" "from_wire s = Inr ?t" using wire_roundtrip by blast
  have ne: "s \<noteq> []" using s(1) by (auto simp: to_wire_def split: sum.splits)
  have "token_payload ?t = token_payload t" by (simp add: token_payload_def)
  then have g: "sign (en_issuer sample_enforcer) (token_payload ?t) = Inr (at_signature t)" using t(2) by simp
  have "\<not> ascii (at_signature ?t)" by (simp add: ascii_def)
  from non_ascii_signature_gets_no_reply[OF proxied_fields(1) sample_enforcer_fields(2) proxied_fields(2) ne s(2) g this]
  show ?thesis by blast
qed

theorem minted_token_opens_its_route_once_witness:
  "\<exists>s v'. authorize_and_resolve sample_enforcer ''pay'' (Some s) proxy_world =
     (Inr (True, ''ALLOWED'', Some ''http://pay.local''), v')"
proof -
  obtain t w' s i where t: "check_and_authorize sample_boundary (send_request (PInt 120)) sample_world = (Inr t, w')"
    "at_token_id t = PStr i" "at_issued_at t = PFloat (Fin 1000)" "at_expires_at t = PFloat (Fin 1030)"
    using sample_token by metis
  have "is_double 1000" by (rule is_double_numeral) simp
  from minted_token_opens_its_route_once[of sample_boundary "send_request (PInt 120)" sample_world t w'
      sample_enforcer 1000 pay_route i "NFloat (Fin 1030)" proxy_world, OF t(1) _ t(3) this _ _ _ t(2)] t(4)
  show ?thesis by (auto simp: num_lt_def send_request_def)
qed

text \<open>The replay of the theorem above happens: the token is allowed twice.\<close>

theorem replay_needs_expiry_between_two_readings_witness:
  "\<exists>s w1 w2 x. authorize_and_resolve sample_enforcer ''pay'' (Some s) proxy_world =
       (Inr (True, ''ALLOWED'', Some ''http://pay.local''), w1) \<and>
     authorize_and_resolve sample_enforcer ''pay'' (Some s) w1 =
       (Inr (True, ''ALLOWED'', Some ''http://pay.local''), w2) \<and>
     \<not> num_lt x (NFloat (Fin (wall proxy_world 2))) \<and> num_lt x (NFloat (Fin (wall proxy_world 3)))"
proof -
  obtain t w' s i where t: "at_token_id t = PStr i" "at_expires_at t = PFloat (Fin 1030)"
    "at_tool_name t = PStr ''pay''" "at_operation t = PStr ''send''"
    "sign \<lparr>ti_secret = ''k'', ti_ttl_seconds = Fin 30\<rparr> (token_payload t) = Inr (at_signature t)"
    "s \<noteq> []" "from_wire s = Inr t"
    using sample_token by metis
  note auth = sample_proxy_authorizes[OF t(3,4,2,5,6,7,1)]
  obtain w1 where 1: "authorize_and_resolve sample_enforcer ''pay'' (Some s) proxy_world =
      (Inr (True, ''ALLOWED'', Some ''http://pay.local''), w1)"
    "wall w1 = wall proxy_world" "wall_ix w1 = 2" "used_tokens w1 = [i \<mapsto> NFloat (Fin 1030)]"
    using auth[of proxy_world] by (auto simp: gc_at_def domIff)
  obtain w2 where 2: "authorize_and_resolve sample_enforcer ''pay'' (Some s) w1 =
      (Inr (True, ''ALLOWED'', Some ''http://pay.local''), w2)"
    using auth[of w1] 1(2-4) by (auto simp: gc_at_def domIff num_lt_def)
  have m: "wall proxy_world a \<le> wall proxy_world b" if "a \<le> b" for a b using that by simp
  have "authorize_and_resolve sample_enforcer ''pay'' (Some s) (serve sample_enforcer [] w1) =
      (Inr (True, ''ALLOWED'', Some ''http://pay.local''), w2)" using 2 by simp
  from replay_needs_expiry_between_two_readings[OF sample_enforcer_fields(3) m 1(1) this] 1(3)
  show ?thesis using 1(1) 2 by (auto simp: numeral_2_eq_2 numeral_3_eq_3)
qed

end
