(* ===== verification/Network_Verdict.thy ===== *)
theory Network_Verdict
  imports Network_Safety
begin

text \<open>
  The proxy's decision as an ordered list: every reason to refuse a request with the reply it
  gets. The handler answers with the first that applies, and forwards when none does.
\<close>

section \<open>The list\<close>

text \<open>A token whose fields have the types of an issued one.\<close>

definition typed_token :: "token_issuer \<Rightarrow> authorization_token \<Rightarrow> bool" where
  "typed_token issuer t \<longleftrightarrow> (\<exists>i x sg. at_token_id t = PStr i \<and> as_num (at_expires_at t) = Some x \<and>
     sign issuer (token_payload t) = Inr sg) \<and> ascii (at_signature t)"

definition token_name :: "authorization_token \<Rightarrow> string" where
  "token_name t = (case at_token_id t of PStr i \<Rightarrow> i | _ \<Rightarrow> [])"

text \<open>\<open>verify\<close> and the ledger, the readings of the clock in their order.\<close>

definition token_rules ::
  "'x ledger_world_ext enforcer \<Rightarrow> string \<Rightarrow> string option \<Rightarrow> authorization_token \<Rightarrow> 'x ledger_world_scheme \<Rightarrow>
   (string \<times> bool) list" where
  "token_rules self tool required t w =
    [(''TOKEN_INVALID'', sign (en_issuer self) (token_payload t) \<noteq> Inr (at_signature t)),
     (''TOKEN_EXPIRED'', num_lt (the (as_num (at_expires_at t))) (NFloat (Fin (wall w (wall_ix w))))),
     (''TOKEN_INVALID'', at_tool_name t \<noteq> PStr tool),
     (''TOKEN_INVALID'', opt_holds (\<lambda>x. at_operation t \<noteq> PStr x) required),
     (''TOKEN_ALREADY_USED'', ledger_spent (wall w (Suc (wall_ix w))) (used_tokens w) (token_name t))]"

definition route_rules ::
  "'x ledger_world_ext enforcer \<Rightarrow> string \<Rightarrow> string option \<Rightarrow> 'x ledger_world_scheme \<Rightarrow> (string \<times> bool) list" where
  "route_rules self tool wire w = (case en_routes self tool of
      None \<Rightarrow> [(''UNKNOWN_ROUTE'', True)]
    | Some route \<Rightarrow>
       (if \<not> truthy wire then [(''MISSING_TOKEN'', True)]
        else (case from_wire (the wire) of
            Inl e \<Rightarrow> [(''MALFORMED_TOKEN'', True)]
          | Inr t \<Rightarrow> token_rules self tool (ur_required_operation route) t w)))"

definition content_length :: "(string \<times> string) list \<Rightarrow> int option" where
  "content_length hs = (case header_get hs ''Content-Length'' of None \<Rightarrow> Some 0 | Some s \<Rightarrow> int_of_string s)"

definition request_rules :: "'x ledger_world_ext enforcer \<Rightarrow> http_request \<Rightarrow> (http_reply \<times> bool) list" where
  "request_rules self rq =
    [(error_reply 400 (json_error ''bad_path''),
        bad_path (unquote (fst (py_partition (CHR ''?'') (snd (request_parts (hr_path rq))))))),
     (error_reply 400 (json_error ''unsupported_transfer_encoding''), header_get (hr_headers rq) ''Transfer-Encoding'' \<noteq> None),
     (error_reply 400 (json_error ''invalid_content_length''),
        (case content_length (hr_headers rq) of None \<Rightarrow> True | Some n \<Rightarrow> n < 0)),
     (error_reply 413 (json_error ''body_too_large''), opt_holds (\<lambda>n. en_max_body_bytes self < n) (content_length (hr_headers rq)))]"

definition proxy_rules ::
  "'x ledger_world_ext enforcer \<Rightarrow> http_request \<Rightarrow> 'x ledger_world_scheme \<Rightarrow> (http_reply \<times> bool) list" where
  "proxy_rules self rq w =
    map (apfst (\<lambda>reason. error_reply 403 (denied_body reason)))
      (route_rules self (fst (request_parts (hr_path rq))) (header_get (hr_headers rq) AUTH_HEADER) w) @
    request_rules self rq"

section \<open>The handler decides by the list\<close>

lemma first_violated_map: "first_violated (map (apfst f) rs) = map_option f (first_violated rs)"
  by (induction rs) auto

lemma token_first_failure:
  fixes w :: "'x ledger_world_scheme"
  assumes "typed_token (en_issuer self) t" "en_mark_used self = mark_used"
    and "en_routes self tool = Some route" "s \<noteq> []" "from_wire s = Inr t"
  shows "fst (authorize_and_resolve self tool (Some s) w) = Inr
    (case first_violated (token_rules self tool (ur_required_operation route) t w) of
       None \<Rightarrow> (True, ''ALLOWED'', Some (ur_upstream_base_url route)) | Some reason \<Rightarrow> (False, reason, None))"
proof -
  obtain i x sg where i: "at_token_id t = PStr i" and x: "as_num (at_expires_at t) = Some x"
    and sg: "sign (en_issuer self) (token_payload t) = Inr sg" and a: "ascii (at_signature t)"
    using assms(1) by (auto simp: typed_token_def)
  have cmp: "compare_digest sg (at_signature t) = Inr (sg = at_signature t)"
    using sign_ascii[OF sg] a by (simp add: compare_digest_Inr)
  let ?v = "verify (en_issuer self) t None (Some tool) (ur_required_operation route) w"
  show ?thesis
  proof (cases "sg = at_signature t \<and> \<not> num_lt x (NFloat (Fin (wall w (wall_ix w)))) \<and> at_tool_name t = PStr tool \<and>
      \<not> opt_holds (\<lambda>y. at_operation t \<noteq> PStr y) (ur_required_operation route)")
    case True
    then have "?v = (Inr (), w\<lparr>wall_ix := Suc (wall_ix w)\<rparr>)"
      using sg a x by (auto simp: verify_ok_iff opt_holds_iff)
    then have "fst (authorize_and_resolve self tool (Some s) w) =
        (if fst (mark_used_at (wall w (Suc (wall_ix w))) i x (used_tokens w))
         then Inr (True, ''ALLOWED'', Some (ur_upstream_base_url route)) else Inr (False, ''TOKEN_ALREADY_USED'', None))"
      using assms(2-5) by (simp add: authorize_and_resolve_def mark_used_apply[OF i x] bindE_def split: prod.splits)
    moreover have "fst (mark_used_at n i x used) \<longleftrightarrow> \<not> ledger_spent n used i" for n used
      by (auto simp: mark_used_at_def Let_def ledger_spent_def gc_at_Some domIff)
    ultimately show ?thesis
      using True sg x i by (simp add: token_rules_def token_name_def)
  next
    case False
    then have "\<exists>e w1. ?v = (Inl e, w1) \<and>
        (if sg = at_signature t \<and> num_lt x (NFloat (Fin (wall w (wall_ix w)))) then is_TokenExpired e
         else is_TokenInvalid e \<and> \<not> is_TokenExpired e)"
      using sg cmp x
      by (auto simp: verify_def bindE_def thenE_def check_expiry_def time_time_def check_expected_def opt_holds_iff
          split: option.splits)
    then obtain e w1 where v: "?v = (Inl e, w1)" and e: "if sg = at_signature t \<and>
        num_lt x (NFloat (Fin (wall w (wall_ix w)))) then is_TokenExpired e else is_TokenInvalid e \<and> \<not> is_TokenExpired e"
      by blast
    have "fst (authorize_and_resolve self tool (Some s) w) = Inr (False,
        if sg = at_signature t \<and> num_lt x (NFloat (Fin (wall w (wall_ix w)))) then ''TOKEN_EXPIRED'' else ''TOKEN_INVALID'', None)"
      using v e assms(3-5) by (auto simp: authorize_and_resolve_def split: if_splits)
    then show ?thesis
      using False sg x by (auto simp: token_rules_def)
  qed
qed

lemma route_first_failure:
  fixes w :: "'x ledger_world_scheme"
  assumes "\<And>s t. wire = Some s \<Longrightarrow> from_wire s = Inr t \<Longrightarrow> typed_token (en_issuer self) t"
    and "en_mark_used self = mark_used"
  shows "fst (authorize_and_resolve self tool wire w) = Inr
    (case first_violated (route_rules self tool wire w) of
       None \<Rightarrow> (True, ''ALLOWED'', map_option ur_upstream_base_url (en_routes self tool)) | Some reason \<Rightarrow> (False, reason, None))"
proof (cases "en_routes self tool")
  case None
  then show ?thesis by (simp add: authorize_and_resolve_def route_rules_def)
next
  case (Some route)
  show ?thesis
  proof (cases "truthy wire \<and> (\<exists>t. from_wire (the wire) = Inr t)")
    case True
    then obtain s t where s: "wire = Some s" "s \<noteq> []" "from_wire s = Inr t" by (cases wire) auto
    then show ?thesis
      using token_first_failure[OF assms(1)[OF s(1,3)] assms(2) Some s(2,3), of w] Some
      by (simp add: route_rules_def split: option.split)
  next
    case False
    then show ?thesis
      using Some by (cases "from_wire (the wire)") (auto simp: authorize_and_resolve_def route_rules_def)
  qed
qed

lemma body_first_failure:
  "body_length m hs = (if header_get hs ''Transfer-Encoding'' \<noteq> None
     then Inl (error_reply 400 (json_error ''unsupported_transfer_encoding''))
     else case content_length hs of None \<Rightarrow> Inl (error_reply 400 (json_error ''invalid_content_length''))
      | Some n \<Rightarrow> if n < 0 then Inl (error_reply 400 (json_error ''invalid_content_length''))
          else if m < n then Inl (error_reply 413 (json_error ''body_too_large'')) else Inr n)"
  by (simp add: body_length_def content_length_def)

lemma notify_denied_ok:
  assumes "\<And>f a r v e. en_on_denied self = Some f \<Longrightarrow> fst (f a r v) = Inl e \<Longrightarrow> is_exception e"
  shows "\<exists>w'. notify_denied self tool reason w = (Inr (), w')"
proof (cases "en_on_denied self")
  case None
  then show ?thesis by (simp add: notify_denied_def)
next
  case (Some f)
  then show ?thesis
    using assms[OF Some, of tool reason w]
    by (cases "f tool reason w"; cases "fst (f tool reason w)") (auto simp: notify_denied_def)
qed

section \<open>Properties\<close>

text \<open>C4: The proxy answers with the first failure: for tokens with fields of the types of issued ones,
  an in-memory ledger, upstream URLs with a scheme and a host and a callback that raises ordinary
  exceptions at most, the reply to a request is that of the first of the twelve reasons that
  applies, from the unknown route over the token's signature, expiry, tool, operation and use to
  the path, the transfer encoding and the body's length; and when none applies, the request is
  forwarded with that length to the target below the route's base.\<close>

theorem proxy_answers_the_first_failure:
  fixes w :: "'x ledger_world_scheme"
  assumes "\<And>s t. header_get (hr_headers rq) AUTH_HEADER = Some s \<Longrightarrow> from_wire s = Inr t \<Longrightarrow> typed_token (en_issuer self) t"
    and "en_mark_used self = mark_used"
    and "\<And>route. en_routes self (fst (request_parts (hr_path rq))) = Some route \<Longrightarrow>
      \<exists>b. urlsplit (ur_upstream_base_url route) = Inr b \<and> su_scheme b \<noteq> [] \<and> su_netloc b \<noteq> []"
    and "\<And>f a r v e. en_on_denied self = Some f \<Longrightarrow> fst (f a r v) = Inl e \<Longrightarrow> is_exception e"
  shows "case first_violated (proxy_rules self rq w) of
      Some reply \<Rightarrow> fst (handle self up rq w) = Inr reply
    | None \<Rightarrow> \<exists>route b n w'. en_routes self (fst (request_parts (hr_path rq))) = Some route \<and>
        urlsplit (ur_upstream_base_url route) = Inr b \<and> content_length (hr_headers rq) = Some n \<and>
        handle self up rq w = forward up rq (target_of b (snd (request_parts (hr_path rq)))) n w'"
proof -
  obtain tool rest where p: "request_parts (hr_path rq) = (tool, rest)" by fastforce
  let ?wire = "header_get (hr_headers rq) AUTH_HEADER"
  obtain r w1 where a: "authorize_and_resolve self tool ?wire w = (r, w1)" by fastforce
  have r: "r = Inr (case first_violated (route_rules self tool ?wire w) of
       None \<Rightarrow> (True, ''ALLOWED'', map_option ur_upstream_base_url (en_routes self tool)) | Some reason \<Rightarrow> (False, reason, None))"
  proof -
    have "fst (authorize_and_resolve self tool ?wire w) = Inr (case first_violated (route_rules self tool ?wire w) of
       None \<Rightarrow> (True, ''ALLOWED'', map_option ur_upstream_base_url (en_routes self tool)) | Some reason \<Rightarrow> (False, reason, None))"
      using assms(1,2) by (rule route_first_failure)
    then show ?thesis using a by simp
  qed
  have refused: "fst (thenE (notify_denied self tool reason) (returnE reply) v) = Inr reply" for reason reply v
  proof -
    have "\<exists>v'. notify_denied self tool reason v = (Inr (), v')"
      using assms(4) by (rule notify_denied_ok)
    then obtain v' where "notify_denied self tool reason v = (Inr (), v')" ..
    then show ?thesis by (simp add: thenE_def bindE_def)
  qed
  show ?thesis
  proof (cases "first_violated (route_rules self tool ?wire w)")
    case (Some reason)
    then have "first_violated (proxy_rules self rq w) = Some (error_reply 403 (denied_body reason))"
      by (simp add: proxy_rules_def p first_violated_append first_violated_map)
    moreover have "fst (handle self up rq w) = Inr (error_reply 403 (denied_body reason))"
      using a r Some refused by (simp add: handle_def p bindE_def)
    ultimately show ?thesis by simp
  next
    case None
    then obtain route where route: "en_routes self tool = Some route"
      by (cases "en_routes self tool") (auto simp: route_rules_def)
    then obtain b where b: "urlsplit (ur_upstream_base_url route) = Inr b" "su_scheme b \<noteq> []" "su_netloc b \<noteq> []"
      using assms(3)[of route] p by auto
    have rules: "first_violated (proxy_rules self rq w) = first_violated (request_rules self rq)"
      using None by (simp add: proxy_rules_def p first_violated_append first_violated_map)
    let ?bad = "bad_path (unquote (fst (py_partition (CHR ''?'') rest)))"
    have "handle self up rq w = (if ?bad then thenE (notify_denied self tool ''BAD_PATH'')
        (returnE (error_reply 400 (json_error ''bad_path''))) w1
      else (case body_length (en_max_body_bytes self) (hr_headers rq) of Inl reply \<Rightarrow> returnE reply
         | Inr n \<Rightarrow> forward up rq (target_of b rest) n) w1)"
      using a r None route by (simp add: handle_def p bindE_def resolve_target_iff[OF b])
    then show ?thesis
      using refused route b(1) p
      by (auto simp: rules request_rules_def body_first_failure split: option.splits if_splits)
  qed
qed

theorem proxy_answers_the_first_failure_witness:
  "fst (handle sample_enforcer (answering 200) ((proxied [])\<lparr>hr_path := ''/pay/x''\<rparr>) proxy_world) =
     Inr (error_reply 403 (denied_body ''MISSING_TOKEN''))"
proof -
  let ?rq = "(proxied [])\<lparr>hr_path := ''/pay/x''\<rparr>"
  have rq: "?rq = proxied []" by (simp add: proxied_def)
  have "from_wire [] \<noteq> Inr t" for t by (simp add: from_wire_def rsplit_dot_def)
  moreover have "\<exists>b. urlsplit ''http://pay.local'' = Inr b \<and> su_scheme b \<noteq> [] \<and> su_netloc b \<noteq> []"
  proof -
    define b where "b = \<lparr>su_scheme = ''http'', su_netloc = ''pay.local'', su_path = [], su_query = [], su_fragment = []\<rparr>"
    have "urlsplit ''http://pay.local'' = Inr b" "su_scheme b \<noteq> []" "su_netloc b \<noteq> []" unfolding b_def by code_simp+
    then show ?thesis by blast
  qed
  ultimately show ?thesis
    using proxy_answers_the_first_failure[where rq = ?rq and self = sample_enforcer and w = proxy_world and up = "answering 200"]
    unfolding rq by (auto simp: proxy_rules_def route_rules_def)
qed

end
