(* ===== verification/Redis_Backend.thy ===== *)
theory Redis_Backend
  imports Rate_Limiter Token_Ledger
begin

text \<open>
  \<open>redis_backend.py\<close>: the limiter and the token ledger that keep their state in a Redis
  server. The client library is a record of operations that may raise; the two Lua scripts,
  which are part of the program, are written over the server's commands, another record. Both
  records are parameters. What Redis documents of the commands is stated in a locale.
\<close>

section \<open>Numbers\<close>

text \<open>\<open>int(x)\<close> of a float: towards zero; infinities and NaN raise.\<close>

definition truncate_rat :: "rat \<Rightarrow> int" where
  "truncate_rat q = (if 0 \<le> q then \<lfloor>q\<rfloor> else \<lceil>q\<rceil>)"

fun int_of_float :: "pyfloat \<Rightarrow> exn + int" where
  "int_of_float (Fin q) = Inr (truncate_rat q)"
| "int_of_float NaN = Inl (Foreign (PyExc ''ValueError'' ''cannot convert float NaN to integer'') True)"
| "int_of_float _ = Inl (Foreign (PyExc ''OverflowError'' ''cannot convert float infinity to integer'') True)"

text \<open>\<open>x - now\<close> for a number and a float.\<close>

definition num_minus_float :: "pynum \<Rightarrow> rat \<Rightarrow> exn + pyfloat" where
  "num_minus_float x now = (case x of
     NFloat f \<Rightarrow> Inr (fsub f (Fin now))
   | NInt n \<Rightarrow> (case float_of_int n of
       Some f \<Rightarrow> Inr (fsub f (Fin now))
     | None \<Rightarrow> Inl (Foreign (PyExc ''OverflowError'' ''int too large to convert to float'') True)))"

text \<open>\<open>f"{now:.6f}"\<close>\<close>

definition fixed6 :: "rat \<Rightarrow> string" where
  "fixed6 q = fixed 6 q"

section \<open>The client\<close>

record 'w redis_client =
  rc_window_script :: "string \<Rightarrow> rat \<Rightarrow> pyfloat \<Rightarrow> int \<Rightarrow> string \<Rightarrow> int \<Rightarrow> ('w world_scheme, exn, int) eff"
  rc_count_script :: "string \<Rightarrow> pyfloat \<Rightarrow> ('w world_scheme, exn, int) eff"
  rc_delete :: "string list \<Rightarrow> ('w world_scheme, exn, unit) eff"
  rc_scan :: "int \<Rightarrow> string \<Rightarrow> ('w world_scheme, exn, int \<times> string list) eff"
  rc_set_nx :: "string \<Rightarrow> int \<Rightarrow> ('w world_scheme, exn, bool) eff"
  rc_exists :: "string \<Rightarrow> ('w world_scheme, exn, bool) eff"

record 'w redis_object =
  ro_client :: "'w redis_client"
  ro_key_prefix :: string
  ro_fail_closed :: bool

text \<open>\<open>_require_redis\<close>: the import fails when the package is not installed.\<close>

definition require_redis :: "bool \<Rightarrow> exn + unit" where
  "require_redis installed = (if installed then Inr () else Inl (Foreign (PyExc ''ImportError''
     (''toolboundary.redis_backend requires the '' @ [CHR 0x27] @ ''redis'' @ [CHR 0x27] @ '' package. '' @
      ''Install it with: pip install toolboundary[redis]'')) True))"

text \<open>Exactly one of a URL and a client; \<open>from_url\<close> is the library's, and needs it.\<close>

definition make_client ::
  "bool \<Rightarrow> (string \<Rightarrow> exn + 'w redis_client) \<Rightarrow> string option \<Rightarrow> 'w redis_client option \<Rightarrow> exn + 'w redis_client" where
  "make_client installed from_url redis_url client =
    (if client \<noteq> None \<and> redis_url \<noteq> None then
       Inl (Foreign (PyExc ''ValueError'' ''Pass either redis_url or client, not both.'') True)
     else (case client of Some c \<Rightarrow> Inr c
       | None \<Rightarrow> (case redis_url of
           None \<Rightarrow> Inl (Foreign (PyExc ''ValueError'' ''Provide redis_url=... or client=...'') True)
         | Some url \<Rightarrow> (case require_redis installed of Inl e \<Rightarrow> Inl e | Inr _ \<Rightarrow> from_url url))))"

text \<open>The two constructors; registering the scripts sends nothing to the server.\<close>

definition make_redis_object ::
  "bool \<Rightarrow> (string \<Rightarrow> exn + 'w redis_client) \<Rightarrow> string option \<Rightarrow> 'w redis_client option \<Rightarrow> string \<Rightarrow> bool \<Rightarrow>
   exn + 'w redis_object" where
  "make_redis_object installed from_url redis_url client key_prefix fail_closed =
    (case make_client installed from_url redis_url client of Inl e \<Rightarrow> Inl e
     | Inr c \<Rightarrow> Inr \<lparr>ro_client = c, ro_key_prefix = key_prefix, ro_fail_closed = fail_closed\<rparr>)"

text \<open>An injected client does without the package; a URL does not.\<close>

lemma make_client_iff:
  "make_client installed from_url redis_url client = Inr c \<longleftrightarrow>
    client = Some c \<and> redis_url = None \<or>
    client = None \<and> installed \<and> (\<exists>url. redis_url = Some url \<and> from_url url = Inr c)"
  by (auto simp: make_client_def require_redis_def split: option.splits)

definition redis_key :: "'w redis_object \<Rightarrow> string \<Rightarrow> string" where
  "redis_key self key = ro_key_prefix self @ key"

text \<open>\<open>except Exception\<close>: log the error and answer the default.\<close>

definition guarded_call :: "string \<Rightarrow> 'a \<Rightarrow> ('w world_scheme, exn, 'a) eff \<Rightarrow> ('w world_scheme, exn, 'a) eff" where
  "guarded_call what fallback m w =
    (case m w of
       (Inr a, w') \<Rightarrow> (Inr a, w')
     | (Inl e, w') \<Rightarrow> if is_exception e
         then (Inr fallback, snd (log_line ''toolboundary.redis_backend'' 40 (what @ '': '' @ exn_text e) w'))
         else (Inl e, w'))"

text \<open>\<open>secrets.token_hex(4)\<close> draws from the same stream of identifiers as the tokens.\<close>

definition redis_check_and_record ::
  "'w redis_object \<Rightarrow> string \<Rightarrow> int \<Rightarrow> pyfloat \<Rightarrow> ('w world_scheme, exn, bool) eff" where
  "redis_check_and_record self key max_calls window_seconds =
    (if max_calls \<le> 0 then returnE False
     else bindE time_time (\<lambda>now.
       bindE (liftE (int_of_float window_seconds)) (\<lambda>n.
       bindE token_secret (\<lambda>suffix.
         guarded_call (''Redis rate-limiter check failed for key='' @ repr_str key @ ''; failing '' @
             (if ro_fail_closed self then ''closed'' else ''open'')) (\<not> ro_fail_closed self)
           (bindE (rc_window_script (ro_client self) (redis_key self key) now (fsub (Fin now) window_seconds)
               max_calls (fixed6 now @ '':'' @ suffix) (max 1 (n + 1)))
             (\<lambda>allowed. returnE (allowed \<noteq> 0)))))))"

definition redis_current_count ::
  "'w redis_object \<Rightarrow> string \<Rightarrow> pyfloat \<Rightarrow> ('w world_scheme, exn, int) eff" where
  "redis_current_count self key window_seconds =
    bindE time_time (\<lambda>now.
      guarded_call (''Redis rate-limiter current_count failed for key='' @ repr_str key)
        (if ro_fail_closed self then 2 ^ 31 - 1 else 0)
        (rc_count_script (ro_client self) (redis_key self key) (fsub (Fin now) window_seconds)))"

text \<open>The cursor loop of \<open>reset\<close>; whether it ends is the server's affair.\<close>

partial_function (option) scan_delete ::
  "'w redis_client \<Rightarrow> string \<Rightarrow> int \<Rightarrow> 'w world_scheme \<Rightarrow> ((exn + unit) \<times> 'w world_scheme) option" where
  "scan_delete client pat cursor w =
    (case rc_scan client cursor pat w of
       (Inl e, w1) \<Rightarrow> Some (Inl e, w1)
     | (Inr (cursor', batch), w1) \<Rightarrow>
        (case (if batch = [] then (Inr (), w1) else rc_delete client batch w1) of
           (Inl e, w2) \<Rightarrow> Some (Inl e, w2)
         | (Inr _, w2) \<Rightarrow> if cursor' = 0 then Some (Inr (), w2) else scan_delete client pat cursor' w2))"

definition redis_reset ::
  "'w redis_object \<Rightarrow> string option \<Rightarrow> 'w world_scheme \<Rightarrow> ((exn + unit) \<times> 'w world_scheme) option" where
  "redis_reset self key w =
    (let what = ''Redis rate-limiter reset failed for key='' @ (case key of None \<Rightarrow> ''None'' | Some k \<Rightarrow> repr_str k)
     in case (case key of
            Some k \<Rightarrow> Some (rc_delete (ro_client self) [redis_key self k] w)
          | None \<Rightarrow> scan_delete (ro_client self) (ro_key_prefix self @ ''*'') 0 w) of
          None \<Rightarrow> None
        | Some r \<Rightarrow> Some (guarded_call what () (\<lambda>_. r) w))"

definition redis_mark_used ::
  "'w redis_object \<Rightarrow> string \<Rightarrow> pynum \<Rightarrow> ('w world_scheme, exn, bool) eff" where
  "redis_mark_used self token_id expires_at =
    bindE time_time (\<lambda>now.
    bindE (liftE (num_minus_float expires_at now)) (\<lambda>left.
    bindE (liftE (int_of_float left)) (\<lambda>n.
      if n + 1 \<le> 0 then returnE False
      else guarded_call (''Redis token-store mark_used failed for token_id='' @ repr_str token_id @ ''; failing '' @
          (if ro_fail_closed self then ''closed'' else ''open'')) (\<not> ro_fail_closed self)
        (rc_set_nx (ro_client self) (redis_key self token_id) (n + 1)))))"

definition redis_is_used :: "'w redis_object \<Rightarrow> string \<Rightarrow> ('w world_scheme, exn, bool) eff" where
  "redis_is_used self token_id =
    guarded_call (''Redis token-store is_used failed for token_id='' @ repr_str token_id @ ''; failing '' @
        (if ro_fail_closed self then ''closed'' else ''open'')) (ro_fail_closed self)
      (rc_exists (ro_client self) (redis_key self token_id))"

section \<open>The scripts\<close>

text \<open>The commands of a server; \<open>advance t\<close> lets its clock run to \<open>t\<close>.\<close>

record 'r redis_server =
  zremrangebyscore :: "string \<Rightarrow> pyfloat \<Rightarrow> 'r \<Rightarrow> 'r"
  zcard :: "string \<Rightarrow> 'r \<Rightarrow> nat"
  zadd :: "string \<Rightarrow> rat \<Rightarrow> string \<Rightarrow> 'r \<Rightarrow> 'r"
  expire :: "string \<Rightarrow> int \<Rightarrow> 'r \<Rightarrow> 'r"
  set_nx_ex :: "string \<Rightarrow> int \<Rightarrow> 'r \<Rightarrow> bool \<times> 'r"
  exists_key :: "string \<Rightarrow> 'r \<Rightarrow> bool"
  del_keys :: "string list \<Rightarrow> 'r \<Rightarrow> 'r"
  scan_keys :: "int \<Rightarrow> string \<Rightarrow> 'r \<Rightarrow> int \<times> string list"
  advance :: "rat \<Rightarrow> 'r \<Rightarrow> 'r"

definition sliding_window_lua ::
  "'r redis_server \<Rightarrow> string \<Rightarrow> rat \<Rightarrow> pyfloat \<Rightarrow> int \<Rightarrow> string \<Rightarrow> int \<Rightarrow> 'r \<Rightarrow> int \<times> 'r" where
  "sliding_window_lua srv key now cutoff max_calls member ttl r =
    (let r1 = zremrangebyscore srv key cutoff r
     in if int (zcard srv key r1) \<ge> max_calls then (0, r1)
        else (let r2 = zadd srv key now member r1
              in (1, if ttl > 0 then expire srv key ttl r2 else r2)))"

definition current_count_lua :: "'r redis_server \<Rightarrow> string \<Rightarrow> pyfloat \<Rightarrow> 'r \<Rightarrow> int \<times> 'r" where
  "current_count_lua srv key cutoff r =
    (let r1 = zremrangebyscore srv key cutoff r in (int (zcard srv key r1), r1))"

text \<open>
  One limiter decision against a server whose clock agrees with the client's, the suffixes of
  the members drawn from a stream; one mark of the ledger likewise.
\<close>

definition redis_window_step ::
  "'r redis_server \<Rightarrow> (nat \<Rightarrow> string) \<Rightarrow> string \<Rightarrow> rat \<Rightarrow> rat \<Rightarrow> int \<Rightarrow> 'r \<times> nat \<Rightarrow> bool \<times> ('r \<times> nat)" where
  "redis_window_step srv suffixes key W now m s =
    (if m \<le> 0 then (False, s)
     else (case sliding_window_lua srv key now (fsub (Fin now) (Fin W)) m (fixed6 now @ '':'' @ suffixes (snd s))
              (max 1 (truncate_rat W + 1)) (advance srv now (fst s)) of
        (allowed, r) \<Rightarrow> (allowed \<noteq> 0, (r, Suc (snd s)))))"

definition redis_mark ::
  "'r redis_server \<Rightarrow> string \<Rightarrow> rat \<Rightarrow> string \<Rightarrow> pynum \<Rightarrow> 'r \<Rightarrow> bool \<times> 'r" where
  "redis_mark srv prefix now i x r =
    (case num_minus_float x now of Inl _ \<Rightarrow> (False, advance srv now r)
     | Inr left \<Rightarrow> (case int_of_float left of Inl _ \<Rightarrow> (False, advance srv now r)
        | Inr n \<Rightarrow> if n + 1 \<le> 0 then (False, advance srv now r)
            else set_nx_ex srv (prefix @ i) (n + 1) (advance srv now r)))"

text \<open>A client of such a server, whose state is part of the world.\<close>

record 'r served_world = world +
  server_state :: 'r

definition on_server :: "('r \<Rightarrow> 'a \<times> 'r) \<Rightarrow> 'r redis_server \<Rightarrow> (('r, 'x) served_world_scheme, exn, 'a) eff" where
  "on_server f srv w =
    (case f (advance srv (wall w (wall_ix w - 1)) (server_state w)) of (a, r) \<Rightarrow> (Inr a, w\<lparr>server_state := r\<rparr>))"

definition served :: "'r redis_server \<Rightarrow> ('r, 'x) served_world_ext redis_client" where
  "served srv = \<lparr>rc_window_script = (\<lambda>key now cutoff m member ttl. on_server (sliding_window_lua srv key now cutoff m member ttl) srv),
     rc_count_script = (\<lambda>key cutoff. on_server (current_count_lua srv key cutoff) srv),
     rc_delete = (\<lambda>ks. on_server (\<lambda>r. ((), del_keys srv ks r)) srv),
     rc_scan = (\<lambda>cursor pat. on_server (\<lambda>r. (scan_keys srv cursor pat r, r)) srv),
     rc_set_nx = (\<lambda>key ttl. on_server (set_nx_ex srv key ttl) srv),
     rc_exists = (\<lambda>key. on_server (\<lambda>r. (exists_key srv key r, r)) srv)\<rparr>"

end
