(* ===== verification/Redis_Safety.thy ===== *)
theory Redis_Safety
  imports Redis_Backend Boundary_Decision "HOL-Library.Finite_Map"
begin

text \<open>
  What the Redis backend guarantees, given what Redis documents of its commands: the sliding
  window holds across replicas, a token is used once, and an outage denies.
\<close>

section \<open>Documented behaviour of the server\<close>

text \<open>
  \<open>zset r k\<close> is the sorted set at a key as members with scores, \<open>deadline r k\<close> the time at
  which the key expires if one is set. The clock of the server does not go back.
\<close>

locale redis_behaviour =
  fixes srv :: "'r redis_server"
    and zset :: "'r \<Rightarrow> string \<Rightarrow> string \<rightharpoonup> rat"
    and deadline :: "'r \<Rightarrow> string \<Rightarrow> rat option"
    and clock :: "'r \<Rightarrow> rat"
  assumes finite_zset: "finite (dom (zset r k))"
    and zrem: "zset (zremrangebyscore srv k c r) k = (\<lambda>m. case zset r k m of
        Some x \<Rightarrow> if fle (Fin x) c then None else Some x | None \<Rightarrow> None)"
    and zrem_deadline: "zset (zremrangebyscore srv k c r) k \<noteq> Map.empty \<Longrightarrow>
        deadline (zremrangebyscore srv k c r) k = deadline r k"
    and zrem_clock: "clock (zremrangebyscore srv k c r) = clock r"
    and zcard: "zcard srv k r = card (dom (zset r k))"
    and zadd: "zset (zadd srv k x m r) k = (zset r k)(m \<mapsto> x)" "clock (zadd srv k x m r) = clock r"
    and expire_keeps: "zset (expire srv k ttl r) k = zset r k" "clock (expire srv k ttl r) = clock r"
    and expire_sets: "zset r k \<noteq> Map.empty \<Longrightarrow> 0 < ttl \<Longrightarrow>
        deadline (expire srv k ttl r) k = Some (clock r + of_int ttl)"
    and advance_clock: "clock (advance srv t r) = max (clock r) t"
    and advance_zset: "zset (advance srv t r) k =
        (if opt_holds (\<lambda>d. d \<le> max (clock r) t) (deadline r k) then Map.empty else zset r k)"
    and advance_deadline: "zset (advance srv t r) k \<noteq> Map.empty \<Longrightarrow> deadline (advance srv t r) k = deadline r k"
    and set_nx: "fst (set_nx_ex srv k ttl r) = (\<not> exists_key srv k r)"
    and set_nx_lives: "set_nx_ex srv k ttl r = (True, r') \<Longrightarrow> 0 < ttl \<Longrightarrow> t < clock r + of_int ttl \<Longrightarrow>
        exists_key srv k (advance srv t r')"
    and set_nx_keeps: "exists_key srv k (advance srv t r) \<Longrightarrow>
        exists_key srv k (advance srv t (snd (set_nx_ex srv k' ttl r)))"
    and advance_advance: "s \<le> t \<Longrightarrow> advance srv t (advance srv s r) = advance srv t r"

section \<open>Scores of a sorted set\<close>

definition scores :: "(string \<rightharpoonup> rat) \<Rightarrow> rat multiset" where
  "scores z = image_mset (\<lambda>m. the (z m)) (mset_set (dom z))"

lemma scores_add: "finite (dom z) \<Longrightarrow> m \<notin> dom z \<Longrightarrow> scores (z(m \<mapsto> x)) = add_mset x (scores z)"
proof -
  assume f: "finite (dom z)" and m: "m \<notin> dom z"
  have "image_mset (\<lambda>k. the ((z(m \<mapsto> x)) k)) (mset_set (dom z)) = scores z"
    unfolding scores_def using m f by (intro image_mset_cong) auto
  then show ?thesis using f m by (simp add: scores_def)
qed

lemma scores_filter:
  assumes "finite (dom z)" "z' = (\<lambda>m. case z m of Some x \<Rightarrow> if P x then Some x else None | None \<Rightarrow> None)"
  shows "scores z' = {#x \<in># scores z. P x#}"
proof -
  have d: "dom z' = {m \<in> dom z. P (the (z m))}" by (auto simp: assms(2) split: option.splits if_splits)
  have "scores z' = image_mset (\<lambda>m. the (z m)) (mset_set {m \<in> dom z. P (the (z m))})"
    unfolding scores_def d by (intro image_mset_cong) (use assms(1) in \<open>auto simp: assms(2)\<close>)
  also have "\<dots> = {#x \<in># scores z. P x#}"
    using assms(1) by (simp add: scores_def filter_mset_image_mset filter_mset_mset_set)
  finally show ?thesis .
qed

lemma size_scores: "size (scores z) = card (dom z)"
  by (simp add: scores_def)

lemma in_scores: "finite (dom z) \<Longrightarrow> x \<in># scores z \<longleftrightarrow> (\<exists>m. z m = Some x)"
  by (auto simp: scores_def image_iff) (metis domI option.sel)

section \<open>The limiter\<close>

definition redis_recent :: "rat \<Rightarrow> rat \<Rightarrow> rat \<Rightarrow> bool" where
  "redis_recent W now x \<longleftrightarrow> flt (fsub (Fin now) (Fin W)) (Fin x)"

lemma cutoff_not_NaN: "fsub (Fin now) (Fin W) \<noteq> NaN"
  by simp

lemma redis_recent_iff: "redis_recent W now x \<longleftrightarrow> \<not> fle (Fin x) (fsub (Fin now) (Fin W))"
  using fle_iff_not_flt[of "Fin x" "fsub (Fin now) (Fin W)"] by (simp add: redis_recent_def)

lemma redis_recent_anti: "now \<le> now' \<Longrightarrow> redis_recent W now' x \<Longrightarrow> redis_recent W now x"
  unfolding redis_recent_def fsub_Fin
  using round_double_mono[of "now - W" "now' - W"]
  by (cases "round_double (now - W)"; cases "round_double (now' - W)") auto

lemma old_not_recent: "is_double x \<Longrightarrow> x \<le> now - W \<Longrightarrow> \<not> redis_recent W now x"
  unfolding redis_recent_def fsub_Fin using round_double_mono[of x "now - W"] by (simp add: is_double_def)

lemma fixed6_no_colon: "CHR '':'' \<notin> set (fixed6 q)"
proof -
  have "CHR '':'' \<notin> set (str_of_nat n)" for n
    using str_of_nat_digits[of n] by (auto simp: list_all_iff is_digit_def)
  then show ?thesis by (auto simp: fixed6_def fixed_def Let_def)
qed

lemma member_suffix: "fixed6 p @ '':'' @ s = fixed6 q @ '':'' @ t \<Longrightarrow> s = t"
proof -
  assume e: "fixed6 p @ '':'' @ s = fixed6 q @ '':'' @ t"
  have "py_partition CHR '':'' (fixed6 r @ CHR '':'' # u) = (fixed6 r, True, u)" for r u
    by (rule py_partition_append[OF fixed6_no_colon])
  with e show ?thesis by (metis append_Cons append_Nil prod.inject)
qed

locale redis_limiter = redis_behaviour srv zset deadline clock
  for srv :: "'r redis_server" and zset and deadline and clock +
  fixes suffixes :: "nat \<Rightarrow> string" and key :: string and W :: rat
  assumes suffixes_differ: "inj suffixes"
    and W_nonneg: "0 \<le> W"
begin

definition live :: "'r \<times> nat \<Rightarrow> rat list" where
  "live s = sorted_list_of_multiset (scores (zset (fst s) key))"

definition wf :: "rat \<Rightarrow> 'r \<times> nat \<Rightarrow> bool" where
  "wf t s \<longleftrightarrow> clock (fst s) \<le> t \<and> (\<forall>m x. zset (fst s) key m = Some x \<longrightarrow>
     is_double x \<and> x \<le> t \<and> (\<exists>j < snd s. \<exists>q. m = fixed6 q @ '':'' @ suffixes j) \<and>
     (\<exists>d. deadline (fst s) key = Some d \<and> x + W < d))"

abbreviation "pruned now r \<equiv> zremrangebyscore srv key (fsub (Fin now) (Fin W)) (advance srv now r)"
abbreviation "ttl \<equiv> max 1 (truncate_rat W + 1)"

lemma ttl_covers: "0 < ttl" "W < of_int ttl"
  using W_nonneg floor_correct[of W] by (auto simp: truncate_rat_def)

text \<open>The three outcomes of a step.\<close>

lemma step_cases:
  "redis_window_step srv suffixes key W now m (r, n) =
    (if m \<le> 0 then (False, (r, n))
     else if int (card (dom (zset (pruned now r) key))) \<ge> m then (False, (pruned now r, Suc n))
     else (True, (expire srv key ttl (zadd srv key now (fixed6 now @ '':'' @ suffixes n) (pruned now r)), Suc n)))"
  using ttl_covers(1) by (simp add: redis_window_step_def sliding_window_lua_def Let_def zcard)

lemma pruned_zset:
  assumes "wf t (r, n)" "t \<le> now"
  shows "clock (pruned now r) = now" "scores (zset (pruned now r) key) = {#x \<in># scores (zset (advance srv now r) key). redis_recent W now x#}"
    "zset (pruned now r) key m = Some x \<Longrightarrow> zset r key m = Some x \<and> redis_recent W now x"
    "zset (pruned now r) key \<noteq> Map.empty \<Longrightarrow> deadline (pruned now r) key = deadline r key"
proof -
  show "clock (pruned now r) = now" using assms by (simp add: zrem_clock advance_clock wf_def max_def)
  have z: "zset (pruned now r) key = (\<lambda>m. case zset (advance srv now r) key m of
      Some x \<Rightarrow> if redis_recent W now x then Some x else None | None \<Rightarrow> None)"
    by (auto simp: zrem redis_recent_iff fun_eq_iff split: option.splits)
  show "scores (zset (pruned now r) key) = {#x \<in># scores (zset (advance srv now r) key). redis_recent W now x#}"
    by (rule scores_filter[OF finite_zset z])
  show "zset r key m = Some x \<and> redis_recent W now x" if "zset (pruned now r) key m = Some x"
    using that unfolding z by (auto simp: advance_zset split: option.splits if_splits)
  show "deadline (pruned now r) key = deadline r key" if "zset (pruned now r) key \<noteq> Map.empty"
  proof -
    have "zset (advance srv now r) key \<noteq> Map.empty" using that z by auto
    then show ?thesis using zrem_deadline[OF that] advance_deadline by simp
  qed
qed

lemma fresh_member:
  assumes "wf t (r, n)" "t \<le> now"
  shows "fixed6 now @ '':'' @ suffixes n \<notin> dom (zset (pruned now r) key)"
proof
  assume "fixed6 now @ '':'' @ suffixes n \<in> dom (zset (pruned now r) key)"
  then obtain x where "zset r key (fixed6 now @ '':'' @ suffixes n) = Some x"
    using pruned_zset(3)[OF assms] by blast
  then obtain j q where "j < n" "fixed6 now @ '':'' @ suffixes n = fixed6 q @ '':'' @ suffixes j"
    using assms(1) unfolding wf_def by fastforce
  then show False using member_suffix suffixes_differ by (metis injD less_irrefl)
qed

text \<open>A key expires only after all its calls have left the window.\<close>

lemma recent_kept:
  assumes "wf t (r, n)" "t \<le> now"
  shows "{#x \<in># scores (zset r key). redis_recent W now x#} \<subseteq># scores (zset (pruned now r) key)"
proof (cases "opt_holds (\<lambda>d. d \<le> max (clock r) now) (deadline r key)")
  case True
  then obtain d where d: "deadline r key = Some d" "d \<le> now"
    using assms by (auto simp: opt_holds_iff wf_def max_def)
  have "\<not> redis_recent W now x" if x: "x \<in># scores (zset r key)" for x
  proof -
    obtain m where "zset r key m = Some x" using x in_scores[OF finite_zset] by blast
    then have "is_double x" "x + W < d" using assms(1) d(1) by (auto simp: wf_def)
    then show ?thesis using old_not_recent[of x now W] d(2) by simp
  qed
  then have "{#x \<in># scores (zset r key). redis_recent W now x#} = {#}"
    by (auto simp: multiset_eq_iff count_eq_zero_iff)
  then show ?thesis by (simp only: empty_le)
next
  case False
  then have "zset (advance srv now r) key = zset r key" by (simp add: advance_zset)
  then show ?thesis using pruned_zset(2)[OF assms] by simp
qed

lemma wf_pruned:
  assumes "wf t (r, n)" "t \<le> now"
  shows "wf now (pruned now r, Suc n)"
proof -
  have old: "is_double x \<and> x \<le> now \<and> (\<exists>j < Suc n. \<exists>q. m = fixed6 q @ '':'' @ suffixes j) \<and>
      (\<exists>d. deadline (pruned now r) key = Some d \<and> x + W < d)"
    if m: "zset (pruned now r) key m = Some x" for m x
  proof -
    have z: "zset r key m = Some x" using pruned_zset(3)[OF assms m] by simp
    have "zset (pruned now r) key \<noteq> Map.empty" using m by (metis option.distinct(1))
    then have "deadline (pruned now r) key = deadline r key" by (rule pruned_zset(4)[OF assms])
    moreover have "is_double x \<and> x \<le> t \<and> (\<exists>j < n. \<exists>q. m = fixed6 q @ '':'' @ suffixes j) \<and>
        (\<exists>d. deadline r key = Some d \<and> x + W < d)"
      using assms(1) z by (simp add: wf_def)
    ultimately show ?thesis using assms(2) less_SucI by (metis order_trans)
  qed
  then show ?thesis using pruned_zset(1)[OF assms] by (simp add: wf_def)
qed

lemma wf_added:
  assumes "wf t (r, n)" "t \<le> now" "is_double now"
  shows "wf now (expire srv key ttl (zadd srv key now (fixed6 now @ '':'' @ suffixes n) (pruned now r)), Suc n)"
proof -
  let ?m = "fixed6 now @ '':'' @ suffixes n"
  let ?r = "zadd srv key now ?m (pruned now r)"
  have ne: "zset ?r key \<noteq> Map.empty" by (simp add: zadd)
  have c: "clock ?r = now" using pruned_zset(1)[OF assms(1,2)] by (simp add: zadd)
  have d: "deadline (expire srv key ttl ?r) key = Some (now + of_int ttl)"
    using expire_sets[OF ne ttl_covers(1)] c by simp
  have old: "is_double x \<and> x \<le> now \<and> (\<exists>j < Suc n. \<exists>q. m = fixed6 q @ '':'' @ suffixes j)"
    if "zset (pruned now r) key m = Some x" for m x
    using wf_pruned[OF assms(1,2)] that unfolding wf_def by auto
  show ?thesis
    unfolding wf_def
  proof (intro conjI allI impI, goal_cases)
    case 1
    show ?case using c by (simp add: expire_keeps)
  next
    case (2 m x)
    then show ?case using old[of m x] assms(3) by (auto simp: expire_keeps zadd split: if_splits)
  next
    case (3 m x)
    then show ?case using old[of m x] by (auto simp: expire_keeps zadd split: if_splits)
  next
    case (4 m x)
    then show ?case using old[of m x] by (auto simp: expire_keeps zadd split: if_splits)
  next
    case (5 m x)
    then have "x \<le> now" using old[of m x] by (auto simp: expire_keeps zadd split: if_splits)
    then show ?case using d ttl_covers(2) by simp
  qed
qed

lemma live_added:
  assumes "wf t (r, n)" "t \<le> now"
  shows "mset (live (expire srv key ttl (zadd srv key now (fixed6 now @ '':'' @ suffixes n) (pruned now r)), Suc n)) =
    add_mset now (scores (zset (pruned now r) key))"
  using scores_add[OF finite_zset fresh_member[OF assms]] by (simp add: live_def expire_keeps zadd)

end

sublocale redis_limiter \<subseteq> window: sliding_window "redis_window_step srv suffixes key W" live wf "redis_recent W"
proof (unfold_locales, goal_cases)
  case (1 now now' x)
  then show ?case by (rule redis_recent_anti)
next
  case (2 t s now m)
  obtain r n where s: "s = (r, n)" by fastforce
  have "wf now s" using 2 by (force simp: wf_def)
  then show ?case
    using wf_pruned[of t r n now] wf_added[of t r n now] 2 by (simp add: s step_cases)
next
  case (3 t s now m b s')
  obtain r n where s: "s = (r, n)" by fastforce
  let ?old = "{#x \<in># mset (live s). redis_recent W now x#}"
  have k: "?old \<subseteq># scores (zset (pruned now r) key)"
    using recent_kept[of t r n now] 3 by (simp add: s live_def)
  consider "b = False" "s' = s" | "b = False" "s' = (pruned now r, Suc n)"
    | "b = True" "s' = (expire srv key ttl (zadd srv key now (fixed6 now @ '':'' @ suffixes n) (pruned now r)), Suc n)"
    using 3(4) by (auto simp: s step_cases split: if_splits)
  then show ?case
  proof cases
    case 1
    then show ?thesis by simp
  next
    case 2
    then show ?thesis using k by (simp add: live_def)
  next
    case a: 3
    then show ?thesis using k live_added[of t r n now] 3 by (simp add: s)
  qed
next
  case (4 t s now m s')
  obtain r n where s: "s = (r, n)" by fastforce
  have c: "int (card (dom (zset (pruned now r) key))) < m"
    and s': "s' = (expire srv key ttl (zadd srv key now (fixed6 now @ '':'' @ suffixes n) (pruned now r)), Suc n)"
    using 4(4) by (auto simp: s step_cases split: if_splits)
  have "size (mset (live s')) = Suc (card (dom (zset (pruned now r) key)))"
    using live_added[of t r n now] 4 by (simp add: s s' size_scores)
  then show ?case using c by simp
qed

section \<open>The ledger\<close>

text \<open>Expiries that a double holds exactly, up to \<open>2 ^ 53\<close> seconds.\<close>

definition redis_sane :: "pynum \<Rightarrow> bool" where
  "redis_sane x \<longleftrightarrow> (\<exists>q. num_val x = Fin q \<and> is_double q \<and> q \<le> 2 ^ 53)"

text \<open>The time to live of the key reaches beyond the expiry.\<close>

lemma ttl_beyond_expiry:
  assumes "redis_sane x" "0 \<le> now" "num_minus_float x now = Inr left" "int_of_float left = Inr n" "0 < n + 1"
    and "\<not> num_lt x (NFloat (Fin t))"
  shows "t < now + of_int (n + 1)"
proof (rule ccontr)
  assume c: "\<not> t < now + of_int (n + 1)"
  obtain q where q: "num_val x = Fin q" "is_double q" "q \<le> 2 ^ 53" using assms(1) by (auto simp: redis_sane_def)
  have left: "left = round_double (q - now)"
    using assms(3) q by (cases x) (auto simp: num_minus_float_def float_of_int_def is_double_def)
  obtain l where l: "left = Fin l" "n = truncate_rat l" using assms(4) by (cases left) auto
  have "t \<le> q" using assms(6) q(1) by (simp add: num_lt_def)
  then have le: "of_int (n + 1) \<le> q - now" using c by linarith
  have "(of_int (n + 1) :: rat) \<le> of_int (2 ^ 53)" using le assms(2) q(3) by simp
  then have "n + 1 \<le> 2 ^ 53" by (simp only: of_int_le_iff)
  then have "is_double (of_int (n + 1))" using assms(5) by (intro is_double_int) simp
  then have "round_double (of_int (n + 1)) = Fin (of_int (n + 1))" by (simp only: is_double_def)
  then have "\<not> flt (Fin l) (Fin (of_int (n + 1)))"
    using round_double_mono[OF le] l(1) left by simp
  then have f: "n + 1 \<le> \<lfloor>l\<rfloor>" by (simp add: le_floor_iff)
  then have "0 \<le> \<lfloor>l\<rfloor>" using assms(5) by linarith
  then show False using f l(2) by (simp add: truncate_rat_def)
qed

lemma redis_mark_True:
  assumes "redis_mark srv pre now i x r = (True, r')"
  shows "\<exists>left n. num_minus_float x now = Inr left \<and> int_of_float left = Inr n \<and> 0 < n + 1 \<and>
    set_nx_ex srv (pre @ i) (n + 1) (advance srv now r) = (True, r')"
proof -
  obtain left where l: "num_minus_float x now = Inr left"
    using assms by (cases "num_minus_float x now") (simp_all add: redis_mark_def)
  obtain n where n: "int_of_float left = Inr n"
    using assms l by (cases "int_of_float left") (simp_all add: redis_mark_def)
  have "\<not> n + 1 \<le> 0" using assms l n by (cases "n + 1 \<le> 0") (simp_all add: redis_mark_def)
  then show ?thesis using assms l n by (simp add: redis_mark_def)
qed

lemma redis_mark_cases:
  "redis_mark srv pre now i x r = (False, advance srv now r) \<or>
   (\<exists>n. redis_mark srv pre now i x r = set_nx_ex srv (pre @ i) (n + 1) (advance srv now r))"
  by (cases "num_minus_float x now"; cases "int_of_float (projr (num_minus_float x now))")
    (auto simp: redis_mark_def)

sublocale redis_behaviour \<subseteq> ledger: single_use "redis_mark srv pre"
    "\<lambda>t r i. exists_key srv (pre @ i) (advance srv t r)" redis_sane for pre
proof (unfold_locales, goal_cases)
  case (1 now s i x)
  show ?case using redis_mark_cases[of srv pre now i x s] 1 set_nx by auto
next
  case (2 now i x s s' t)
  obtain left n where n: "num_minus_float x now = Inr left" "int_of_float left = Inr n" "0 < n + 1"
    "set_nx_ex srv (pre @ i) (n + 1) (advance srv now s) = (True, s')"
    using redis_mark_True[OF 2(1)] by blast
  have "t < now + of_int (n + 1)" by (rule ttl_beyond_expiry[OF 2(2,3) n(1-3) 2(5)])
  also have "\<dots> \<le> clock (advance srv now s) + of_int (n + 1)" by (simp add: advance_clock)
  finally show ?case by (rule set_nx_lives[OF n(4,3)])
next
  case (3 t s i now j x)
  have a: "exists_key srv (pre @ i) (advance srv t (advance srv now s))"
    using 3 by (simp add: advance_advance)
  show ?case using redis_mark_cases[of srv pre now j x s] a set_nx_keeps[OF a] by auto
qed

section \<open>A concrete server\<close>

record mem_redis =
  mr_clock :: rat
  mr_zsets :: "string \<Rightarrow> (string, rat) fmap"
  mr_deadlines :: "string \<Rightarrow> rat option"
  mr_keys :: "string \<Rightarrow> rat option"
  mr_names :: "string list"

text \<open>The keys that exist now, of those ever written.\<close>

definition mem_live :: "mem_redis \<Rightarrow> string \<Rightarrow> bool" where
  "mem_live r k \<longleftrightarrow> mr_zsets r k \<noteq> fmempty \<or> opt_holds (\<lambda>d. mr_clock r < d) (mr_keys r k)"

text \<open>Patterns that end in a star and hold no other special character.\<close>

definition mem_matches :: "string \<Rightarrow> string \<Rightarrow> bool" where
  "mem_matches pat k \<longleftrightarrow> pat \<noteq> [] \<and> last pat = CHR ''*'' \<and> take (length pat - 1) k = butlast pat"

text \<open>A number for every key, and the existing keys from a number on in its order, as a scan visits them.\<close>

fun key_code :: "string \<Rightarrow> nat" where
  "key_code [] = 0"
| "key_code (c # cs) = Suc (of_char c) + 257 * key_code cs"

definition mem_from :: "mem_redis \<Rightarrow> int \<Rightarrow> string list" where
  "mem_from r cursor = sort_key key_code (remdups (filter (\<lambda>k. mem_live r k \<and> cursor \<le> int (key_code k)) (mr_names r)))"

definition mem_server :: "mem_redis redis_server" where
  "mem_server = \<lparr>
     zremrangebyscore = (\<lambda>k c r. r\<lparr>mr_zsets := (mr_zsets r)(k := fmfilter (\<lambda>m. case fmlookup (mr_zsets r k) m of
         Some x \<Rightarrow> \<not> fle (Fin x) c | None \<Rightarrow> False) (mr_zsets r k))\<rparr>),
     zcard = (\<lambda>k r. fcard (fmdom (mr_zsets r k))),
     zadd = (\<lambda>k x m r. r\<lparr>mr_zsets := (mr_zsets r)(k := fmupd m x (mr_zsets r k)),
         mr_deadlines := (if mr_zsets r k = fmempty then (mr_deadlines r)(k := None) else mr_deadlines r),
         mr_names := List.insert k (mr_names r)\<rparr>),
     expire = (\<lambda>k ttl r. r\<lparr>mr_deadlines := (mr_deadlines r)(k \<mapsto> mr_clock r + of_int ttl)\<rparr>),
     set_nx_ex = (\<lambda>k ttl r. if opt_holds (\<lambda>d. mr_clock r < d) (mr_keys r k) then (False, r)
         else (True, r\<lparr>mr_keys := (mr_keys r)(k \<mapsto> mr_clock r + of_int ttl), mr_names := List.insert k (mr_names r)\<rparr>)),
     exists_key = (\<lambda>k r. opt_holds (\<lambda>d. mr_clock r < d) (mr_keys r k)),
     del_keys = (\<lambda>ks r. r\<lparr>mr_zsets := (\<lambda>k. if k \<in> set ks then fmempty else mr_zsets r k),
         mr_deadlines := (\<lambda>k. if k \<in> set ks then None else mr_deadlines r k),
         mr_keys := (\<lambda>k. if k \<in> set ks then None else mr_keys r k)\<rparr>),
     scan_keys = (\<lambda>c pat r. (if length (mem_from r c) \<le> 100 then 0 else int (key_code (mem_from r c ! 100)),
         filter (mem_matches pat) (take 100 (mem_from r c)))),
     advance = (\<lambda>t r. r\<lparr>mr_clock := max (mr_clock r) t, mr_zsets := (\<lambda>k.
         if opt_holds (\<lambda>d. d \<le> max (mr_clock r) t) (mr_deadlines r k) then fmempty else mr_zsets r k)\<rparr>)\<rparr>"

definition mem_empty :: mem_redis where
  "mem_empty = \<lparr>mr_clock = 0, mr_zsets = (\<lambda>_. fmempty), mr_deadlines = (\<lambda>_. None), mr_keys = (\<lambda>_. None),
     mr_names = []\<rparr>"

interpretation mem: redis_behaviour mem_server "\<lambda>r k. fmlookup (mr_zsets r k)" mr_deadlines mr_clock
proof (unfold_locales, goal_cases)
  case (1 r k)
  then show ?case by (simp add: dom_fmlookup)
next
  case (5 k r)
  then show ?case by (simp add: mem_server_def fcard.rep_eq flip: fmdom'_alt_def)
next
  case (15 k ttl r r' t)
  then show ?case by (auto simp: mem_server_def opt_holds_iff split: if_splits)
next
  case (17 s t r)
  then show ?case
    by (auto simp: mem_server_def opt_holds_iff fun_eq_iff intro!: mem_redis.equality)
qed (auto simp: mem_server_def fun_eq_iff opt_holds_iff fmlookup_filter split: option.splits)

context redis_limiter begin

lemma limit_holds:
  assumes "zset r key = Map.empty" "clock r \<le> t0" "timely t0 rs" "\<forall>rq \<in> set rs. snd rq = m" "0 \<le> m" "is_double t"
  shows "int (length (filter (\<lambda>x. t < x \<and> x \<le> t + W)
    (admitted (redis_window_step srv suffixes key W) rs (r, n)))) \<le> m"
proof (rule window.window_bound[OF _ _ assms(3-5)])
  show "wf t0 (r, n)" using assms(1,2) by (simp add: wf_def)
  show "live (r, n) = []" using assms(1) by (simp add: live_def scores_def)
  fix x y assume xy: "t < x \<and> x \<le> t + W" "t < y \<and> y \<le> t + W"
  have "\<not> flt (round_double t) (round_double (y - W))" using xy by (intro round_double_mono) linarith
  then show "redis_recent W y x"
    using assms(6) xy unfolding redis_recent_def fsub_Fin is_double_def
    by (cases "round_double (y - W)") auto
qed

end

context redis_behaviour begin

lemma used_once_fold:
  assumes "redis_mark srv pre n0 i x r = (True, r0)" "redis_sane x" "0 \<le> n0" "n0 \<le> t"
    and "\<not> num_lt x (NFloat (Fin t))" "\<forall>op \<in> set ops. fst op \<le> t"
  shows "fst (redis_mark srv pre t i y (foldl (\<lambda>s (n, j, z). snd (redis_mark srv pre n j z s)) r0 ops)) = False"
proof -
  have "ledger.run pre ops s = foldl (\<lambda>s (n, j, z). snd (redis_mark srv pre n j z s)) s ops" for s
    by (induction ops arbitrary: s) auto
  then show ?thesis using ledger.used_once[OF assms] by simp
qed

end

interpretation mem_limiter: redis_limiter mem_server "\<lambda>r k. fmlookup (mr_zsets r k)" mr_deadlines mr_clock
    str_of_nat key 3600 for key
  by (unfold_locales) (simp_all add: inj_def str_of_nat_inj)

text \<open>The limiter's method on a server is one step of the shared window.\<close>

lemma redis_check_refines:
  fixes w :: "('r, 'x) served_world_scheme"
  assumes "ro_client self = served srv" "0 < m"
  shows "redis_check_and_record self key m (Fin W) w =
      (case redis_window_step srv (secrets w) (ro_key_prefix self @ key) W (wall w (wall_ix w)) m
          (server_state w, secret_ix w) of
        (b, (r, k)) \<Rightarrow> (Inr b, w\<lparr>wall_ix := Suc (wall_ix w), secret_ix := k, server_state := r\<rparr>))"
  using assms
  by (simp add: redis_check_and_record_def redis_window_step_def
      bindE_def time_time_def token_secret_def guarded_call_def served_def on_server_def redis_key_def
      split: prod.splits)

section \<open>Properties\<close>

text \<open>The shared sliding window: for every sequence of requests from any number of replicas whose
  clocks agree with the server's and do not go back, never more than \<open>m\<close> of the calls admitted
  for a key fall into a window \<open>(t, t + W]\<close>. The window is open at its start, where the
  in-memory limiter's is closed.\<close>

theorem redis_limit_holds:
  assumes "redis_limiter srv zset deadline clock suffixes W"
    and "zset r key = Map.empty" "clock r \<le> t0" "timely t0 rs" "\<forall>rq \<in> set rs. snd rq = m" "0 \<le> m" "is_double t"
  shows "int (length (filter (\<lambda>x. t < x \<and> x \<le> t + W)
    (admitted (redis_window_step srv suffixes key W) rs (r, 0)))) \<le> m"
  by (rule redis_limiter.limit_holds[OF assms])

theorem redis_limit_holds_witness:
  "int (length (filter (\<lambda>x. 0 < x \<and> x \<le> 0 + 3600)
    (admitted (redis_window_step mem_server str_of_nat ''k'' 3600) [(1, 1), (2, 1)] (mem_empty, 0)))) \<le> 1"
proof (rule redis_limit_holds[of mem_server "\<lambda>r k. fmlookup (mr_zsets r k)" mr_deadlines mr_clock str_of_nat 3600, OF mem_limiter.redis_limiter_axioms])
  have "is_double 2" by (rule is_double_numeral) simp
  then show "timely 0 [(1, 1), (2, 1)]" by simp
qed (simp_all add: mem_empty_def fun_eq_iff)

text \<open>C29: Single use across replicas: once the ledger in Redis has accepted a token, every later mark
  of it up to its expiry is refused, by whichever replica and after whatever other marks. The
  key outlives the expiry although its lifetime is cut to whole seconds.\<close>

theorem redis_token_used_once:
  assumes "redis_behaviour srv zset deadline clock"
    and "redis_mark srv pre n0 i x r = (True, r0)" "redis_sane x" "0 \<le> n0" "n0 \<le> t"
    and "\<not> num_lt x (NFloat (Fin t))" "\<forall>op \<in> set ops. fst op \<le> t"
  shows "fst (redis_mark srv pre t i y (foldl (\<lambda>s (n, j, z). snd (redis_mark srv pre n j z s)) r0 ops)) = False"
  using redis_behaviour.used_once_fold[OF assms] .

theorem redis_token_used_once_witness:
  "fst (redis_mark mem_server ''tok:'' 1020 ''t'' (NFloat (Fin 1030))
     (snd (redis_mark mem_server ''tok:'' 1010 ''u'' (NFloat (Fin 1005))
       (snd (redis_mark mem_server ''tok:'' 1000 ''t'' (NFloat (Fin 1030)) mem_empty))))) = False"
proof -
  have d: "is_double 1030" "round_double 30 = Fin 30"
    by (rule is_double_numeral round_double_numeral; simp)+
  have m: "fst (redis_mark mem_server ''tok:'' 1000 ''t'' (NFloat (Fin 1030)) mem_empty) = True"
    using d by (simp add: redis_mark_def num_minus_float_def truncate_rat_def mem_server_def mem_empty_def)
  have "redis_sane (NFloat (Fin 1030))" using d by (simp add: redis_sane_def)
  from redis_token_used_once[OF mem.redis_behaviour_axioms prod_eqI this, of _ 1000 "''t''" mem_empty _ 1020
      "[(1010, ''u'', NFloat (Fin 1005))]"] m
  show ?thesis by (simp add: num_lt_def)
qed

lemma guarded_call_outage: "fst (m w) = Inl e \<Longrightarrow> is_exception e \<Longrightarrow> fst (guarded_call what d m w) = Inr d"
  by (cases "m w") (simp add: guarded_call_def)

lemma bind_time: "bindE time_time f w = f (wall w (wall_ix w)) (w\<lparr>wall_ix := Suc (wall_ix w)\<rparr>)"
  and bind_secret: "bindE token_secret g w = g (secrets w (secret_ix w)) (w\<lparr>secret_ix := Suc (secret_ix w)\<rparr>)"
  and bind_lift: "bindE (liftE (Inr a)) h w = h a w"
  by (simp_all add: bindE_def time_time_def token_secret_def)

lemma fst_bindE_Inl: "fst (m w) = Inl e \<Longrightarrow> fst (bindE m f w) = Inl e"
  by (cases "m w") (simp add: bindE_def)

text \<open>C36: An outage denies: when every command of the client raises an ordinary exception and the
  objects are fail-closed, the boundary whose limiter is the Redis limiter allows no call that an
  hourly limit covers, the ledger refuses every token it is asked to mark, and reports every
  token as used.\<close>

theorem redis_outage_denies:
  assumes "\<And>k now c m mem ttl w. fst (rc_window_script (ro_client self) k now c m mem ttl w) = Inl e"
    and "\<And>k ttl w. fst (rc_set_nx (ro_client self) k ttl w) = Inl e"
    and "\<And>k w. fst (rc_exists (ro_client self) k w) = Inl e"
    and "is_exception e" "ro_fail_closed self"
    and "tame_boundary b" "b_rate_limiter b = redis_check_and_record self" "b_max_actions_per_hour b = Some m"
  shows "fst (check b rq w) \<noteq> Inr () \<and> fst (redis_mark_used self i x w) \<noteq> Inr True \<and>
    fst (redis_is_used self i w) = Inr True"
proof -
  have s: "redis_check_and_record self k m (Fin 3600) v \<noteq> (Inr True, v')" for k v v'
  proof (cases "m \<le> 0")
    case False
    let ?u = "v\<lparr>wall_ix := Suc (wall_ix v), secret_ix := Suc (secret_ix v)\<rparr>"
    have "fst (redis_check_and_record self k m (Fin 3600) v) = Inr False"
      using False assms(5) guarded_call_outage[OF fst_bindE_Inl[OF assms(1)] assms(4)]
      by (simp add: redis_check_and_record_def bind_time bind_secret bind_lift truncate_rat_def)
    then show ?thesis by (metis fst_conv sum.inject(2))
  qed (simp add: redis_check_and_record_def)
  have g: "check_global_rate b ctx v \<noteq> (Inr (), v')" for ctx v v'
    using s by (auto simp: check_global_rate_def assms(7,8) bindE_Inr_iff)
  have "fst (check b rq w) \<noteq> Inr ()"
    using g unfolding check_passes_iff[OF assms(6)] check_rate_limit_def thenE_Inr_iff by blast
  moreover have "fst (redis_mark_used self i x w) \<noteq> Inr True"
  proof
    assume "fst (redis_mark_used self i x w) = Inr True"
    then obtain w' where "redis_mark_used self i x w = (Inr True, w')" by (metis prod.collapse)
    then obtain what k ttl u where "guarded_call what False (rc_set_nx (ro_client self) k ttl) u = (Inr True, w')"
      using assms(5) unfolding redis_mark_used_def bindE_Inr_iff by (auto split: if_splits)
    moreover have "fst (guarded_call what False (rc_set_nx (ro_client self) k ttl) u) = Inr False"
      by (rule guarded_call_outage[OF assms(2,4)])
    ultimately show False by simp
  qed
  moreover have "fst (redis_is_used self i w) = Inr True"
    using guarded_call_outage[OF assms(3,4)] assms(5) by (simp add: redis_is_used_def)
  ultimately show ?thesis by blast
qed

text \<open>An object whose client cannot reach its server.\<close>

definition unreachable :: "'w redis_object" where
  "unreachable = (let down = Foreign (PyExc ''ConnectionError'' ''down'') True
     in \<lparr>ro_client = \<lparr>rc_window_script = (\<lambda>_ _ _ _ _ _. throwE down), rc_count_script = (\<lambda>_ _. throwE down),
          rc_delete = (\<lambda>_. throwE down), rc_scan = (\<lambda>_ _. throwE down), rc_set_nx = (\<lambda>_ _. throwE down),
          rc_exists = (\<lambda>_. throwE down)\<rparr>, ro_key_prefix = ''toolboundary:'', ro_fail_closed = True\<rparr>)"

theorem redis_outage_denies_witness:
  "fst (check (sample_boundary\<lparr>b_rate_limiter := redis_check_and_record unreachable\<rparr>) (send_request (PInt 120)) sample_world) \<noteq> Inr ()"
proof -
  let ?b = "sample_boundary\<lparr>b_rate_limiter := redis_check_and_record unreachable\<rparr>"
  have t: "tame_boundary ?b" by (rule default_sinks_tame) simp
  have "b_rate_limiter ?b = redis_check_and_record unreachable" "b_max_actions_per_hour ?b = Some 1" by simp_all
  from redis_outage_denies[OF _ _ _ _ _ t this, of "Foreign (PyExc ''ConnectionError'' ''down'') True"] show ?thesis
    by (simp add: unreachable_def Let_def)
qed

definition served_sample :: "(mem_redis, unit) served_world_scheme" where
  "served_sample = \<lparr>wall = (\<lambda>_. 1000), wall_ix = 0, mono = (\<lambda>_. 0), mono_ix = 0, uuids = (\<lambda>_. []), uuid_ix = 0,
     secrets = str_of_nat, secret_ix = 0, environ = Map.empty, log = [], files = Map.empty, unwritable = {},
     posts = [], limiters = (\<lambda>_. Map.empty), server_state = mem_empty\<rparr>"

end
