(* ===== verification/Redis_Reset.thy ===== *)
theory Redis_Reset
  imports Redis_Safety "HOL-Library.Sublist"
begin

text \<open>
  The administrative side of \<open>redis_backend.py\<close>: \<open>reset\<close> scans the keys under the limiter's prefix
  in a loop whose end depends on the cursors of the server, and deletes while it scans. What Redis
  documents of \<open>SCAN\<close> is a locale; with it the loop ends and the prefix is empty.
\<close>

section \<open>Documented behaviour of the scan\<close>

text \<open>\<open>matches\<close> is the server's pattern language, in which a character that is not special stands
  for itself.\<close>

definition plain_char :: "char \<Rightarrow> bool" where
  "plain_char c \<longleftrightarrow> c \<notin> {CHR ''*'', CHR ''?'', CHR ''['', CHR '']'', CHR ''^'', CHR ''-'', CHR 0x5C}"

text \<open>The cursor after \<open>n\<close> calls of an iteration, the server in state \<open>rs i\<close> at call \<open>i\<close>.\<close>

primrec cursor_after :: "'r redis_server \<Rightarrow> string \<Rightarrow> (nat \<Rightarrow> 'r) \<Rightarrow> nat \<Rightarrow> int" where
  "cursor_after srv pat rs 0 = 0"
| "cursor_after srv pat rs (Suc n) = fst (scan_keys srv (cursor_after srv pat rs n) pat (rs n))"

text \<open>
  \<open>keys r\<close> are the existing keys. A cursor is opaque, may depend on the state, and a call may
  return any number of keys that match. Redis documents two things of an iteration: it comes back
  to the cursor 0 while the collection stays bounded (asked here of collections that only shrink),
  and a full iteration has returned every matching key that existed from its start to its end.
\<close>

locale redis_scan = redis_behaviour srv zset deadline clock
  for srv :: "'r redis_server" and zset and deadline and clock +
  fixes keys :: "'r \<Rightarrow> string set"
    and matches :: "string \<Rightarrow> string \<Rightarrow> bool"
  assumes finite_keys: "finite (keys r)"
    and del_keys: "keys (del_keys srv ks r) = keys r - set ks"
    and del_still: "advance srv t r = r \<Longrightarrow> advance srv t (del_keys srv ks r) = del_keys srv ks r"
    and scan_matches: "k \<in> set (snd (scan_keys srv c pat r)) \<Longrightarrow> matches pat k"
    and scan_returns: "(\<And>i. keys (rs (Suc i)) \<subseteq> keys (rs i)) \<Longrightarrow> \<exists>n > 0. cursor_after srv pat rs n = 0"
    and scan_complete: "0 < n \<Longrightarrow> cursor_after srv pat rs n = 0 \<Longrightarrow> (\<And>i. 0 < i \<Longrightarrow> i < n \<Longrightarrow> cursor_after srv pat rs i \<noteq> 0) \<Longrightarrow>
      matches pat k \<Longrightarrow> (\<And>i. i < n \<Longrightarrow> k \<in> keys (rs i)) \<Longrightarrow>
      \<exists>i < n. k \<in> set (snd (scan_keys srv (cursor_after srv pat rs i) pat (rs i)))"
    and matches_prefix: "list_all plain_char p \<Longrightarrow> matches (p @ ''*'') k \<longleftrightarrow> prefix p k"
begin

text \<open>The states the loop goes through: each call deletes what it was given.\<close>

definition purge :: "string list \<Rightarrow> 'r \<Rightarrow> 'r" where
  "purge ks r = (if ks = [] then r else del_keys srv ks r)"

primrec turn :: "string \<Rightarrow> 'r \<Rightarrow> nat \<Rightarrow> int \<times> 'r" where
  "turn pat r 0 = (0, r)"
| "turn pat r (Suc n) = (case turn pat r n of (c, v) \<Rightarrow> case scan_keys srv c pat v of (c', ks) \<Rightarrow> (c', purge ks v))"

abbreviation "state_at pat r n \<equiv> snd (turn pat r n)"

lemma turn_cursor: "fst (turn pat r n) = cursor_after srv pat (state_at pat r) n"
  by (induction n) (auto split: prod.splits)

lemma turn_Suc:
  "state_at pat r (Suc n) = purge (snd (scan_keys srv (cursor_after srv pat (state_at pat r) n) pat (state_at pat r n))) (state_at pat r n)"
  by (simp add: turn_cursor[symmetric] split: prod.splits)

lemma keys_purge: "keys (purge ks r) = keys r - set ks"
  by (simp add: purge_def del_keys)

lemma keys_shrink: "i \<le> j \<Longrightarrow> keys (state_at pat r j) \<subseteq> keys (state_at pat r i)"
proof (induction j)
  case (Suc j)
  have "keys (state_at pat r (Suc j)) \<subseteq> keys (state_at pat r j)" by (simp only: turn_Suc keys_purge Diff_subset)
  then show ?case using Suc by (cases "i = Suc j") auto
qed simp

lemma state_still: "advance srv t r = r \<Longrightarrow> advance srv t (state_at pat r n) = state_at pat r n"
proof (induction n)
  case (Suc n)
  then show ?case unfolding turn_Suc purge_def by (simp add: del_still)
qed simp

text \<open>What a full iteration leaves.\<close>

lemma iteration_clears:
  assumes "0 < n" "cursor_after srv pat (state_at pat r) n = 0"
    and "\<And>i. 0 < i \<Longrightarrow> i < n \<Longrightarrow> cursor_after srv pat (state_at pat r) i \<noteq> 0"
  shows "keys (state_at pat r n) = {k \<in> keys r. \<not> matches pat k}"
proof (intro set_eqI iffI)
  fix k
  assume k: "k \<in> keys (state_at pat r n)"
  have all: "k \<in> keys (state_at pat r i)" if "i \<le> n" for i using keys_shrink[OF that] k by blast
  have "\<not> matches pat k"
  proof
    assume "matches pat k"
    from scan_complete[OF assms this] all obtain i where i: "i < n"
      "k \<in> set (snd (scan_keys srv (cursor_after srv pat (state_at pat r) i) pat (state_at pat r i)))"
      by (meson less_imp_le)
    then have "k \<notin> keys (state_at pat r (Suc i))" unfolding turn_Suc keys_purge by blast
    then show False using all[of "Suc i"] i(1) by simp
  qed
  then show "k \<in> {k \<in> keys r. \<not> matches pat k}" using all[of 0] by simp
next
  fix k
  assume k: "k \<in> {k \<in> keys r. \<not> matches pat k}"
  show "k \<in> keys (state_at pat r n)"
  proof (induction n)
    case (Suc n)
    then show ?case using k scan_matches unfolding turn_Suc keys_purge by blast
  qed (use k in simp)
qed

text \<open>The loop makes these turns until the cursor is back at 0.\<close>

lemma scan_delete_turns:
  fixes w :: "('r, 'x) served_world_scheme"
  assumes "advance srv (wall w (wall_ix w - 1)) r = r" "i < n" "cursor_after srv pat (state_at pat r) n = 0"
    and "\<And>j. i < j \<Longrightarrow> j < n \<Longrightarrow> cursor_after srv pat (state_at pat r) j \<noteq> 0"
  shows "scan_delete (served srv) pat (cursor_after srv pat (state_at pat r) i) (w\<lparr>server_state := state_at pat r i\<rparr>) =
    Some (Inr (), w\<lparr>server_state := state_at pat r n\<rparr>)"
  using assms(2,4)
proof (induction "n - i" arbitrary: i)
  case (Suc d)
  let ?t = "wall w (wall_ix w - 1)" and ?c = "cursor_after srv pat (state_at pat r)"
  obtain c ks where sc: "scan_keys srv (?c i) pat (state_at pat r i) = (c, ks)" by fastforce
  have c: "c = ?c (Suc i)" and next_state: "state_at pat r (Suc i) = purge ks (state_at pat r i)"
    using sc turn_Suc[of pat r i] by simp_all
  have still: "advance srv ?t (state_at pat r j) = state_at pat r j" for j using state_still[OF assms(1)] .
  have unfold: "scan_delete (served srv) pat (?c i) (w\<lparr>server_state := state_at pat r i\<rparr>) =
      (if c = 0 then Some (Inr (), w\<lparr>server_state := state_at pat r (Suc i)\<rparr>)
       else scan_delete (served srv) pat c (w\<lparr>server_state := state_at pat r (Suc i)\<rparr>))"
    using sc still[of i] by (subst scan_delete.simps) (simp add: served_def on_server_def next_state purge_def del: turn.simps)
  show ?case
  proof (cases "Suc i = n")
    case True
    then show ?thesis using unfold c assms(3) by simp
  next
    case False
    then have "c \<noteq> 0" using Suc.prems(2)[of "Suc i"] Suc.prems(1) c by (simp del: cursor_after.simps)
    moreover have "scan_delete (served srv) pat (?c (Suc i)) (w\<lparr>server_state := state_at pat r (Suc i)\<rparr>) =
        Some (Inr (), w\<lparr>server_state := state_at pat r n\<rparr>)"
      using Suc.prems False Suc.hyps(2) by (intro Suc.hyps(1)) auto
    ultimately show ?thesis using unfold c by simp
  qed
qed simp

lemma reset_clears:
  fixes w :: "('r, 'x) served_world_scheme"
  assumes "ro_client self = served srv" "list_all plain_char (ro_key_prefix self)"
  shows "\<exists>r'. redis_reset self None w = Some (Inr (), w\<lparr>server_state := r'\<rparr>) \<and>
    keys r' = {k \<in> keys (advance srv (wall w (wall_ix w - 1)) (server_state w)). \<not> prefix (ro_key_prefix self) k}"
proof -
  let ?t = "wall w (wall_ix w - 1)" and ?pat = "ro_key_prefix self @ ''*''"
  let ?r = "advance srv ?t (server_state w)"
  let ?zero = "\<lambda>n. 0 < n \<and> cursor_after srv ?pat (state_at ?pat ?r) n = 0"
  have still: "advance srv ?t ?r = ?r" using advance_advance[of ?t ?t] by simp
  have zero: "\<exists>n. ?zero n"
  proof -
    have "\<exists>n > 0. cursor_after srv ?pat (state_at ?pat ?r) n = 0"
      by (rule scan_returns) (rule keys_shrink, simp)
    then show ?thesis by blast
  qed
  define n where "n = (LEAST n. ?zero n)"
  have n: "?zero n" unfolding n_def by (rule LeastI_ex[OF zero])
  have before: "cursor_after srv ?pat (state_at ?pat ?r) j \<noteq> 0" if "0 < j" "j < n" for j
    using not_less_Least[OF that(2)[unfolded n_def]] that(1) by blast
  have "scan_delete (served srv) ?pat 0 w = scan_delete (served srv) ?pat 0 (w\<lparr>server_state := ?r\<rparr>)"
    by (simp only: scan_delete.simps[of _ _ 0 w] scan_delete.simps[of _ _ 0 "w\<lparr>server_state := _\<rparr>"])
      (simp add: served_def on_server_def still[unfolded One_nat_def] split: prod.split)
  also have "\<dots> = Some (Inr (), w\<lparr>server_state := state_at ?pat ?r n\<rparr>)"
    using scan_delete_turns[OF still, of 0 n ?pat] n before by simp
  finally have "redis_reset self None w = Some (Inr (), w\<lparr>server_state := state_at ?pat ?r n\<rparr>)"
    using assms(1) by (simp add: redis_reset_def guarded_call_def Let_def)
  moreover have "keys (state_at ?pat ?r n) = {k \<in> keys ?r. \<not> matches ?pat k}"
    using n before by (intro iteration_clears) auto
  ultimately show ?thesis using matches_prefix[OF assms(2)] by auto
qed

end

section \<open>The concrete server\<close>

lemma prefix_take: "prefix p k \<longleftrightarrow> take (length p) k = p"
  using take_is_prefix[of "length p" k] by (auto simp: prefix_def)

lemma base_257:
  assumes "(a :: nat) + 257 * x = b + 257 * y" "a < 257" "b < 257"
  shows "x = y"
  using arg_cong[OF assms(1), of "\<lambda>n. n div 257"] assms(2,3) by simp

lemma key_code_inj: "key_code s = key_code t \<Longrightarrow> s = t"
proof (induction s arbitrary: t)
  case Nil
  then show ?case by (cases t) simp_all
next
  case (Cons c cs)
  then obtain d ds where t: "t = d # ds" by (cases t) auto
  have lt: "Suc (of_char c) < 257" "Suc (of_char d) < (257 :: nat)"
    using nat_of_char_less_256[of c] nat_of_char_less_256[of d] by simp_all
  have e: "Suc (of_char c) + 257 * key_code cs = Suc (of_char d) + 257 * key_code ds" using Cons.prems t by simp
  have "key_code cs = key_code ds" by (rule base_257[OF e lt])
  moreover have "of_char c = (of_char d :: nat)" using e calculation by simp
  ultimately show ?case using Cons.IH t by simp
qed

abbreviation mem_existing :: "mem_redis \<Rightarrow> string set" where
  "mem_existing r \<equiv> {k \<in> set (mr_names r). mem_live r k}"

lemma mem_from_props:
  "set (mem_from r c) = {k \<in> mem_existing r. c \<le> int (key_code k)}"
  "sorted (map key_code (mem_from r c))" "distinct (mem_from r c)"
  by (auto simp: mem_from_def)

lemma mem_from_mono: "i \<le> j \<Longrightarrow> j < length (mem_from r c) \<Longrightarrow> key_code (mem_from r c ! i) \<le> key_code (mem_from r c ! j)"
  using sorted_nth_mono[OF mem_from_props(2), of i j r c] by simp

lemma mem_from_distinct: "i < j \<Longrightarrow> j < length (mem_from r c) \<Longrightarrow> mem_from r c ! i \<noteq> mem_from r c ! j"
  using nth_eq_iff_index_eq[OF mem_from_props(3), of i r c j] by simp

lemma mem_scan:
  "fst (scan_keys mem_server c pat r) = (if length (mem_from r c) \<le> 100 then 0 else int (key_code (mem_from r c ! 100)))"
  "snd (scan_keys mem_server c pat r) = filter (mem_matches pat) (take 100 (mem_from r c))"
  by (simp_all add: mem_server_def)

text \<open>A call that does not end the iteration moves the cursor to a key, and has returned those below.\<close>

lemma mem_cursor_moves:
  assumes "fst (scan_keys mem_server c pat r) \<noteq> 0"
  shows "c < fst (scan_keys mem_server c pat r)" "fst (scan_keys mem_server c pat r) \<in> int ` key_code ` mem_existing r"
    and "k \<in> mem_existing r \<Longrightarrow> c \<le> int (key_code k) \<Longrightarrow> int (key_code k) < fst (scan_keys mem_server c pat r) \<Longrightarrow>
      k \<in> set (take 100 (mem_from r c))"
proof -
  let ?ks = "mem_from r c"
  have n: "100 < length ?ks" and f: "fst (scan_keys mem_server c pat r) = int (key_code (?ks ! 100))"
    using assms by (auto simp: mem_scan split: if_splits)
  note le = mem_from_mono[of _ _ r c]
  have "?ks ! 0 \<noteq> ?ks ! 100" using mem_from_distinct[of 0 100] n by simp
  then have "key_code (?ks ! 0) < key_code (?ks ! 100)"
    using le[of 0 100] n key_code_inj by (metis le_neq_implies_less zero_le)
  moreover have "c \<le> int (key_code (?ks ! 0))"
    using nth_mem[of 0 ?ks] n mem_from_props(1)[of r c] by (metis (mono_tags, lifting) less_trans mem_Collect_eq zero_less_numeral)
  ultimately show "c < fst (scan_keys mem_server c pat r)" using f by simp
  show "fst (scan_keys mem_server c pat r) \<in> int ` key_code ` mem_existing r"
    using nth_mem[OF n] mem_from_props(1)[of r c] f by (metis (no_types, lifting) imageI mem_Collect_eq)
  show "k \<in> set (take 100 ?ks)" if k: "k \<in> mem_existing r" "c \<le> int (key_code k)"
    "int (key_code k) < fst (scan_keys mem_server c pat r)"
  proof -
    have "k \<in> set ?ks" using k(1,2) mem_from_props(1) by blast
    then obtain i where i: "i < length ?ks" "k = ?ks ! i" by (metis in_set_conv_nth)
    have "i < 100" using le[of 100 i] i k(3) f by (metis leD linorder_not_less of_nat_less_iff)
    then show ?thesis using i n by (auto simp: in_set_conv_nth intro!: exI[of _ i])
  qed
qed

lemma mem_cursor_nonneg: "0 \<le> cursor_after mem_server pat rs n"
  by (cases n) (simp_all add: mem_scan)

text \<open>The cursor grows through the keys there were at the start, so it must come back.\<close>

lemma mem_scan_returns:
  assumes shrink: "\<And>i. mem_existing (rs (Suc i)) \<subseteq> mem_existing (rs i)"
  shows "\<exists>n > 0. cursor_after mem_server pat rs n = 0"
proof (rule ccontr)
  assume "\<nexists>n. n > 0 \<and> cursor_after mem_server pat rs n = 0"
  then have nz: "cursor_after mem_server pat rs (Suc n) \<noteq> 0" for n by blast
  let ?c = "cursor_after mem_server pat rs" and ?S = "int ` key_code ` mem_existing (rs 0)"
  have grow: "?c n < ?c (Suc n)" for n using mem_cursor_moves(1)[of "?c n" pat "rs n"] nz[of n] by simp
  have "mem_existing (rs n) \<subseteq> mem_existing (rs 0)" for n
    by (induction n) (use shrink in blast)+
  then have "?c (Suc n) \<in> ?S" for n using mem_cursor_moves(2)[of "?c n" pat "rs n"] nz[of n] by auto
  then have "range (\<lambda>n. ?c (Suc n)) \<subseteq> ?S" by blast
  moreover have "finite ?S" by simp
  ultimately have "finite (range (\<lambda>n. ?c (Suc n)))" by (rule finite_subset)
  moreover have "inj (\<lambda>n. ?c (Suc n))"
  proof -
    have "strict_mono (\<lambda>n. ?c (Suc n))" unfolding strict_mono_Suc_iff using grow by blast
    then show ?thesis by (rule strict_mono_imp_inj_on)
  qed
  ultimately show False using finite_imageD by fastforce
qed

lemma mem_scan_complete:
  assumes "0 < n" "cursor_after mem_server pat rs n = 0" "mem_matches pat k" "\<And>i. i < n \<Longrightarrow> k \<in> mem_existing (rs i)"
    and "\<And>i. 0 < i \<Longrightarrow> i < n \<Longrightarrow> cursor_after mem_server pat rs i \<noteq> 0"
  shows "\<exists>i < n. k \<in> set (snd (scan_keys mem_server (cursor_after mem_server pat rs i) pat (rs i)))"
proof (rule ccontr)
  let ?c = "cursor_after mem_server pat rs"
  assume "\<not> ?thesis"
  then have none: "k \<notin> set (take 100 (mem_from (rs i) (?c i)))" if "i < n" for i
    using that assms(3) by (auto simp: mem_scan)
  have beyond: "i < n \<Longrightarrow> ?c i \<le> int (key_code k)" for i
  proof (induction i)
    case (Suc i)
    then have le: "?c i \<le> int (key_code k)" "k \<in> mem_existing (rs i)" using assms(4)[of i] by simp_all
    have nz: "fst (scan_keys mem_server (?c i) pat (rs i)) \<noteq> 0" using assms(5)[of "Suc i"] Suc.prems by simp
    show ?case
      using mem_cursor_moves(3)[OF nz le(2,1)] none[of i] Suc.prems by fastforce
  qed simp
  obtain m where m: "n = Suc m" using assms(1) by (cases n) auto
  have "length (mem_from (rs m) (?c m)) \<le> 100"
  proof (rule ccontr)
    assume "\<not> ?thesis"
    then have z: "key_code (mem_from (rs m) (?c m) ! 100) = 0" using assms(2) m by (simp add: mem_scan)
    have h: "100 < length (mem_from (rs m) (?c m))" using \<open>\<not> length _ \<le> 100\<close> by simp
    then have "mem_from (rs m) (?c m) ! 0 = mem_from (rs m) (?c m) ! 100"
      using mem_from_mono[of 0 100 "rs m" "?c m"] z key_code_inj by simp
    then show False using mem_from_distinct[of 0 100 "rs m" "?c m"] h by simp
  qed
  moreover have "k \<in> set (mem_from (rs m) (?c m))"
    using beyond[of m] assms(4)[of m] m mem_from_props(1) by simp
  ultimately show False using none[of m] m by simp
qed

interpretation mem_scan: redis_scan mem_server "\<lambda>r k. fmlookup (mr_zsets r k)" mr_deadlines mr_clock
    mem_existing mem_matches
proof (unfold_locales, goal_cases)
  case (1 r)
  then show ?case by simp
next
  case (2 ks r)
  then show ?case by (auto simp: mem_server_def mem_live_def opt_holds_iff)
next
  case (3 t r ks)
  have c: "max (mr_clock r) t = mr_clock r"
    and z: "(if opt_holds (\<lambda>d. d \<le> max (mr_clock r) t) (mr_deadlines r k) then fmempty else mr_zsets r k) = mr_zsets r k" for k
    using arg_cong[OF 3, of mr_clock] fun_cong[OF arg_cong[OF 3, of mr_zsets], of k] by (simp_all add: mem_server_def)
  show ?case
  proof (rule mem_redis.equality)
    show "mr_zsets (advance mem_server t (del_keys mem_server ks r)) = mr_zsets (del_keys mem_server ks r)"
    proof
      fix k
      show "mr_zsets (advance mem_server t (del_keys mem_server ks r)) k = mr_zsets (del_keys mem_server ks r) k"
        using z[of k] by (simp add: mem_server_def split: if_splits)
    qed
  qed (use c in \<open>simp_all add: mem_server_def\<close>)
next
  case (4 k c pat r)
  then show ?case by (simp add: mem_scan)
next
  case (5 rs pat)
  then show ?case by (rule mem_scan_returns)
next
  case (6 n pat rs k)
  then show ?case by (intro mem_scan_complete) auto
next
  case (7 p k)
  then show ?case by (auto simp: mem_matches_def prefix_take)
qed

section \<open>Properties\<close>

text \<open>C30: \<open>reset()\<close> of the whole limiter ends, although it deletes keys while their scan is under way:
  against a server that scans as Redis documents it, with opaque cursors and batches of any size, the
  cursor loop returns, raises nothing, and leaves exactly the keys that do not start with the
  limiter's prefix, when no character of the prefix is special in a pattern and no other client
  writes meanwhile.\<close>

theorem redis_reset_ends:
  fixes w :: "('r, 'x) served_world_scheme"
  assumes "redis_scan srv zset deadline clock keys matches"
    and "ro_client self = served srv" "list_all plain_char (ro_key_prefix self)"
  shows "\<exists>r'. redis_reset self None w = Some (Inr (), w\<lparr>server_state := r'\<rparr>) \<and>
    keys r' = {k \<in> keys (advance srv (wall w (wall_ix w - 1)) (server_state w)). \<not> prefix (ro_key_prefix self) k}"
  by (rule redis_scan.reset_clears[OF assms])

theorem redis_reset_ends_witness:
  "\<exists>r'. redis_reset \<lparr>ro_client = served mem_server, ro_key_prefix = ''rl:'', ro_fail_closed = True\<rparr> None
     (served_sample\<lparr>server_state := zadd mem_server ''rl:bot'' 5 ''m'' mem_empty\<rparr>) =
       Some (Inr (), served_sample\<lparr>server_state := r'\<rparr>) \<and> mem_existing r' = {}"
proof -
  have "list_all plain_char (ro_key_prefix \<lparr>ro_client = served mem_server, ro_key_prefix = ''rl:'', ro_fail_closed = True\<rparr>)"
    by (simp add: plain_char_def)
  from redis_reset_ends[OF mem_scan.redis_scan_axioms _ this,
      of "served_sample\<lparr>server_state := zadd mem_server ''rl:bot'' 5 ''m'' mem_empty\<rparr>"]
  obtain r' where r': "redis_reset \<lparr>ro_client = served mem_server, ro_key_prefix = ''rl:'', ro_fail_closed = True\<rparr> None
      (served_sample\<lparr>server_state := zadd mem_server ''rl:bot'' 5 ''m'' mem_empty\<rparr>) =
      Some (Inr (), served_sample\<lparr>server_state := r'\<rparr>)"
    "mem_existing r' = {k \<in> mem_existing (advance mem_server (wall served_sample
        (wall_ix served_sample - 1)) (zadd mem_server ''rl:bot'' 5 ''m'' mem_empty)). \<not> prefix ''rl:'' k}"
    by auto
  have "mr_names (advance mem_server t (zadd mem_server ''rl:bot'' 5 ''m'' mem_empty)) = [''rl:bot'']" for t
    by (simp add: mem_server_def mem_empty_def)
  then have "mem_existing r' = {}" unfolding r'(2) by auto
  then show ?thesis using r'(1) by blast
qed

end
