(* ===== verification/Redis_Equivalence.thy ===== *)
theory Redis_Equivalence
  imports Redis_Safety
begin

text \<open>
  \<open>redis_backend.py\<close> calls its limiter a drop-in replacement of the one in \<open>_rate_limiter.py\<close>. Here
  the two are compared: the sorted set of a key against the deque of a key, script against loop,
  method against method.
\<close>

section \<open>The methods\<close>

text \<open>The answers of a limiter's method, called again and again for one key.\<close>

fun limiter_run ::
  "(string \<Rightarrow> int \<Rightarrow> pyfloat \<Rightarrow> ('w world_scheme, exn, bool) eff) \<Rightarrow> string \<Rightarrow> pyfloat \<Rightarrow> int list \<Rightarrow>
   'w world_scheme \<Rightarrow> (exn + bool) list" where
  "limiter_run method key window [] w = []"
| "limiter_run method key window (m # ms) w = (case method key m window w of
     (r, w') \<Rightarrow> r # limiter_run method key window ms w')"

definition held :: "nat \<Rightarrow> string \<Rightarrow> 'w world_scheme \<Rightarrow> rat list" where
  "held me key w = (case limiters w me key of None \<Rightarrow> [] | Some calls \<Rightarrow> calls)"

lemma memory_method:
  assumes "window_step (Fin W) (mono v (mono_ix v)) m (held me key v) = (b, calls')"
  obtains v' where "check_and_record me key m (Fin W) v = (Inr b, v')" "held me key v' = calls'"
    "mono v' = mono v" "mono_ix v' = Suc (mono_ix v)"
  using assms by (simp add: check_and_record_def bindE_def time_monotonic_def Let_def held_def split: option.splits)

text \<open>Two runs on the same readings.\<close>

definition same_readings :: "('r, 'x) served_world_scheme \<Rightarrow> 'v world_scheme \<Rightarrow> bool" where
  "same_readings w v \<longleftrightarrow> (\<forall>i. mono v (mono_ix v + i) = wall w (wall_ix w + i))"

text \<open>No reading lies exactly a window after another.\<close>

definition untied :: "rat \<Rightarrow> (nat \<Rightarrow> rat) \<Rightarrow> bool" where
  "untied W F \<longleftrightarrow> (\<forall>i j. fsub (Fin (F j)) (Fin W) \<noteq> Fin (F i))"

lemma window_step_members: "window_step W now m calls = (b, calls') \<Longrightarrow> set calls' \<subseteq> insert now (set calls)"
  using set_dropWhileD[of _ "\<lambda>t. flt (Fin t) (fsub (Fin now) W)" calls]
  by (auto simp: window_step_def Let_def prune_dropWhile split: if_splits)

section \<open>The two memories\<close>

text \<open>What is recent at or after a time is the same in the sorted set and in the deque.\<close>

context redis_limiter begin

definition agree :: "rat \<Rightarrow> 'r \<Rightarrow> rat list \<Rightarrow> bool" where
  "agree t r calls \<longleftrightarrow> (\<forall>now \<ge> t. {#x \<in># scores (zset r key). redis_recent W now x#} =
     {#x \<in># mset calls. redis_recent W now x#})"

text \<open>Away from the boundary instant, the two cutoffs keep the same times.\<close>

lemma deque_keeps_recent:
  assumes "deque_wf t calls" "\<forall>x \<in> set calls. fsub (Fin now) (Fin W) \<noteq> Fin x"
  shows "prune (fsub (Fin now) (Fin W)) calls = filter (redis_recent W now) calls"
proof -
  have "\<not> flt (Fin x) (fsub (Fin now) (Fin W)) \<longleftrightarrow> redis_recent W now x" if "x \<in> set calls" for x
    using assms(2) that cutoff_not_NaN[of now]
    by (cases "fsub (Fin now) (Fin W)") (auto simp: redis_recent_def)
  then show ?thesis
    using assms(1) by (auto simp: prune_filter deque_wf_def intro!: filter_cong)
qed

text \<open>After the removal of the old scores exactly the recent ones are left, also when the key has expired.\<close>

lemma pruned_scores:
  assumes "wf t (r, n)" "t \<le> now"
  shows "scores (zset (pruned now r) key) = {#x \<in># scores (zset r key). redis_recent W now x#}"
proof (rule subset_mset.antisym)
  have "{#x \<in># scores (zset (advance srv now r) key). redis_recent W now x#} \<subseteq># {#x \<in># scores (zset r key). redis_recent W now x#}"
    by (simp add: advance_zset scores_def)
  then show "scores (zset (pruned now r) key) \<subseteq># {#x \<in># scores (zset r key). redis_recent W now x#}"
    by (simp only: pruned_zset(2)[OF assms])
  show "{#x \<in># scores (zset r key). redis_recent W now x#} \<subseteq># scores (zset (pruned now r) key)"
    by (rule recent_kept[OF assms])
qed

lemma filter_later:
  "now \<le> u \<Longrightarrow> {#x \<in># {#x \<in># M. redis_recent W now x#}. redis_recent W u x#} = {#x \<in># M. redis_recent W u x#}"
  unfolding filter_filter_mset by (rule filter_mset_cong[OF refl]) (use redis_recent_anti in blast)

text \<open>One request: the same answer, and the memories agree on.\<close>

lemma step_agrees:
  assumes "wf t (r, n)" "deque_wf t calls" "agree t r calls" "t \<le> now" "is_double now" "0 < m"
    and untied: "\<forall>x \<in> set calls. fsub (Fin now) (Fin W) \<noteq> Fin x"
    and a: "redis_window_step srv suffixes key W now m (r, n) = (b, (r', n'))"
    and d: "window_step (Fin W) now m calls = (b', calls')"
  shows "b' = b" "wf now (r', n')" "deque_wf now calls'" "agree now r' calls'"
proof -
  let ?P = "{#x \<in># mset calls. redis_recent W now x#}"
  let ?old = "filter (redis_recent W now) calls"
  note pr = deque_keeps_recent[OF assms(2) untied]
  have sc: "scores (zset (pruned now r) key) = ?P"
    using pruned_scores[OF assms(1,4)] assms(3,4) by (simp add: agree_def)
  have card: "card (dom (zset (pruned now r) key)) = length ?old"
    using arg_cong[OF sc, of size] by (simp add: size_scores flip: mset_filter)
  show "wf now (r', n')"
    using window.wf_step[OF assms(1,4,5), of m] a by simp
  show "deque_wf now calls'" using deque_wf_step[OF assms(2,4,5), of "Fin W" m] d by simp
  consider (full) "m \<le> int (length ?old)" | (room) "int (length ?old) < m" by linarith
  then have "b' = b \<and> agree now r' calls'"
  proof cases
    case full
    then have red: "b = False" "r' = pruned now r" "b' = False" "calls' = ?old"
      using a d assms(6) card by (auto simp: step_cases window_step_def Let_def pr[unfolded fsub_Fin])
    have "agree now r' calls'"
      using sc by (simp add: agree_def red filter_later flip: mset_filter)
    then show ?thesis using red by simp
  next
    case room
    let ?new = "expire srv key ttl (zadd srv key now (fixed6 now @ '':'' @ suffixes n) (pruned now r))"
    have red: "b = True" "r' = ?new" "b' = True" "calls' = ?old @ [now]"
      using a d assms(6) card room by (auto simp: step_cases window_step_def Let_def pr[unfolded fsub_Fin])
    have "scores (zset ?new key) = add_mset now ?P"
      using live_added[OF assms(1,4)] sc by (simp add: live_def)
    then have "agree now r' calls'"
      by (simp add: agree_def red filter_later flip: mset_filter)
    then show ?thesis using red by simp
  qed
  then show "b' = b" "agree now r' calls'" by simp_all
qed

text \<open>Request by request, through the methods.\<close>

lemma runs_agree:
  fixes w :: "('r, 'x) served_world_scheme" and v :: "'v world_scheme"
  assumes "secrets w = suffixes" "ro_key_prefix self @ name = key" "ro_client self = served srv" "\<forall>m \<in> set ms. 0 < m"
    and "mono_clock (wall w)" "untied W (wall w)" "same_readings w v"
    and "wf t (server_state w, secret_ix w)" "deque_wf t (held me name v)" "set (held me name v) \<subseteq> range (wall w)"
    and "agree t (server_state w) (held me name v)" "t \<le> wall w (wall_ix w)"
  shows "limiter_run (redis_check_and_record self) name (Fin W) ms w = limiter_run (check_and_record me) name (Fin W) ms v"
  using assms
proof (induction ms arbitrary: w v t)
  case (Cons m ms)
  let ?now = "wall w (wall_ix w)"
  obtain b r n where a: "redis_window_step srv suffixes key W ?now m (server_state w, secret_ix w) = (b, (r, n))"
    by (metis prod.exhaust)
  obtain b' calls where d: "window_step (Fin W) ?now m (held me name v) = (b', calls)" by fastforce
  have m: "0 < m" using Cons.prems(4) by simp
  have dbl: "is_double ?now" using Cons.prems(5) by (simp add: mono_clock_def)
  have un: "\<forall>x \<in> set (held me name v). fsub (Fin ?now) (Fin W) \<noteq> Fin x"
    using Cons.prems(6,10) by (auto simp: untied_def)
  note st = step_agrees[OF Cons.prems(8,9,11,12) dbl m un a d]
  have now: "mono v (mono_ix v) = ?now" using Cons.prems(7)[unfolded same_readings_def, rule_format, of 0] by simp
  obtain v' where v': "check_and_record me name m (Fin W) v = (Inr b', v')" "held me name v' = calls"
    "mono v' = mono v" "mono_ix v' = Suc (mono_ix v)"
    by (rule memory_method[of W v m me name]) (use d now in auto)
  let ?w = "w\<lparr>wall_ix := Suc (wall_ix w), secret_ix := n, server_state := r\<rparr>"
  have w': "redis_check_and_record self name m (Fin W) w = (Inr b, ?w)"
    using redis_check_refines[OF Cons.prems(3) m, of name W w] a Cons.prems(1,2) by simp
  have "limiter_run (redis_check_and_record self) name (Fin W) ms ?w = limiter_run (check_and_record me) name (Fin W) ms v'"
  proof (rule Cons.IH)
    show "same_readings ?w v'"
      unfolding same_readings_def
    proof
      fix i
      show "mono v' (mono_ix v' + i) = wall ?w (wall_ix ?w + i)"
        using Cons.prems(7)[unfolded same_readings_def, rule_format, of "Suc i"] v'(3,4) by simp
    qed
    show "set (held me name v') \<subseteq> range (wall ?w)"
      using window_step_members[OF d] Cons.prems(10) by (auto simp: v'(2))
    show "?now \<le> wall ?w (wall_ix ?w)" using Cons.prems(5) by (simp add: mono_clock_def)
    show "wf ?now (server_state ?w, secret_ix ?w)" using st(2) by simp
    show "deque_wf ?now (held me name v')" using st(3) v'(2) by simp
    show "agree ?now (server_state ?w) (held me name v')" using st(4) v'(2) by simp
    show "secrets ?w = suffixes" "mono_clock (wall ?w)" "untied W (wall ?w)" "\<forall>m \<in> set ms. 0 < m"
      using Cons.prems(1,4,5,6) by simp_all
  qed (rule Cons.prems(2) Cons.prems(3))+
  then show ?case using w' v'(1) st(1) by simp
qed simp

end

section \<open>Properties\<close>

text \<open>C25: The Redis limiter is a drop-in replacement: called one after the other with positive limits on
  the same readings of a clock that does not go back, starting from a key without calls, the
  \<open>check_and_record\<close> of the two classes give the same answers, provided that no two readings lie
  exactly the window apart. The server behaves as documented, the clocks of client and server
  agree, and the random suffixes differ. (At the excluded instant they differ: the deque still
  counts the old call, the script has removed it.)\<close>

theorem redis_limiter_is_a_drop_in:
  fixes w :: "('r, 'x) served_world_scheme" and v :: "'v world_scheme"
  assumes "redis_limiter srv zset deadline clock (secrets w) W" "ro_client self = served srv" "\<forall>m \<in> set ms. 0 < m"
    and "mono_clock (wall w)" "untied W (wall w)" "same_readings w v"
    and "clock (server_state w) \<le> wall w (wall_ix w)" "zset (server_state w) (ro_key_prefix self @ key) = Map.empty"
    and "limiters v me key = None"
  shows "limiter_run (redis_check_and_record self) key (Fin W) ms w = limiter_run (check_and_record me) key (Fin W) ms v"
  by (rule redis_limiter.runs_agree[OF assms(1) refl refl assms(2-6), where t = "wall w (wall_ix w)"])
    (use assms(1,7-9) in \<open>simp_all add: redis_limiter.wf_def redis_limiter.agree_def held_def deque_wf_def scores_def\<close>)

theorem redis_limiter_is_a_drop_in_witness:
  "limiter_run (redis_check_and_record \<lparr>ro_client = served mem_server, ro_key_prefix = ''rl:'', ro_fail_closed = True\<rparr>)
     ''bot::__global__'' (Fin 3600) [1, 1] served_sample = [Inr True, Inr False]"
proof -
  let ?self = "\<lparr>ro_client = served mem_server, ro_key_prefix = ''rl:'', ro_fail_closed = True\<rparr>"
  let ?v = "sample_world\<lparr>mono := (\<lambda>_. 1000)\<rparr>"
  have f: "secrets served_sample = str_of_nat" "wall served_sample = (\<lambda>_. 1000)" "server_state served_sample = mem_empty"
    by (simp_all add: served_sample_def)
  have d: "round_double (- 2600) = Fin (- 2600)" using is_double_int[of "- 2600"] by (simp add: is_double_def)
  have c: "mono_clock (wall served_sample)" unfolding f using is_double_int[of 1000] by (simp add: mono_clock_def)
  have u: "untied 3600 (wall served_sample)" unfolding f untied_def by (simp add: d)
  have s: "same_readings served_sample ?v" by (simp add: same_readings_def f)
  have "limiter_run (redis_check_and_record ?self) ''bot::__global__'' (Fin 3600) [1, 1] served_sample =
      limiter_run (check_and_record 0) ''bot::__global__'' (Fin 3600) [1, 1] ?v"
    by (rule redis_limiter_is_a_drop_in[OF mem_limiter.redis_limiter_axioms[folded f(1)] _ _ c u s])
      (simp_all add: f mem_empty_def sample_world_def fun_eq_iff)
  also have "\<dots> = [Inr True, Inr False]"
    by (simp add: check_and_record_def bindE_def time_monotonic_def sample_world_def window_step_def d)
  finally show ?thesis .
qed

text \<open>At the boundary instant: the second call comes exactly an hour after the first.\<close>

lemma boundary_instant_differs:
  "snd (window_step (Fin 3600) 3700 1 [100]) = [100] \<and> \<not> fst (window_step (Fin 3600) 3700 1 [100]) \<and>
   \<not> redis_recent 3600 3700 100"
proof -
  have "round_double 100 = Fin 100" by (rule round_double_numeral) simp
  then show ?thesis by (simp add: window_step_def redis_recent_def)
qed

end
