(* ===== verification/Replicas.thy ===== *)
theory Replicas
  imports Boundary_Rate Redis_Safety
begin

text \<open>
  Boundaries of one agent in several processes that share a Redis server. A call of \<open>check\<close> is
  not one step of the system: its limiter reads the clock of its process, then sends the script to
  the server, which runs it at a later moment, and other processes' scripts run in between. Only
  the script is atomic, as Redis documents of \<open>EVAL\<close>. Replies may get lost and the server may
  be out of reach.
\<close>

section \<open>A call and its requests\<close>

text \<open>The client seen from the process: it sends requests and gets the replies there are.\<close>

record script_call =
  sc_key :: string
  sc_now :: rat
  sc_cutoff :: pyfloat
  sc_max :: int
  sc_member :: string
  sc_ttl :: int

record asking_world = world +
  asked :: "script_call list"
  replies :: "(exn + int) list"

definition no_reply :: exn where
  "no_reply = Foreign (PyExc ''TimeoutError'' ''Timeout reading from socket'') True"

definition remote :: "'x asking_world_ext redis_client" where
  "remote = \<lparr>rc_window_script = (\<lambda>key now cutoff m member ttl w.
       (if length (asked w) < length (replies w) then replies w ! length (asked w) else Inl no_reply,
        w\<lparr>asked := asked w @ [\<lparr>sc_key = key, sc_now = now, sc_cutoff = cutoff, sc_max = m, sc_member = member, sc_ttl = ttl\<rparr>]\<rparr>)),
     rc_count_script = (\<lambda>_ _. throwE no_reply), rc_delete = (\<lambda>_. throwE no_reply), rc_scan = (\<lambda>_ _. throwE no_reply),
     rc_set_nx = (\<lambda>_ _. throwE no_reply), rc_exists = (\<lambda>_. throwE no_reply)\<rparr>"

text \<open>
  The calls of all processes are numbered; call \<open>i\<close> is a boundary, a request and the world of its
  process. With the replies so far, \<open>check\<close> shows what it has asked; its last request is open when
  there is no reply to it yet.
\<close>

type_synonym 'x replica_call = "'x asking_world_ext boundary \<times> call_request \<times> 'x asking_world_scheme"

definition run_with :: "'x replica_call \<Rightarrow> (exn + int) list \<Rightarrow> (exn + unit) \<times> 'x asking_world_scheme" where
  "run_with call rs = (case call of (b, rq, w) \<Rightarrow> check b rq (w\<lparr>asked := [], replies := rs\<rparr>))"

definition requests :: "'x replica_call \<Rightarrow> (exn + int) list \<Rightarrow> script_call list" where
  "requests call rs = asked (snd (run_with call rs))"

definition let_pass :: "'x replica_call \<Rightarrow> (exn + int) list \<Rightarrow> bool" where
  "let_pass call rs \<longleftrightarrow> length (requests call rs) \<le> length rs \<and> fst (run_with call rs) = Inr ()"

section \<open>The system\<close>

record served_script =
  ss_call :: nat
  ss_script :: script_call
  ss_moment :: rat
  ss_answer :: int

record 'r replicas =
  re_server :: 'r
  re_clock :: rat
  re_replies :: "nat \<Rightarrow> (exn + int) list"
  re_served :: "served_script list"

definition open_request :: "(nat \<Rightarrow> 'x replica_call) \<Rightarrow> 'r replicas \<Rightarrow> nat \<Rightarrow> script_call \<Rightarrow> bool" where
  "open_request calls s i c \<longleftrightarrow> (let rs = re_replies s i; cs = requests (calls i) rs
     in length rs < length cs \<and> c = cs ! length rs)"

definition run_script :: "'r redis_server \<Rightarrow> script_call \<Rightarrow> 'r replicas \<Rightarrow> int \<times> 'r" where
  "run_script srv c s = sliding_window_lua srv (sc_key c) (sc_now c) (sc_cutoff c) (sc_max c) (sc_member c) (sc_ttl c)
     (advance srv (re_clock s) (re_server s))"

definition replied :: "nat \<Rightarrow> exn + int \<Rightarrow> 'r replicas \<Rightarrow> 'r replicas" where
  "replied i r s = s\<lparr>re_replies := (re_replies s)(i := re_replies s i @ [r])\<rparr>"

definition served_one :: "nat \<Rightarrow> script_call \<Rightarrow> int \<Rightarrow> 'r \<Rightarrow> 'r replicas \<Rightarrow> 'r replicas" where
  "served_one i c a r s = s\<lparr>re_server := r, re_served := re_served s @
     [\<lparr>ss_call = i, ss_script = c, ss_moment = re_clock s, ss_answer = a\<rparr>]\<rparr>"

text \<open>The clocks of the processes agree with the server's: a reading is not later than the moment at which
  the script sent with it runs.\<close>

inductive replica_step :: "'r redis_server \<Rightarrow> (nat \<Rightarrow> 'x replica_call) \<Rightarrow> 'r replicas \<Rightarrow> 'r replicas \<Rightarrow> bool" for srv calls where
  time_passes: "re_clock s \<le> t \<Longrightarrow> replica_step srv calls s (s\<lparr>re_clock := t\<rparr>)"
| script_runs: "open_request calls s i c \<Longrightarrow> sc_now c \<le> re_clock s \<Longrightarrow> run_script srv c s = (a, r) \<Longrightarrow>
     replica_step srv calls s (replied i (Inr a) (served_one i c a r s))"
| reply_lost: "open_request calls s i c \<Longrightarrow> sc_now c \<le> re_clock s \<Longrightarrow> run_script srv c s = (a, r) \<Longrightarrow>
     replica_step srv calls s (replied i (Inl e) (served_one i c a r s))"
| out_of_reach: "open_request calls s i c \<Longrightarrow> replica_step srv calls s (replied i (Inl e) s)"

definition replicas_start :: "'r \<Rightarrow> rat \<Rightarrow> 'r replicas" where
  "replicas_start r t = \<lparr>re_server = r, re_clock = t, re_replies = (\<lambda>_. []), re_served = []\<rparr>"

inductive replicas_reach :: "'r redis_server \<Rightarrow> (nat \<Rightarrow> 'x replica_call) \<Rightarrow> 'r replicas \<Rightarrow> 'r replicas \<Rightarrow> bool" for srv calls s0 where
  start: "replicas_reach srv calls s0 s0"
| step: "replicas_reach srv calls s0 s \<Longrightarrow> replica_step srv calls s s' \<Longrightarrow> replicas_reach srv calls s0 s'"

section \<open>What a call asks\<close>

text \<open>Hooks and sinks of a replica may do anything but use the limiter's client.\<close>

definition no_requests :: "'x asking_world_scheme \<Rightarrow> 'x asking_world_scheme \<Rightarrow> bool" where
  "no_requests w w' \<longleftrightarrow> asked w' = asked w \<and> replies w' = replies w"

definition replica :: "string \<Rightarrow> string \<Rightarrow> int \<Rightarrow> 'x replica_call \<Rightarrow> bool" where
  "replica agent pre m call \<longleftrightarrow> (case call of (b, rq, w) \<Rightarrow> around_limiter no_requests b \<and> b_agent_name b = agent \<and>
     b_max_actions_per_hour b = Some m \<and> rq_tool_name rq \<noteq> ''__global__'' \<and>
     b_rate_limiter b = redis_check_and_record \<lparr>ro_client = remote, ro_key_prefix = pre, ro_fail_closed = True\<rparr>)"

text \<open>The request that the agent's limit makes.\<close>

definition limit_request :: "string \<Rightarrow> string \<Rightarrow> int \<Rightarrow> 'x replica_call \<Rightarrow> script_call" where
  "limit_request agent pre m call = (case call of (b, rq, w) \<Rightarrow> let now = wall w (Suc (wall_ix w)) in
     \<lparr>sc_key = pre @ global_key agent, sc_now = now, sc_cutoff = fsub (Fin now) (Fin 3600), sc_max = m,
      sc_member = fixed6 now @ '':'' @ secrets w (secret_ix w), sc_ttl = 3601\<rparr>)"

lemma guarded_remote:
  assumes "guarded_call what False (bindE (rc_window_script remote k now c m mem ttl) (\<lambda>a. returnE (a \<noteq> 0))) w = (r, w')"
  shows "asked w' = asked w @ [\<lparr>sc_key = k, sc_now = now, sc_cutoff = c, sc_max = m, sc_member = mem, sc_ttl = ttl\<rparr>]"
    and "replies w' = replies w"
    and "r = Inr True \<Longrightarrow> length (asked w) < length (replies w) \<and> (\<exists>a. replies w ! length (asked w) = Inr a \<and> a \<noteq> 0)"
  using assms
  by (auto simp: guarded_call_def remote_def bindE_def log_line_def split: sum.splits if_splits)

lemma remote_method:
  assumes "redis_check_and_record \<lparr>ro_client = remote, ro_key_prefix = pre, ro_fail_closed = True\<rparr> key m (Fin 3600) w = (r, w')"
    and "0 < m"
  shows "asked w' = asked w @ [\<lparr>sc_key = pre @ key, sc_now = wall w (wall_ix w),
      sc_cutoff = fsub (Fin (wall w (wall_ix w))) (Fin 3600), sc_max = m,
      sc_member = fixed6 (wall w (wall_ix w)) @ '':'' @ secrets w (secret_ix w), sc_ttl = 3601\<rparr>]"
    and "replies w' = replies w"
    and "r = Inr True \<Longrightarrow> length (asked w) < length (replies w) \<and> (\<exists>a. replies w ! length (asked w) = Inr a \<and> a \<noteq> 0)"
proof -
  let ?v = "w\<lparr>wall_ix := Suc (wall_ix w), secret_ix := Suc (secret_ix w)\<rparr>"
  have i: "int_of_float (Fin 3600) = Inr 3600" by (simp add: truncate_rat_def)
  have g: "\<exists>what. guarded_call what False (bindE (rc_window_script remote (pre @ key) (wall w (wall_ix w))
      (fsub (Fin (wall w (wall_ix w))) (Fin 3600)) m (fixed6 (wall w (wall_ix w)) @ '':'' @ secrets w (secret_ix w)) 3601)
      (\<lambda>a. returnE (a \<noteq> 0))) ?v = (r, w')"
    using assms
    by (simp add: redis_check_and_record_def bind_time bind_secret bind_lift i redis_key_def del: int_of_float.simps) blast
  then obtain what where g: "guarded_call what False (bindE (rc_window_script remote (pre @ key) (wall w (wall_ix w))
      (fsub (Fin (wall w (wall_ix w))) (Fin 3600)) m (fixed6 (wall w (wall_ix w)) @ '':'' @ secrets w (secret_ix w)) 3601)
      (\<lambda>a. returnE (a \<noteq> 0))) ?v = (r, w')" ..
  from guarded_remote[OF g] show "asked w' = asked w @ [\<lparr>sc_key = pre @ key, sc_now = wall w (wall_ix w),
      sc_cutoff = fsub (Fin (wall w (wall_ix w))) (Fin 3600), sc_max = m,
      sc_member = fixed6 (wall w (wall_ix w)) @ '':'' @ secrets w (secret_ix w), sc_ttl = 3601\<rparr>]"
    "replies w' = replies w"
    "r = Inr True \<Longrightarrow> length (asked w) < length (replies w) \<and> (\<exists>a. replies w ! length (asked w) = Inr a \<and> a \<noteq> 0)"
    by simp_all
qed

text \<open>A tool's own limit asks for another key.\<close>

lemma tool_request:
  assumes "b_rate_limiter b = redis_check_and_record \<lparr>ro_client = remote, ro_key_prefix = pre, ro_fail_closed = True\<rparr>"
    and "check_tool_rate b ctx w = (r, w')"
  shows "\<exists>more. asked w' = asked w @ more \<and> (\<forall>c \<in> set more. sc_key c = pre @ tool_key (b_agent_name b) (ctx_tool_name ctx))"
proof (cases "Option.bind (b_permissions b (ctx_tool_name ctx)) tp_max_calls_per_hour")
  case None
  then show ?thesis using assms(2) by (simp add: check_tool_rate_def)
next
  case (Some m)
  obtain r1 w1 where c: "b_rate_limiter b (tool_key (b_agent_name b) (ctx_tool_name ctx)) m (Fin 3600) w = (r1, w1)" by fastforce
  have w: "w' = w1" using assms(2) c Some by (auto simp: check_tool_rate_def bindE_def split: sum.splits if_splits)
  show ?thesis
  proof (cases "0 < m")
    case True
    then show ?thesis using remote_method(1)[OF c[unfolded assms(1)]] w by auto
  next
    case False
    then show ?thesis using c w by (simp add: assms(1) redis_check_and_record_def)
  qed
qed

lemma call_requests:
  assumes "replica agent pre m call" "0 < m"
  shows "requests call rs = [] \<or> (\<exists>more. requests call rs = limit_request agent pre m call # more \<and>
      (\<forall>c \<in> set more. sc_key c \<noteq> pre @ global_key agent))"
    and "fst (run_with call rs) = Inr () \<Longrightarrow> requests call rs \<noteq> [] \<and> rs \<noteq> [] \<and> (\<exists>a. hd rs = Inr a \<and> a \<noteq> 0)"
proof -
  obtain b rq w where call: "call = (b, rq, w)" by (cases call) auto
  let ?w = "w\<lparr>asked := [], replies := rs\<rparr>" and ?self = "\<lparr>ro_client = remote, ro_key_prefix = pre, ro_fail_closed = True\<rparr>"
  have b: "around_limiter no_requests b" "b_agent_name b = agent" "b_max_actions_per_hour b = Some m"
    "rq_tool_name rq \<noteq> ''__global__''" "b_rate_limiter b = redis_check_and_record ?self"
    using assms(1) by (simp_all add: replica_def call)
  have rw: "requests call rs = asked (snd (check b rq ?w))" "run_with call rs = check b rq ?w"
    by (simp_all add: requests_def run_with_def call)
  have "(requests call rs = [] \<or> (\<exists>more. requests call rs = limit_request agent pre m call # more \<and>
      (\<forall>c \<in> set more. sc_key c \<noteq> pre @ global_key agent))) \<and>
    (fst (run_with call rs) = Inr () \<longrightarrow> requests call rs \<noteq> [] \<and> rs \<noteq> [] \<and> (\<exists>a. hd rs = Inr a \<and> a \<noteq> 0))"
  proof (cases rule: check_at_limiter[OF b(1), of rq ?w])
    case 1
    then show ?thesis by (simp add: rw no_requests_def)
  next
    case (2 r w1)
    obtain r0 w0 where g: "redis_check_and_record ?self (global_key agent) m (Fin 3600) (tick ?w) = (r0, w0)" by fastforce
    have l: "limit_request agent pre m call = \<lparr>sc_key = pre @ global_key agent, sc_now = wall (tick ?w) (wall_ix (tick ?w)),
      sc_cutoff = fsub (Fin (wall (tick ?w) (wall_ix (tick ?w)))) (Fin 3600), sc_max = m,
      sc_member = fixed6 (wall (tick ?w) (wall_ix (tick ?w))) @ '':'' @ secrets (tick ?w) (secret_ix (tick ?w)), sc_ttl = 3601\<rparr>"
      by (simp add: limit_request_def call tick_def Let_def)
    have a0: "asked w0 = [limit_request agent pre m call]"
      "r0 = Inr True \<Longrightarrow> rs \<noteq> [] \<and> (\<exists>a. hd rs = Inr a \<and> a \<noteq> 0)"
      using remote_method[OF g assms(2)] unfolding l by (auto simp: tick_def hd_conv_nth)
    have glob: "check_global_rate b (context_of b rq) (tick ?w) = (if r0 = Inr True then (Inr (), w0) else (fst (check_global_rate b (context_of b rq) (tick ?w)), w0))"
      "r0 \<noteq> Inr True \<Longrightarrow> fst (check_global_rate b (context_of b rq) (tick ?w)) \<noteq> Inr ()"
      using g by (cases r0; auto simp: check_global_rate_def b(2,3,5) bindE_def)+
    have "\<exists>more. asked w1 = asked w0 @ more \<and> (\<forall>c \<in> set more. sc_key c \<noteq> pre @ global_key agent)"
      "r = Inr () \<Longrightarrow> r0 = Inr True"
    proof -
      show "\<exists>more. asked w1 = asked w0 @ more \<and> (\<forall>c \<in> set more. sc_key c \<noteq> pre @ global_key agent)"
      proof (cases "r0 = Inr True")
        case True
        then have "check_tool_rate b (context_of b rq) w0 = (r, w1)"
          using 2(1) glob(1) by (simp add: check_rate_limit_def thenE_Inr)
        from tool_request[OF b(5) this] show ?thesis using b(2,4) by (auto simp: context_of_def)
      next
        case False
        obtain e where "fst (check_global_rate b (context_of b rq) (tick ?w)) = Inl e"
          using glob(2)[OF False] by (cases "fst (check_global_rate b (context_of b rq) (tick ?w))") auto
        then have "check_global_rate b (context_of b rq) (tick ?w) = (Inl e, w0)" using glob(1) False by simp
        then have "w1 = w0" using 2(1) by (simp add: check_rate_limit_def thenE_Inl)
        then show ?thesis by simp
      qed
      show "r0 = Inr True" if "r = Inr ()"
        using 2(1) glob(2) that by (cases "r0 = Inr True") (auto simp: check_rate_limit_def thenE_Inr_iff)
    qed
    then show ?thesis using 2(2,3) a0 by (auto simp: rw no_requests_def)
  qed
  then show "requests call rs = [] \<or> (\<exists>more. requests call rs = limit_request agent pre m call # more \<and>
      (\<forall>c \<in> set more. sc_key c \<noteq> pre @ global_key agent))"
    and "fst (run_with call rs) = Inr () \<Longrightarrow> requests call rs \<noteq> [] \<and> rs \<noteq> [] \<and> (\<exists>a. hd rs = Inr a \<and> a \<noteq> 0)"
    by blast+
qed

section \<open>The shared window\<close>

text \<open>What Redis documents besides: a command on one key leaves the others alone.\<close>

locale shared_redis = redis_behaviour srv zset deadline clock
  for srv :: "'r redis_server" and zset and deadline and clock +
  assumes zrem_other: "k' \<noteq> k \<Longrightarrow> zset (zremrangebyscore srv k c r) k' = zset r k'"
      "k' \<noteq> k \<Longrightarrow> deadline (zremrangebyscore srv k c r) k' = deadline r k'"
    and zadd_other: "k' \<noteq> k \<Longrightarrow> zset (zadd srv k x m r) k' = zset r k'"
      "k' \<noteq> k \<Longrightarrow> deadline (zadd srv k x m r) k' = deadline r k'"
    and expire_other: "k' \<noteq> k \<Longrightarrow> zset (expire srv k ttl r) k' = zset r k'"
      "k' \<noteq> k \<Longrightarrow> deadline (expire srv k ttl r) k' = deadline r k'"

definition granted :: "string \<Rightarrow> served_script list \<Rightarrow> served_script list" where
  "granted K hs = filter (\<lambda>h. sc_key (ss_script h) = K \<and> ss_answer h \<noteq> 0) hs"

text \<open>A script for the limit \<open>m\<close> of the key.\<close>

definition hourly :: "int \<Rightarrow> script_call \<Rightarrow> bool" where
  "hourly m c \<longleftrightarrow> sc_cutoff c = fsub (Fin (sc_now c)) (Fin 3600) \<and> sc_max c = m \<and> sc_ttl c = 3601"

text \<open>The admitted calls that lie in the hour after \<open>c\<close>: read their clock in it and were served in it.\<close>

definition in_hour :: "rat \<Rightarrow> served_script \<Rightarrow> bool" where
  "in_hour c h \<longleftrightarrow> c < sc_now (ss_script h) \<and> ss_moment h \<le> c + 3600"

context shared_redis begin

text \<open>The sorted set of a key at a time against the calls admitted so far: while the hour after \<open>c\<close>
  lasts, every admitted call with a later reading is in it, and its key does not expire.\<close>

definition remembers :: "string \<Rightarrow> rat \<Rightarrow> 'r \<Rightarrow> served_script list \<Rightarrow> bool" where
  "remembers K t r hs \<longleftrightarrow> clock r \<le> t \<and>
    (\<forall>h \<in> set hs. sc_now (ss_script h) \<le> ss_moment h \<and> ss_moment h \<le> t) \<and>
    (\<forall>h \<in> set hs. zset r K (sc_member (ss_script h)) = Some (sc_now (ss_script h)) \<longrightarrow>
       (\<exists>d. deadline r K = Some d \<and> ss_moment h + 3600 < d)) \<and>
    (\<forall>c. is_double c \<and> t \<le> c + 3600 \<longrightarrow> (\<forall>h \<in> set hs. c < sc_now (ss_script h) \<longrightarrow>
       zset r K (sc_member (ss_script h)) = Some (sc_now (ss_script h))))"

lemma remembersD:
  assumes "remembers K t r hs" "h \<in> set hs"
  shows "clock r \<le> t" "sc_now (ss_script h) \<le> ss_moment h" "ss_moment h \<le> t"
    and "zset r K (sc_member (ss_script h)) = Some (sc_now (ss_script h)) \<Longrightarrow>
      \<exists>d. deadline r K = Some d \<and> ss_moment h + 3600 < d"
    and "is_double c \<Longrightarrow> t \<le> c + 3600 \<Longrightarrow> c < sc_now (ss_script h) \<Longrightarrow>
      zset r K (sc_member (ss_script h)) = Some (sc_now (ss_script h))"
  using assms unfolding remembers_def by blast+

lemma remembers_later: "remembers K t r hs \<Longrightarrow> t \<le> u \<Longrightarrow> remembers K u r hs"
  unfolding remembers_def by (meson order_trans)

lemma remembers_advance:
  assumes "remembers K t r hs"
  shows "remembers K t (advance srv t r) hs" "clock (advance srv t r) = t"
proof -
  have c: "max (clock r) t = t" using assms by (simp add: remembers_def)
  then show "clock (advance srv t r) = t" by (simp add: advance_clock)
  have alive: "zset (advance srv t r) K = zset r K"
    if h: "h \<in> set hs" and c': "is_double c" "t \<le> c + 3600" "c < sc_now (ss_script h)" for h c
  proof -
    note p = remembersD[OF assms h]
    obtain d where "deadline r K = Some d" "ss_moment h + 3600 < d" using p(4)[OF p(5)[OF c']] by blast
    then have "\<not> opt_holds (\<lambda>d. d \<le> max (clock r) t) (deadline r K)" using p(2) c' c by simp
    then show ?thesis by (simp add: advance_zset)
  qed
  show "remembers K t (advance srv t r) hs"
    unfolding remembers_def
  proof (intro conjI ballI allI impI)
    show "clock (advance srv t r) \<le> t" using c by (simp add: advance_clock)
    fix h assume h: "h \<in> set hs"
    note p = remembersD[OF assms h]
    show "sc_now (ss_script h) \<le> ss_moment h" "ss_moment h \<le> t" by (rule p)+
    show "\<exists>d. deadline (advance srv t r) K = Some d \<and> ss_moment h + 3600 < d"
      if z: "zset (advance srv t r) K (sc_member (ss_script h)) = Some (sc_now (ss_script h))"
    proof -
      have "zset (advance srv t r) K \<noteq> Map.empty" using z by (metis option.distinct(1))
      moreover from this have "zset (advance srv t r) K = zset r K" by (simp add: advance_zset split: if_splits)
      ultimately show ?thesis using p(4) z advance_deadline by simp
    qed
    show "zset (advance srv t r) K (sc_member (ss_script h)) = Some (sc_now (ss_script h))"
      if "is_double c \<and> t \<le> c + 3600" "c < sc_now (ss_script h)" for c
      using alive[OF h, of c] p(5)[of c] that by simp
  qed
qed

text \<open>Scripts on other keys.\<close>

lemma lua_other:
  assumes "K \<noteq> k" "sliding_window_lua srv k now c m mem ttl r = (a, r')"
  shows "zset r' K = zset r K" "deadline r' K = deadline r K" "clock r' = clock r"
  using assms
  by (auto simp: sliding_window_lua_def Let_def zrem_other zadd_other expire_other zrem_clock zadd expire_keeps split: if_splits)

lemma remembers_same:
  "remembers K t r hs \<Longrightarrow> zset r' K = zset r K \<Longrightarrow> deadline r' K = deadline r K \<Longrightarrow> clock r' = clock r \<Longrightarrow> remembers K t r' hs"
  by (simp add: remembers_def)

text \<open>The removal of the old scores spares the calls of the running hour.\<close>

lemma remembers_zrem:
  assumes "remembers K t r hs" "now \<le> t"
  shows "remembers K t (zremrangebyscore srv K (fsub (Fin now) (Fin 3600)) r) hs"
  unfolding remembers_def
proof (intro conjI ballI allI impI)
  let ?c = "fsub (Fin now) (Fin 3600)" and ?r = "zremrangebyscore srv K (fsub (Fin now) (Fin 3600)) r"
  show "clock ?r \<le> t" using assms by (simp add: remembers_def zrem_clock)
  fix h assume h: "h \<in> set hs"
  note p = remembersD[OF assms(1) h]
  show "sc_now (ss_script h) \<le> ss_moment h" "ss_moment h \<le> t" by (rule p)+
  show "\<exists>d. deadline ?r K = Some d \<and> ss_moment h + 3600 < d"
    if z: "zset ?r K (sc_member (ss_script h)) = Some (sc_now (ss_script h))"
  proof -
    have "zset ?r K \<noteq> Map.empty" using z by (metis option.distinct(1))
    then have "deadline ?r K = deadline r K" by (rule zrem_deadline)
    moreover have "zset r K (sc_member (ss_script h)) = Some (sc_now (ss_script h))"
      using z by (auto simp: zrem split: option.splits if_splits)
    ultimately show ?thesis using p(4) by simp
  qed
  show "zset ?r K (sc_member (ss_script h)) = Some (sc_now (ss_script h))"
    if c: "is_double c \<and> t \<le> c + 3600" "c < sc_now (ss_script h)" for c
  proof -
    have "now - 3600 \<le> c" using assms(2) c(1) by simp
    from round_double_mono[OF this] have "\<not> flt (Fin c) ?c" using c(1) by (simp add: is_double_def)
    then have "flt ?c (Fin (sc_now (ss_script h)))" using c(2) by (cases ?c) auto
    then have "\<not> fle (Fin (sc_now (ss_script h))) ?c"
      using fle_iff_not_flt[of "Fin (sc_now (ss_script h))" ?c] by simp
    then show ?thesis using p(5)[of c] c by (auto simp: zrem split: option.splits)
  qed
qed

lemma remembers_add:
  assumes "remembers K t r hs" "clock r = t" "h = \<lparr>ss_call = i, ss_script = c, ss_moment = t, ss_answer = 1\<rparr>"
    and "sc_now c \<le> t" "sc_ttl c = 3601" "sc_member c \<notin> sc_member ` ss_script ` set hs"
  shows "remembers K t (expire srv K (sc_ttl c) (zadd srv K (sc_now c) (sc_member c) r)) (hs @ [h])"
    (is "remembers K t ?r _")
  unfolding remembers_def
proof (intro conjI ballI allI impI)
  have z: "zset ?r K = (zset r K)(sc_member c \<mapsto> sc_now c)" by (simp add: expire_keeps zadd)
  have d: "deadline ?r K = Some (t + 3601)"
    using expire_sets[of "zadd srv K (sc_now c) (sc_member c) r" K 3601] assms(2,5) by (simp add: zadd)
  show "clock ?r \<le> t" using assms(2) by (simp add: expire_keeps zadd)
  fix g assume g: "g \<in> set (hs @ [h])"
  show m: "sc_now (ss_script g) \<le> ss_moment g" "ss_moment g \<le> t"
    using g remembersD[OF assms(1)] assms(3,4) by auto
  show "\<exists>d. deadline ?r K = Some d \<and> ss_moment g + 3600 < d" using d m(2) by simp
  have new: "sc_member (ss_script g) \<noteq> sc_member c" if "g \<in> set hs"
    using assms(6) that by (metis imageI)
  show "zset ?r K (sc_member (ss_script g)) = Some (sc_now (ss_script g))"
    if "is_double x \<and> t \<le> x + 3600" "x < sc_now (ss_script g)" for x
    using g that remembersD(5)[OF assms(1), of g x] assms(3) new by (auto simp: z)
qed

lemma count_in_hour:
  assumes "remembers K t r hs" "is_double c" "t \<le> c + 3600" "distinct (map (sc_member \<circ> ss_script) hs)"
  shows "length (filter (in_hour c) hs) \<le> card (dom (zset r K))"
proof -
  let ?hs = "filter (in_hour c) hs" and ?f = "sc_member \<circ> ss_script"
  have "distinct (map ?f ?hs)" using assms(4) by (rule distinct_map_filter)
  then have "length ?hs = card (set (map ?f ?hs))" using distinct_card by fastforce
  also have "set (map ?f ?hs) \<subseteq> dom (zset r K)"
    using remembersD(5)[OF assms(1) _ assms(2,3)] by (auto simp: in_hour_def)
  then have "card (set (map ?f ?hs)) \<le> card (dom (zset r K))" by (rule card_mono[OF finite_zset])
  finally show ?thesis .
qed

text \<open>One script of the limit, run by the server at its moment.\<close>

lemma limit_script:
  assumes "remembers K t r hs" "hourly m c" "sc_key c = K" "sc_now c \<le> t"
    and "sliding_window_lua srv K (sc_now c) (sc_cutoff c) (sc_max c) (sc_member c) (sc_ttl c) (advance srv t r) = (a, r')"
    and "\<forall>x. is_double x \<longrightarrow> int (length (filter (in_hour x) hs)) \<le> m"
    and "h = \<lparr>ss_call = i, ss_script = c, ss_moment = t, ss_answer = a\<rparr>"
    and "distinct (map (sc_member \<circ> ss_script) (hs @ (if a \<noteq> 0 then [h] else [])))"
  shows "remembers K t r' (hs @ (if a \<noteq> 0 then [h] else []))"
    and "\<forall>x. is_double x \<longrightarrow> int (length (filter (in_hour x) (hs @ (if a \<noteq> 0 then [h] else [])))) \<le> m"
proof -
  let ?r1 = "zremrangebyscore srv K (fsub (Fin (sc_now c)) (Fin 3600)) (advance srv t r)"
  have r1: "remembers K t ?r1 hs" "clock ?r1 = t"
    using remembers_zrem[OF remembers_advance(1)[OF assms(1)] assms(4)] remembers_advance(2)[OF assms(1)]
    by (simp_all add: zrem_clock)
  note c = assms(2)[unfolded hourly_def]
  have "remembers K t r' (hs @ (if a \<noteq> 0 then [h] else [])) \<and>
    (\<forall>x. is_double x \<longrightarrow> int (length (filter (in_hour x) (hs @ (if a \<noteq> 0 then [h] else [])))) \<le> m)"
  proof (cases "m \<le> int (card (dom (zset ?r1 K)))")
    case True
    then have "a = 0" "r' = ?r1" using assms(5) c by (simp_all add: sliding_window_lua_def Let_def zcard)
    then show ?thesis using r1(1) assms(6) by simp
  next
    case False
    then have a: "a = 1" "r' = expire srv K (sc_ttl c) (zadd srv K (sc_now c) (sc_member c) ?r1)"
      using assms(5) c by (auto simp: sliding_window_lua_def Let_def zcard)
    have h: "h = \<lparr>ss_call = i, ss_script = c, ss_moment = t, ss_answer = 1\<rparr>" using assms(7) a by simp
    have d: "distinct (map (sc_member \<circ> ss_script) hs)" "sc_member c \<notin> sc_member ` ss_script ` set hs"
      using assms(7,8) a(1) by (auto simp: image_comp)
    have ttl: "sc_ttl c = 3601" using c by simp
    have "remembers K t r' (hs @ [h])"
      unfolding a(2) by (rule remembers_add[OF r1 h assms(4) ttl d(2)])
    moreover have "int (length (filter (in_hour x) (hs @ [h]))) \<le> m" if x: "is_double x" for x
    proof (cases "in_hour x h")
      case True
      then have "t \<le> x + 3600" by (simp add: in_hour_def h)
      from count_in_hour[OF r1(1) x this d(1)] False show ?thesis by simp
    next
      case False
      then show ?thesis using assms(6) x by simp
    qed
    ultimately show ?thesis using a(1) by simp
  qed
  then show "remembers K t r' (hs @ (if a \<noteq> 0 then [h] else []))"
    and "\<forall>x. is_double x \<longrightarrow> int (length (filter (in_hour x) (hs @ (if a \<noteq> 0 then [h] else [])))) \<le> m"
    by blast+
qed

text \<open>The invariant of the system.\<close>

definition limited :: "string \<Rightarrow> int \<Rightarrow> 'r replicas \<Rightarrow> bool" where
  "limited K m s \<longleftrightarrow> remembers K (re_clock s) (re_server s) (granted K (re_served s)) \<and>
     (\<forall>x. is_double x \<longrightarrow> int (length (filter (in_hour x) (granted K (re_served s)))) \<le> m)"

lemma limited_served:
  assumes "limited K m s" "sc_key c = K \<longrightarrow> hourly m c" "sc_now c \<le> re_clock s" "run_script srv c s = (a, r)"
    and "distinct (map (sc_member \<circ> ss_script) (granted K (re_served (served_one i c a r s))))"
  shows "limited K m (served_one i c a r s)"
proof (cases "sc_key c = K")
  case True
  let ?h = "\<lparr>ss_call = i, ss_script = c, ss_moment = re_clock s, ss_answer = a\<rparr>"
  have g: "granted K (re_served (served_one i c a r s)) = granted K (re_served s) @ (if a \<noteq> 0 then [?h] else [])"
    using True by (simp add: granted_def served_one_def)
  have l: "sliding_window_lua srv K (sc_now c) (sc_cutoff c) (sc_max c) (sc_member c) (sc_ttl c)
      (advance srv (re_clock s) (re_server s)) = (a, r)" using assms(4) True by (simp add: run_script_def)
  from limit_script[OF _ _ True assms(3) l _ refl, of "granted K (re_served s)" m i] assms(1,2,5) True
  show ?thesis unfolding limited_def g by (simp add: served_one_def)
next
  case False
  then have g: "granted K (re_served (served_one i c a r s)) = granted K (re_served s)"
    by (simp add: granted_def served_one_def)
  have "K \<noteq> sc_key c" using False by simp
  from remembers_same[OF remembers_advance(1) lua_other[OF this assms(4)[unfolded run_script_def]]] assms(1)
  show ?thesis unfolding limited_def g by (simp add: served_one_def)
qed

lemma limited_replied [simp]: "limited K m (replied i x s) = limited K m s"
  by (simp add: limited_def replied_def)

end

section \<open>The system\<close>

lemma open_request_limit:
  assumes "replica agent pre m (calls i)" "0 < m" "open_request calls s i c"
  shows "sc_key c = pre @ global_key agent \<Longrightarrow> c = limit_request agent pre m (calls i)"
    and "re_replies s i = [] \<Longrightarrow> c = limit_request agent pre m (calls i)"
proof -
  let ?cs = "requests (calls i) (re_replies s i)"
  have c: "c = ?cs ! length (re_replies s i)" "length (re_replies s i) < length ?cs"
    using assms(3) by (simp_all add: open_request_def Let_def)
  then obtain more where more: "?cs = limit_request agent pre m (calls i) # more"
    "\<forall>c \<in> set more. sc_key c \<noteq> pre @ global_key agent"
    using call_requests(1)[OF assms(1,2), of "re_replies s i"] by auto
  show "c = limit_request agent pre m (calls i)" if "re_replies s i = []" using c more that by simp
  show "c = limit_request agent pre m (calls i)" if "sc_key c = pre @ global_key agent"
  proof (cases "re_replies s i")
    case Nil
    then show ?thesis using c more by simp
  next
    case (Cons x xs)
    then have "c \<in> set more" using c more by simp
    then show ?thesis using more(2) that by blast
  qed
qed

lemma hourly_limit_request: "hourly m (limit_request agent pre m call)"
  by (simp add: hourly_def limit_request_def Let_def split: prod.splits)

lemma limit_request_key: "sc_key (limit_request agent pre m call) = pre @ global_key agent"
  by (simp add: limit_request_def Let_def split: prod.splits)

text \<open>The first reply of a call is the answer its limit request got.\<close>

definition answered :: "string \<Rightarrow> string \<Rightarrow> int \<Rightarrow> (nat \<Rightarrow> 'x replica_call) \<Rightarrow> 'r replicas \<Rightarrow> bool" where
  "answered agent pre m calls s \<longleftrightarrow> (\<forall>i a rs. re_replies s i = Inr a # rs \<longrightarrow>
     (\<exists>h \<in> set (re_served s). ss_call h = i \<and> ss_script h = limit_request agent pre m (calls i) \<and> ss_answer h = a))"

lemma answered_step:
  assumes "answered agent pre m calls s" "replica_step srv calls s s'" "\<And>i. replica agent pre m (calls i)" "0 < m"
  shows "answered agent pre m calls s'"
  using assms(2)
proof cases
  case (script_runs i c a r)
  note first = open_request_limit(2)[OF assms(3,4) script_runs(2)]
  show ?thesis
    unfolding answered_def
  proof (intro allI impI)
    fix j b rs
    assume j: "re_replies s' j = Inr b # rs"
    show "\<exists>h \<in> set (re_served s'). ss_call h = j \<and> ss_script h = limit_request agent pre m (calls j) \<and> ss_answer h = b"
    proof (cases "j = i \<and> re_replies s i = []")
      case True
      then have "b = a" using j script_runs(1) by (simp add: replied_def served_one_def)
      then show ?thesis using True first script_runs(1) by (simp add: replied_def served_one_def)
    next
      case False
      then obtain qs where "re_replies s j = Inr b # qs"
        using j script_runs(1) by (cases "re_replies s j") (auto simp: replied_def served_one_def split: if_splits)
      then show ?thesis using assms(1) script_runs(1) unfolding answered_def by (fastforce simp: replied_def served_one_def)
    qed
  qed
next
  case (reply_lost i c a r e)
  show ?thesis
    unfolding answered_def
  proof (intro allI impI)
    fix j b rs
    assume j: "re_replies s' j = Inr b # rs"
    then obtain qs where "re_replies s j = Inr b # qs"
      using reply_lost(1) by (cases "re_replies s j") (auto simp: replied_def served_one_def split: if_splits)
    then show "\<exists>h \<in> set (re_served s'). ss_call h = j \<and> ss_script h = limit_request agent pre m (calls j) \<and> ss_answer h = b"
      using assms(1) reply_lost(1) unfolding answered_def by (fastforce simp: replied_def served_one_def)
  qed
next
  case (out_of_reach i c e)
  show ?thesis
    unfolding answered_def
  proof (intro allI impI)
    fix j b rs
    assume j: "re_replies s' j = Inr b # rs"
    then obtain qs where "re_replies s j = Inr b # qs"
      using out_of_reach(1) by (cases "re_replies s j") (auto simp: replied_def split: if_splits)
    then show "\<exists>h \<in> set (re_served s'). ss_call h = j \<and> ss_script h = limit_request agent pre m (calls j) \<and> ss_answer h = b"
      using assms(1) out_of_reach(1) unfolding answered_def by (fastforce simp: replied_def)
  qed
qed (use assms(1) in \<open>simp_all add: answered_def\<close>)

text \<open>Later steps only append to what was served.\<close>

lemma served_grows: "replica_step srv calls s s' \<Longrightarrow> \<exists>more. re_served s' = re_served s @ more"
  by (erule replica_step.cases) (simp_all add: replied_def served_one_def)

context shared_redis begin

lemma limited_step:
  assumes "limited (pre @ global_key agent) m s" "replica_step srv calls s s'" "\<And>i. replica agent pre m (calls i)" "0 < m"
    and "distinct (map (sc_member \<circ> ss_script) (granted (pre @ global_key agent) (re_served s')))"
  shows "limited (pre @ global_key agent) m s'"
  using assms(2)
proof cases
  case (time_passes t)
  then show ?thesis using assms(1) remembers_later[of _ "re_clock s" _ _ t] by (auto simp: limited_def)
next
  case (script_runs i c a r)
  have "sc_key c = pre @ global_key agent \<longrightarrow> hourly m c"
    using open_request_limit(1)[OF assms(3,4) script_runs(2)] hourly_limit_request by metis
  from limited_served[OF assms(1) this script_runs(3,4), of i] assms(5) show ?thesis
    by (simp add: script_runs(1)) (simp add: replied_def)
next
  case (reply_lost i c a r e)
  have "sc_key c = pre @ global_key agent \<longrightarrow> hourly m c"
    using open_request_limit(1)[OF assms(3,4) reply_lost(2)] hourly_limit_request by metis
  from limited_served[OF assms(1) this reply_lost(3,4), of i] assms(5) show ?thesis
    by (simp add: reply_lost(1)) (simp add: replied_def)
next
  case (out_of_reach i c e)
  then show ?thesis using assms(1) by simp
qed

lemma reach_invariants:
  assumes "replicas_reach srv calls (replicas_start r t) s" "\<And>i. replica agent pre m (calls i)" "0 < m" "clock r \<le> t"
    and "distinct (map (sc_member \<circ> ss_script) (granted (pre @ global_key agent) (re_served s)))"
  shows "limited (pre @ global_key agent) m s \<and> answered agent pre m calls s"
  using assms(1,5)
proof (induction rule: replicas_reach.induct)
  case start
  then show ?case
    using assms(3,4) by (simp add: limited_def remembers_def answered_def replicas_start_def granted_def)
next
  case (step s s')
  obtain more where "re_served s' = re_served s @ more" using served_grows[OF step.hyps(2)] by blast
  then have "distinct (map (sc_member \<circ> ss_script) (granted (pre @ global_key agent) (re_served s)))"
    using step.prems by (simp add: granted_def comp_def)
  then show ?case
    using step.IH limited_step[OF _ step.hyps(2) assms(2,3) step.prems] answered_step[OF _ step.hyps(2) assms(2,3)] by blast
qed

end

section \<open>Properties\<close>

text \<open>C11: Replicas share the hourly limit. Processes with boundaries of one agent, the same limit and Redis
  limiters on one server make any number of calls; clock readings, scripts, lost replies and outages
  interleave in any order, and a call may be delayed between its reading and its script for any
  time. Every call let pass was admitted by its script; and in every hour, of the calls let pass
  that read their clock after its start and whose script ran by its end, there are at most
  \<open>max_actions_per_hour\<close>. The server behaves as documented, the readings agree with its clock, and
  the members written, a reading with a random suffix, differ. Limits of the tools may be set as well.
  (Counted by readings alone the limit can be exceeded, as in \<open>delayed_replica_exceeds\<close>.)\<close>

theorem replicas_share_the_hourly_limit:
  assumes "shared_redis srv zset deadline clock" and "\<And>i. replica agent pre m (calls i)" and "0 < m"
    and "replicas_reach srv calls (replicas_start r t) s" and "clock r \<le> t"
    and "distinct (map (sc_member \<circ> ss_script) (re_served s))" and "is_double c"
  shows "(\<forall>i. let_pass (calls i) (re_replies s i) \<longrightarrow> (\<exists>h \<in> set (re_served s). ss_call h = i \<and>
      ss_script h = limit_request agent pre m (calls i) \<and> ss_answer h \<noteq> 0)) \<and>
    int (card {i. let_pass (calls i) (re_replies s i) \<and> (\<exists>h \<in> set (re_served s). ss_call h = i \<and>
      ss_script h = limit_request agent pre m (calls i) \<and> ss_answer h \<noteq> 0 \<and>
      c < sc_now (ss_script h) \<and> ss_moment h \<le> c + 3600)}) \<le> m"
proof
  let ?K = "pre @ global_key agent"
  have d: "distinct (map (sc_member \<circ> ss_script) (granted ?K (re_served s)))"
    unfolding granted_def using assms(6) by (rule distinct_map_filter)
  have inv: "shared_redis.limited zset deadline clock ?K m s" "answered agent pre m calls s"
    using shared_redis.reach_invariants[OF assms(1,4,2,3,5) d] by blast+
  show "\<forall>i. let_pass (calls i) (re_replies s i) \<longrightarrow> (\<exists>h \<in> set (re_served s). ss_call h = i \<and>
      ss_script h = limit_request agent pre m (calls i) \<and> ss_answer h \<noteq> 0)"
  proof (intro allI impI)
    fix i
    assume "let_pass (calls i) (re_replies s i)"
    then obtain a where "re_replies s i \<noteq> []" "hd (re_replies s i) = Inr a" "a \<noteq> 0"
      using call_requests(2)[OF assms(2,3)] by (auto simp: let_pass_def)
    then obtain rs where "re_replies s i = Inr a # rs" by (cases "re_replies s i") auto
    then show "\<exists>h \<in> set (re_served s). ss_call h = i \<and> ss_script h = limit_request agent pre m (calls i) \<and> ss_answer h \<noteq> 0"
      using inv(2) \<open>a \<noteq> 0\<close> unfolding answered_def by blast
  qed
  let ?hs = "filter (in_hour c) (granted ?K (re_served s))"
  have "{i. let_pass (calls i) (re_replies s i) \<and> (\<exists>h \<in> set (re_served s). ss_call h = i \<and>
      ss_script h = limit_request agent pre m (calls i) \<and> ss_answer h \<noteq> 0 \<and>
      c < sc_now (ss_script h) \<and> ss_moment h \<le> c + 3600)} \<subseteq> ss_call ` set ?hs" (is "?I \<subseteq> _")
    by (auto simp: granted_def in_hour_def limit_request_key image_iff)
  then have "card ?I \<le> length ?hs"
    by (meson card_image_le card_length card_mono finite_imageI finite_set order_trans)
  moreover have "int (length ?hs) \<le> m"
    using inv(1) assms(7) by (simp add: shared_redis.limited_def[OF assms(1)])
  ultimately show "int (card ?I) \<le> m" by linarith
qed

text \<open>Calls of the sample agent from processes that share the in-memory server.\<close>

interpretation mem_shared: shared_redis mem_server "\<lambda>r k. fmlookup (mr_zsets r k)" mr_deadlines mr_clock
  by unfold_locales (simp_all add: mem_server_def)

definition replica_boundary :: "unit asking_world_ext boundary" where
  "replica_boundary = \<lparr>b_agent_name = ''bot'', b_autonomy = AUTONOMOUS,
     b_permissions = permission_map [payments], b_blocked_operations = {}, b_allowed_environments = None,
     b_environment = ''prod'', b_max_actions_per_hour = Some 1, b_kill_switch = False,
     b_kill_switch_env = None, b_valid_from = None, b_valid_to = None,
     b_audit = default_sinks, b_policy_hooks = [], b_fail_closed_on_hook_error = True,
     b_strict_limits = True, b_token_issuer = None,
     b_rate_limiter = redis_check_and_record \<lparr>ro_client = remote, ro_key_prefix = ''rl:'', ro_fail_closed = True\<rparr>,
     b_provider = None, b_provider_mode = OBSERVE, b_policy_version = None\<rparr>"

definition replica_sample :: "nat \<Rightarrow> unit replica_call" where
  "replica_sample i = (replica_boundary, send_request (PInt 120),
     world.extend (sample_world\<lparr>secrets := (\<lambda>_. str_of_nat i)\<rparr>) \<lparr>asked = [], replies = [], \<dots> = ()\<rparr>)"

lemma replica_sample: "replica ''bot'' ''rl:'' 1 (replica_sample i)"
proof -
  have "moves no_requests (logging_sink_emit level ev)" for level ev
    unfolding logging_sink_emit_def Let_def
    by (rule movesI) (simp add: bindE_def log_line_def no_requests_def split: sum.splits)
  then have "around_limiter no_requests replica_boundary"
    by (auto simp: around_limiter_def replica_boundary_def default_sinks_def reflp_def transp_def no_requests_def)
  then show ?thesis by (simp add: replica_def replica_sample_def replica_boundary_def)
qed

lemma replica_sample_checks:
  fixes w :: "unit asking_world_scheme"
  defines "ctx \<equiv> context_of replica_boundary (send_request (PInt 120))"
  assumes "redis_check_and_record \<lparr>ro_client = remote, ro_key_prefix = ''rl:'', ro_fail_closed = True\<rparr> ''bot::__global__'' 1 (Fin 3600) (tick w) = (r, w1)"
  shows "snd (local_checks replica_boundary ctx w) = w1"
    and "r = Inr True \<Longrightarrow> fst (local_checks replica_boundary ctx w) = Inr ()"
proof -
  have "static_ok replica_boundary ctx payments w"
    using as_finite_int[of 120]
    by (simp add: static_ok_def ctx_def context_of_def within_validity_def environment_ok_def kill_switch_engaged_def
        operation_allowed_iff value_ok_def records_ok_def num_lt_def replica_boundary_def permission_map_def
        del: as_finite_number.simps)
  then have l: "local_checks replica_boundary ctx w = thenE (check_rate_limit replica_boundary ctx)
      (thenE (check_policy_hooks replica_boundary ctx) (check_requires_approval replica_boundary ctx payments)) (tick w)"
    by (rule local_checks_static)
  have c: "check_tool_rate replica_boundary ctx v = (Inr (), v)" "check_policy_hooks replica_boundary ctx v = (Inr (), v)"
    "check_requires_approval replica_boundary ctx payments v = (Inr (), v)" for v
    by (simp_all add: check_tool_rate_def check_policy_hooks_def check_requires_approval_def needs_approval_def
        replica_boundary_def ctx_def context_of_def permission_map_def)
  obtain x where g: "check_global_rate replica_boundary ctx (tick w) = (x, w1)" "r = Inr True \<longrightarrow> x = Inr ()"
    using assms(2) by (cases r) (auto simp: check_global_rate_def replica_boundary_def global_key_def bindE_def)
  show "snd (local_checks replica_boundary ctx w) = w1"
    by (cases x) (simp_all add: l check_rate_limit_def thenE_def bindE_def c g(1))
  show "fst (local_checks replica_boundary ctx w) = Inr ()" if "r = Inr True"
    using g that by (simp add: l check_rate_limit_def thenE_def bindE_def c)
qed

lemma remote_method_passes:
  assumes "asked w = []" "replies w = [Inr a]" "a \<noteq> 0"
  shows "\<exists>w'. redis_check_and_record \<lparr>ro_client = remote, ro_key_prefix = pre, ro_fail_closed = True\<rparr> key 1 (Fin 3600) w = (Inr True, w')"
  using assms
  by (simp add: redis_check_and_record_def time_time_def token_secret_def bindE_def truncate_rat_def guarded_call_def remote_def)

lemma replica_sample_requests:
  "requests (replica_sample i) rs = [limit_request ''bot'' ''rl:'' 1 (replica_sample i)]"
  "let_pass (replica_sample i) [Inr 1]"
proof -
  let ?w = "\<lambda>rs. (world.extend (sample_world\<lparr>secrets := (\<lambda>_. str_of_nat i)\<rparr>) \<lparr>asked = [], replies = [], \<dots> = ()\<rparr>)\<lparr>asked := [], replies := rs\<rparr>"
  let ?self = "\<lparr>ro_client = remote, ro_key_prefix = ''rl:'', ro_fail_closed = True\<rparr>" and ?rq = "send_request (PInt 120)"
  have run: "run_with (replica_sample i) rs = check replica_boundary ?rq (?w rs)" for rs
    by (simp add: run_with_def replica_sample_def)
  have ar: "around_limiter no_requests replica_boundary"
    using replica_sample[of i] by (simp add: replica_def replica_sample_def)
  show r: "requests (replica_sample i) rs = [limit_request ''bot'' ''rl:'' 1 (replica_sample i)]" for rs
  proof -
    obtain r w1 where c: "redis_check_and_record ?self ''bot::__global__'' 1 (Fin 3600) (tick (?w rs)) = (r, w1)" by fastforce
    have "no_requests w1 (snd (check replica_boundary ?rq (?w rs)))"
      using check_moves_on[OF ar, of ?rq "?w rs"] replica_sample_checks(1)[OF c] by simp
    then have "requests (replica_sample i) rs = asked w1" by (simp add: requests_def run no_requests_def)
    also have "\<dots> = [limit_request ''bot'' ''rl:'' 1 (replica_sample i)]"
      using remote_method(1)[OF c] by (simp add: limit_request_def replica_sample_def tick_def global_key_def Let_def)
    finally show ?thesis .
  qed
  have "\<exists>w1. redis_check_and_record ?self ''bot::__global__'' 1 (Fin 3600) (tick (?w [Inr 1])) = (Inr True, w1)"
    by (rule remote_method_passes[where a = 1]) (simp_all add: tick_def)
  then have "fst (local_checks replica_boundary (context_of replica_boundary ?rq) (?w [Inr 1])) = Inr ()"
    using replica_sample_checks(2) by blast
  moreover have "tame_boundary replica_boundary" by (rule default_sinks_tame) (simp add: replica_boundary_def)
  ultimately show "let_pass (replica_sample i) [Inr 1]"
    using r[of "[Inr 1]"] by (simp add: let_pass_def run check_outcome)
qed

text \<open>The script of call 0, read at 1000, runs at 1500; the call passes.\<close>

theorem replicas_share_the_hourly_limit_witness:
  "\<exists>s. replicas_reach mem_server replica_sample (replicas_start mem_empty 0) s \<and>
     let_pass (replica_sample 0) (re_replies s 0) \<and>
     int (card {i. let_pass (replica_sample i) (re_replies s i) \<and> (\<exists>h \<in> set (re_served s). ss_call h = i \<and>
      ss_script h = limit_request ''bot'' ''rl:'' 1 (replica_sample i) \<and> ss_answer h \<noteq> 0 \<and>
      0 < sc_now (ss_script h) \<and> ss_moment h \<le> 0 + 3600)}) \<le> 1"
proof -
  let ?c = "limit_request ''bot'' ''rl:'' 1 (replica_sample 0)"
  let ?s = "(replicas_start mem_empty 0)\<lparr>re_clock := 1500\<rparr>"
  have "replica_step mem_server replica_sample (replicas_start mem_empty 0) ?s"
    by (rule time_passes) (simp add: replicas_start_def)
  then have s: "replicas_reach mem_server replica_sample (replicas_start mem_empty 0) ?s"
    using replicas_reach.start replicas_reach.step by metis
  have o: "open_request replica_sample ?s 0 ?c"
    by (simp add: open_request_def replica_sample_requests replicas_start_def)
  have n: "sc_now ?c \<le> re_clock ?s" "sc_max ?c = 1"
    by (simp_all add: limit_request_def replica_sample_def sample_world_def world.defs Let_def)
  obtain r where r: "run_script mem_server ?c ?s = (1, r)"
    using n(2) by (auto simp: run_script_def sliding_window_lua_def Let_def mem_server_def mem_empty_def replicas_start_def fcard.rep_eq)
  let ?t = "replied 0 (Inr 1) (served_one 0 ?c 1 r ?s)"
  have t: "replicas_reach mem_server replica_sample (replicas_start mem_empty 0) ?t"
    using replicas_reach.step[OF s script_runs[OF o n(1) r]] .
  have p: "let_pass (replica_sample 0) (re_replies ?t 0)"
    using replica_sample_requests(2) by (simp add: replied_def served_one_def replicas_start_def)
  have d: "distinct (map (sc_member \<circ> ss_script) (re_served ?t))"
    by (simp add: replied_def served_one_def replicas_start_def)
  have z: "mr_clock mem_empty \<le> 0" "is_double 0" using is_double_int[of 0] by (simp_all add: mem_empty_def)
  from replicas_share_the_hourly_limit[OF mem_shared.shared_redis_axioms replica_sample zero_less_one t z(1) d z(2)]
  show ?thesis using t p by blast
qed

text \<open>
  Counted by their readings alone, calls can exceed the limit: with two calls an hour, a script
  delayed from 151 until after 3751 finds the set without the calls of 100 and 150.
\<close>

lemma delayed_replica_exceeds:
  "admitted (redis_window_step mem_server str_of_nat ''k'' 3600) [(100, 2), (150, 2), (3751, 2), (151, 2)] (mem_empty, 0) =
     [100, 150, 3751, 151]"
proof -
  have d: "round_double (- 3500) = Fin (- 3500)" "round_double (- 3450) = Fin (- 3450)" "round_double 151 = Fin 151"
    "round_double (- 3449) = Fin (- 3449)"
    using is_double_int[of "- 3500"] is_double_int[of "- 3450"] is_double_int[of 151] is_double_int[of "- 3449"]
    by (simp_all add: is_double_def)
  show ?thesis
    by (simp add: redis_window_step_def sliding_window_lua_def Let_def d truncate_rat_def mem_server_def mem_empty_def
        fcard.rep_eq fmfilter_alt_defs)
qed

end
