(* ===== verification/Rate_Threads.thy ===== *)
theory Rate_Threads
  imports Rate_Limiter
begin

text \<open>
  \<open>_rate_limiter.py\<close> under threads: \<open>check_and_record\<close> reads the clock, then takes the lock of
  the limiter and works on the deque of one key. The steps of a thread are one transition each,
  the other threads run in between. Two ghost components are not in the code: the order in
  which calls were decided, with the clock at that moment, and the clock itself.
\<close>

section \<open>The steps\<close>

datatype limiter_pc =
    Outside
  | Waiting rat \<comment> \<open>has read the clock, wants the lock\<close>
  | Pruning rat \<comment> \<open>holds the lock, in the \<open>while\<close> loop\<close>
  | Admitting rat \<comment> \<open>holds the lock, has found room\<close>
  | Decided bool

record decision_entry =
  de_reading :: rat
  de_moment :: rat
  de_allowed :: bool

record limiter_threads =
  lt_pc :: "nat \<Rightarrow> limiter_pc"
  lt_lock :: "nat option"
  lt_calls :: "rat list"
  lt_clock :: rat
  lt_history :: "decision_entry list"

definition limiter_start :: "rat \<Rightarrow> limiter_threads" where
  "limiter_start t = \<lparr>lt_pc = (\<lambda>_. Outside), lt_lock = None, lt_calls = [], lt_clock = t, lt_history = []\<rparr>"

definition decided :: "limiter_threads \<Rightarrow> nat \<Rightarrow> rat \<Rightarrow> bool \<Rightarrow> limiter_threads" where
  "decided s p now b = s\<lparr>lt_pc := (lt_pc s)(p := Decided b), lt_lock := None,
     lt_history := lt_history s @ [\<lparr>de_reading = now, de_moment = lt_clock s, de_allowed = b\<rparr>]\<rparr>"

text \<open>\<open>window_seconds\<close> and \<open>max_calls\<close> are the same for all calls on the key.\<close>

inductive limiter_step :: "rat \<Rightarrow> int \<Rightarrow> limiter_threads \<Rightarrow> limiter_threads \<Rightarrow> bool" for W m where
  time_passes: "lt_clock s \<le> t \<Longrightarrow> is_double t \<Longrightarrow> limiter_step W m s (s\<lparr>lt_clock := t\<rparr>)"
| read_clock: "lt_pc s p = Outside \<or> lt_pc s p = Decided b \<Longrightarrow>
     limiter_step W m s (s\<lparr>lt_pc := (lt_pc s)(p := Waiting (lt_clock s))\<rparr>)"
| take_lock: "lt_pc s p = Waiting now \<Longrightarrow> lt_lock s = None \<Longrightarrow>
     limiter_step W m s (s\<lparr>lt_pc := (lt_pc s)(p := Pruning now), lt_lock := Some p\<rparr>)"
| popleft: "lt_pc s p = Pruning now \<Longrightarrow> lt_calls s = t # ts \<Longrightarrow> flt (Fin t) (fsub (Fin now) (Fin W)) \<Longrightarrow>
     limiter_step W m s (s\<lparr>lt_calls := ts\<rparr>)"
| refuse: "lt_pc s p = Pruning now \<Longrightarrow> prune (fsub (Fin now) (Fin W)) (lt_calls s) = lt_calls s \<Longrightarrow>
     m \<le> int (length (lt_calls s)) \<Longrightarrow> limiter_step W m s (decided s p now False)"
| room: "lt_pc s p = Pruning now \<Longrightarrow> prune (fsub (Fin now) (Fin W)) (lt_calls s) = lt_calls s \<Longrightarrow>
     int (length (lt_calls s)) < m \<Longrightarrow> limiter_step W m s (s\<lparr>lt_pc := (lt_pc s)(p := Admitting now)\<rparr>)"
| admit: "lt_pc s p = Admitting now \<Longrightarrow>
     limiter_step W m s (decided (s\<lparr>lt_calls := lt_calls s @ [now]\<rparr>) p now True)"

inductive limiter_reachable :: "rat \<Rightarrow> int \<Rightarrow> limiter_threads \<Rightarrow> bool" for W m where
  start: "is_double t \<Longrightarrow> limiter_reachable W m (limiter_start t)"
| step: "limiter_reachable W m s \<Longrightarrow> limiter_step W m s s' \<Longrightarrow> limiter_reachable W m s'"

section \<open>The sequential limiter\<close>

text \<open>The decisions of \<open>window_step\<close> on the requests one after the other, and the deque it leaves.\<close>

fun decisions :: "rat \<Rightarrow> int \<Rightarrow> rat list \<Rightarrow> rat list \<Rightarrow> bool list" where
  "decisions W m [] calls = []"
| "decisions W m (now # nows) calls =
     (case window_step (Fin W) now m calls of (b, calls') \<Rightarrow> b # decisions W m nows calls')"

fun deque_after :: "rat \<Rightarrow> int \<Rightarrow> rat list \<Rightarrow> rat list \<Rightarrow> rat list" where
  "deque_after W m [] calls = calls"
| "deque_after W m (now # nows) calls = deque_after W m nows (snd (window_step (Fin W) now m calls))"

lemma deque_after_append [simp]:
  "deque_after W m (xs @ ys) calls = deque_after W m ys (deque_after W m xs calls)"
  by (induction xs arbitrary: calls) auto

lemma decisions_append [simp]:
  "decisions W m (xs @ ys) calls = decisions W m xs calls @ decisions W m ys (deque_after W m xs calls)"
  by (induction xs arbitrary: calls) (auto split: prod.splits)

lemma prune_again [simp]: "prune c (prune c xs) = prune c xs"
  by (simp add: prune_dropWhile)

section \<open>The invariant\<close>

definition agrees :: "rat \<Rightarrow> int \<Rightarrow> limiter_threads \<Rightarrow> bool" where
  "agrees W m s \<longleftrightarrow>
    map de_allowed (lt_history s) = decisions W m (map de_reading (lt_history s)) [] \<and>
    (let calls = deque_after W m (map de_reading (lt_history s)) [] in
     case lt_lock s of
       None \<Rightarrow> lt_calls s = calls
     | Some p \<Rightarrow>
        (case lt_pc s p of
           Pruning now \<Rightarrow> prune (fsub (Fin now) (Fin W)) (lt_calls s) = prune (fsub (Fin now) (Fin W)) calls
         | Admitting now \<Rightarrow> lt_calls s = prune (fsub (Fin now) (Fin W)) calls \<and> int (length (lt_calls s)) < m
         | _ \<Rightarrow> False))"

fun inside :: "limiter_pc \<Rightarrow> bool" where
  "inside (Pruning now) = True"
| "inside (Admitting now) = True"
| "inside _ = False"

definition holds_lock :: "limiter_threads \<Rightarrow> bool" where
  "holds_lock s \<longleftrightarrow> (\<forall>p. inside (lt_pc s p) \<longleftrightarrow> lt_lock s = Some p)"

lemma holder: "holds_lock s \<Longrightarrow> inside (lt_pc s p) \<Longrightarrow> lt_lock s = Some p"
  by (simp add: holds_lock_def)

definition readings_past :: "limiter_threads \<Rightarrow> bool" where
  "readings_past s \<longleftrightarrow> is_double (lt_clock s) \<and>
    (\<forall>p now. lt_pc s p \<in> {Waiting now, Pruning now, Admitting now} \<longrightarrow> now \<le> lt_clock s \<and> is_double now) \<and>
    (\<forall>e \<in> set (lt_history s). de_reading e \<le> de_moment e \<and> de_moment e \<le> lt_clock s \<and> is_double (de_reading e))"

lemma only_holder: "holds_lock s \<Longrightarrow> inside (lt_pc s p) \<Longrightarrow> inside (lt_pc s q) \<longleftrightarrow> q = p"
  by (auto simp: holds_lock_def)

lemma holds_lock_step: "limiter_step W m s s' \<Longrightarrow> holds_lock s \<Longrightarrow> holds_lock s'"
proof (induction rule: limiter_step.induct)
  case (read_clock s p b)
  then have "\<not> inside (lt_pc s p)" by auto
  then show ?case using read_clock(2) by (auto simp: holds_lock_def)
next
  case (refuse s p now)
  then show ?case using only_holder[of s p] by (auto simp: holds_lock_def decided_def)
next
  case (room s p now)
  then show ?case using holder[of s p] by (auto simp: holds_lock_def)
next
  case (admit s p now)
  then show ?case using only_holder[of s p] by (auto simp: holds_lock_def decided_def)
qed (auto simp: holds_lock_def)

lemma readings_past_step: "limiter_step W m s s' \<Longrightarrow> readings_past s \<Longrightarrow> readings_past s'"
  by (induction rule: limiter_step.induct) (force simp: readings_past_def decided_def)+

lemma agrees_step: "limiter_step W m s s' \<Longrightarrow> holds_lock s \<Longrightarrow> agrees W m s \<Longrightarrow> agrees W m s'"
proof (induction rule: limiter_step.induct)
  case (read_clock s p b)
  have "\<not> inside (lt_pc s p)" using read_clock(1) by auto
  then have "lt_lock s \<noteq> Some p" using read_clock(2) by (simp add: holds_lock_def)
  then show ?case using read_clock(3) by (cases "lt_lock s") (auto simp: agrees_def Let_def split: limiter_pc.splits)
next
  case (take_lock s p now)
  then show ?case by (simp add: agrees_def)
next
  case (popleft s p now t ts)
  then have "lt_lock s = Some p" by (intro holder) simp_all
  then show ?case using popleft by (simp add: agrees_def Let_def)
next
  case (refuse s p now)
  then have "lt_lock s = Some p" by (intro holder) simp_all
  then show ?case using refuse by (simp add: agrees_def decided_def window_step_def Let_def)
next
  case (room s p now)
  then have "lt_lock s = Some p" by (intro holder) simp_all
  then show ?case using room by (simp add: agrees_def Let_def)
next
  case (admit s p now)
  then have "lt_lock s = Some p" by (intro holder) simp_all
  then show ?case using admit by (auto simp: agrees_def decided_def window_step_def Let_def)
qed (auto simp: agrees_def Let_def split: option.splits limiter_pc.splits)

lemma reachable_invariant:
  "limiter_reachable W m s \<Longrightarrow> holds_lock s \<and> agrees W m s \<and> readings_past s"
proof (induction rule: limiter_reachable.induct)
  case (start t)
  then show ?case by (auto simp: holds_lock_def agrees_def readings_past_def limiter_start_def)
next
  case (step s s')
  then show ?case using holds_lock_step agrees_step readings_past_step by blast
qed

section \<open>Bursts\<close>

text \<open>The entries of a burst survive the pruning of every reading that is at most \<open>W\<close> later.\<close>

lemma prune_keeps:
  assumes "A \<subseteq># mset calls" "\<forall>x \<in># A. \<not> flt (Fin x) c"
  shows "A \<subseteq># mset (prune c calls)"
  using assms(1)
proof (induction calls)
  case (Cons t ts)
  show ?case
  proof (cases "flt (Fin t) c")
    case True
    then have "t \<notin># A" using assms(2) by blast
    have "count A x \<le> count (mset ts) x" for x
      using mset_subset_eq_count[OF Cons.prems, of x] \<open>t \<notin># A\<close> by (cases "x = t") (auto simp: not_in_iff)
    then have "A \<subseteq># mset ts" by (rule mset_subset_eqI)
    then show ?thesis using Cons.IH True by simp
  next
    case False
    then show ?thesis using Cons.prems by simp
  qed
qed simp

lemma burst_step:
  assumes "A \<subseteq># mset calls" "\<forall>x \<in># A. T \<le> x \<and> is_double x" "now \<le> T + W"
    and "window_step (Fin W) now m calls = (b, calls')"
  shows "(if b then add_mset now A else A) \<subseteq># mset calls' \<and> (b \<longrightarrow> int (length calls') \<le> m)"
proof -
  have "now - W \<le> x" if "x \<in># A" for x using assms(2,3) that by force
  then have "A \<subseteq># mset (prune (fsub (Fin now) (Fin W)) calls)"
    using assms(2) exact_window by (intro prune_keeps[OF assms(1)]) blast
  then show ?thesis using assms(4) by (auto simp: window_step_def Let_def split: if_splits)
qed

lemma burst_bound:
  assumes "A \<subseteq># mset calls" "\<forall>x \<in># A. T \<le> x \<and> is_double x" "int (size A) \<le> m"
    and "\<forall>x \<in> set nows. T \<le> x \<and> x \<le> T + W \<and> is_double x"
  shows "int (size A + length (filter (\<lambda>b. b) (decisions W m nows calls))) \<le> m"
  using assms
proof (induction nows arbitrary: A calls)
  case (Cons now nows)
  obtain b calls' where st: "window_step (Fin W) now m calls = (b, calls')" by fastforce
  have now: "T \<le> now" "now \<le> T + W" "is_double now" using Cons.prems(4) by auto
  let ?A = "if b then add_mset now A else A"
  have k: "?A \<subseteq># mset calls'" "b \<longrightarrow> int (length calls') \<le> m"
    using burst_step[OF Cons.prems(1,2) now(2) st] by auto
  have "int (size ?A) \<le> m"
    using size_mset_mono[OF k(1)] k(2) Cons.prems(3) by (cases b) auto
  then have "int (size ?A + length (filter (\<lambda>b. b) (decisions W m nows calls'))) \<le> m"
    using Cons.prems now by (intro Cons.IH[OF k(1)]) auto
  then show ?case by (cases b) (simp_all add: st)
qed simp

section \<open>A call alone\<close>

abbreviation limiter_reaches :: "rat \<Rightarrow> int \<Rightarrow> limiter_threads \<Rightarrow> limiter_threads \<Rightarrow> bool" where
  "limiter_reaches W m \<equiv> (limiter_step W m)\<^sup>*\<^sup>*"

lemma reaches_reachable: "limiter_reaches W m s s' \<Longrightarrow> limiter_reachable W m s \<Longrightarrow> limiter_reachable W m s'"
  by (induction rule: rtranclp_induct) (auto intro: limiter_reachable.step)

text \<open>The \<open>while\<close> loop of the holder ends with the pruned deque.\<close>

lemma pruning_ends:
  "lt_pc s p = Pruning now \<Longrightarrow>
     limiter_reaches W m s (s\<lparr>lt_calls := prune (fsub (Fin now) (Fin W)) (lt_calls s)\<rparr>)"
proof (induction "lt_calls s" arbitrary: s)
  case Nil
  then show ?case by (cases s) simp
next
  case (Cons t ts)
  let ?c = "fsub (Fin now) (Fin W)"
  show ?case
  proof (cases "flt (Fin t) ?c")
    case True
    let ?s = "s\<lparr>lt_calls := ts\<rparr>"
    have "limiter_step W m s ?s" using Cons.prems Cons.hyps(2) True by (intro popleft) auto
    moreover have "limiter_reaches W m ?s (?s\<lparr>lt_calls := prune ?c (lt_calls ?s)\<rparr>)"
      using Cons.prems by (intro Cons.hyps(1)) auto
    moreover have "s\<lparr>lt_calls := prune ?c (lt_calls s)\<rparr> = ?s\<lparr>lt_calls := prune ?c (lt_calls ?s)\<rparr>"
      using True Cons.hyps(2)[symmetric] by (cases s) simp
    ultimately show ?thesis by (simp only: converse_rtranclp_into_rtranclp)
  next
    case False
    then show ?thesis using Cons.hyps(2)[symmetric] by (cases s) simp
  qed
qed

lemma waiting_call_is_decided:
  assumes "lt_pc s p = Waiting now" "lt_lock s = None" "window_step (Fin W) now m (lt_calls s) = (b, calls')"
  shows "limiter_reaches W m s (decided (s\<lparr>lt_calls := calls'\<rparr>) p now b)"
proof -
  let ?c = "fsub (Fin now) (Fin W)"
  let ?s1 = "s\<lparr>lt_pc := (lt_pc s)(p := Pruning now), lt_lock := Some p\<rparr>"
  let ?s2 = "?s1\<lparr>lt_calls := prune ?c (lt_calls s)\<rparr>"
  have "limiter_step W m s ?s1" using assms by (intro take_lock) auto
  moreover have "limiter_reaches W m ?s1 ?s2" using pruning_ends[of ?s1 p now W m] by simp
  ultimately have s2: "limiter_reaches W m s ?s2" by (rule converse_rtranclp_into_rtranclp)
  show ?thesis
  proof (cases b)
    case False
    have "limiter_step W m ?s2 (decided ?s2 p now False)"
      using assms(3) False by (intro refuse) (auto simp: window_step_def Let_def split: if_splits)
    moreover have "decided ?s2 p now False = decided (s\<lparr>lt_calls := calls'\<rparr>) p now b"
      using assms(3) False by (cases s) (auto simp: decided_def window_step_def Let_def split: if_splits)
    ultimately show ?thesis using s2 by (metis rtranclp.rtrancl_into_rtrancl)
  next
    case True
    let ?s3 = "?s2\<lparr>lt_pc := (lt_pc ?s2)(p := Admitting now)\<rparr>"
    have "limiter_step W m ?s2 ?s3"
      using assms(3) True by (intro room) (auto simp: window_step_def Let_def split: if_splits)
    moreover have "limiter_step W m ?s3 (decided (?s3\<lparr>lt_calls := lt_calls ?s3 @ [now]\<rparr>) p now True)"
      by (intro admit) simp
    moreover have "decided (?s3\<lparr>lt_calls := lt_calls ?s3 @ [now]\<rparr>) p now True = decided (s\<lparr>lt_calls := calls'\<rparr>) p now b"
      using assms(3) True by (cases s) (auto simp: decided_def window_step_def Let_def split: if_splits)
    ultimately show ?thesis using s2 by (metis rtranclp.rtrancl_into_rtrancl)
  qed
qed

text \<open>A call of a thread that is not in the limiter, from one clock reading to another.\<close>

lemma call_at:
  assumes "lt_pc s p = Outside" "lt_lock s = None" "lt_clock s \<le> t" "t \<le> u" "is_double t" "is_double u"
    and "window_step (Fin W) t m (lt_calls s) = (b, calls')"
  shows "limiter_reaches W m s (decided (s\<lparr>lt_calls := calls', lt_clock := u\<rparr>) p t b)"
proof -
  let ?s1 = "s\<lparr>lt_clock := t\<rparr>"
  let ?s2 = "?s1\<lparr>lt_pc := (lt_pc s)(p := Waiting t)\<rparr>"
  let ?s3 = "?s2\<lparr>lt_clock := u\<rparr>"
  have "limiter_step W m s ?s1" using assms by (intro time_passes) auto
  moreover have "limiter_step W m ?s1 ?s2" using read_clock[of ?s1 p] assms by simp
  moreover have "limiter_step W m ?s2 ?s3" using assms by (intro time_passes) auto
  moreover have "limiter_reaches W m ?s3 (decided (?s3\<lparr>lt_calls := calls'\<rparr>) p t b)"
    using assms by (intro waiting_call_is_decided) auto
  moreover have "decided (?s3\<lparr>lt_calls := calls'\<rparr>) p t b = decided (s\<lparr>lt_calls := calls', lt_clock := u\<rparr>) p t b"
    by (cases s) (simp add: decided_def)
  ultimately show ?thesis by (metis converse_rtranclp_into_rtranclp)
qed

text \<open>A first call, read at 0 and admitted at 5.\<close>

lemma first_call: "limiter_reachable 10 1 (decided ((limiter_start 0)\<lparr>lt_calls := [0], lt_clock := 5\<rparr>) 0 0 True)"
proof -
  have d: "is_double 0" "is_double 5" using is_double_int[of 0] by (simp_all add: is_double_numeral)
  have "limiter_reaches 10 1 (limiter_start 0) (decided ((limiter_start 0)\<lparr>lt_calls := [0], lt_clock := 5\<rparr>) 0 0 True)"
    using d by (intro call_at) (auto simp: limiter_start_def window_step_def)
  then show ?thesis using limiter_reachable.start[OF d(1)] by (rule reaches_reachable)
qed

section \<open>Properties\<close>

text \<open>C12: The lock makes the limiter atomic: in every reachable state of any number of threads, with
  one transition per read of the clock, per taking of the lock and per \<open>popleft\<close>, at most the
  holder of the lock is between \<open>with self._lock\<close> and its end, and when the lock is free the
  deque and all decisions so far are those of the sequential \<open>window_step\<close> on the readings in
  the order of the decisions.\<close>

theorem locked_limiter_is_atomic:
  assumes "limiter_reachable W m s"
  shows "map de_allowed (lt_history s) = decisions W m (map de_reading (lt_history s)) [] \<and>
    (lt_lock s = None \<longrightarrow> lt_calls s = deque_after W m (map de_reading (lt_history s)) []) \<and>
    (\<forall>p q now now'. lt_pc s p \<in> {Pruning now, Admitting now} \<and> lt_pc s q \<in> {Pruning now', Admitting now'} \<longrightarrow> p = q)"
proof -
  note inv = reachable_invariant[OF assms]
  have "p = q" if "lt_pc s p \<in> {Pruning now, Admitting now}" "lt_pc s q \<in> {Pruning now', Admitting now'}" for p q now now'
  proof -
    have "inside (lt_pc s p)" "inside (lt_pc s q)" using that by auto
    then show ?thesis using inv by (simp add: holds_lock_def)
  qed
  then show ?thesis using inv by (auto simp: agrees_def Let_def split: limiter_pc.splits)
qed

text \<open>The limit under threads: among any consecutive decisions whose clock readings lie within the
  window of each other, in whatever order the threads read the clock and took the lock, at most
  \<open>max_calls\<close> are admissions.\<close>

theorem threads_keep_the_limit:
  assumes "limiter_reachable W m s" and "lt_history s = before @ burst @ later" and "0 \<le> m"
    and "\<forall>e \<in> set burst. T \<le> de_reading e \<and> de_reading e \<le> T + W"
  shows "int (length (filter de_allowed burst)) \<le> m"
proof -
  note inv = reachable_invariant[OF assms(1)]
  let ?d = "\<lambda>es. map de_reading es"
  let ?calls = "deque_after W m (?d before) []"
  have "map de_allowed (before @ burst @ later) = decisions W m (?d (before @ burst @ later)) []"
    using inv assms(2) by (simp add: agrees_def)
  then have eq: "map de_allowed before @ map de_allowed burst @ map de_allowed later =
      decisions W m (?d before) [] @ decisions W m (?d burst) ?calls @
        decisions W m (?d later) (deque_after W m (?d burst) ?calls)" by simp
  have len: "length (decisions W m xs c) = length xs" for xs c
    by (induction xs arbitrary: c) (auto split: prod.splits)
  have "map de_allowed burst = decisions W m (?d burst) ?calls"
    using eq len by (metis append_eq_append_conv length_map)
  moreover have "length (filter de_allowed burst) = length (filter (\<lambda>b. b) (map de_allowed burst))"
    by (simp add: filter_map comp_def)
  moreover have "\<forall>e \<in> set burst. is_double (de_reading e)" using inv assms(2) by (simp add: readings_past_def)
  ultimately show ?thesis
    using burst_bound[of "{#}" ?calls T m "?d burst" W] assms(3,4) by simp
qed

text \<open>C34: What the lock does not order is the clock: \<open>time.monotonic()\<close> is read before the lock is taken,
  so a thread that waits in between is admitted under an old time. Under a limit of one call in
  ten seconds, two calls can be let pass within six.\<close>

theorem delayed_thread_exceeds_the_limit:
  "\<exists>s e f. limiter_reachable 10 1 s \<and> lt_history s = [e, f] \<and> de_allowed e \<and> de_allowed f \<and>
     de_moment f - de_moment e = 6"
proof -
  have d: "is_double 11" by (rule is_double_numeral) simp
  let ?s1 = "decided ((limiter_start 0)\<lparr>lt_calls := [0], lt_clock := 5\<rparr>) 0 0 True"
  let ?s2 = "decided (?s1\<lparr>lt_calls := [11], lt_clock := 11\<rparr>) 1 11 True"
  have "limiter_reaches 10 1 ?s1 ?s2"
    using d is_double_1[unfolded is_double_def]
    by (intro call_at) (auto simp: limiter_start_def decided_def window_step_def)
  then have "limiter_reachable 10 1 ?s2" using first_call by (rule reaches_reachable)
  moreover have "lt_history ?s2 = [\<lparr>de_reading = 0, de_moment = 5, de_allowed = True\<rparr>,
      \<lparr>de_reading = 11, de_moment = 11, de_allowed = True\<rparr>]"
    by (simp add: decided_def limiter_start_def)
  ultimately show ?thesis by fastforce
qed

theorem locked_limiter_is_atomic_witness:
  "\<exists>s. limiter_reachable 10 1 s \<and> lt_lock s = None \<and> lt_calls s = deque_after 10 1 [0] []"
proof -
  let ?s = "decided ((limiter_start 0)\<lparr>lt_calls := [0], lt_clock := 5\<rparr>) 0 0 True"
  have r: "limiter_reachable 10 1 ?s" by (rule first_call)
  have h: "lt_lock ?s = None" "map de_reading (lt_history ?s) = [0]"
    by (simp_all add: decided_def limiter_start_def)
  then show ?thesis using locked_limiter_is_atomic[OF r] r by (metis (no_types, lifting))
qed

theorem threads_keep_the_limit_witness:
  "\<exists>s. limiter_reachable 10 1 s \<and> lt_history s \<noteq> [] \<and> int (length (filter de_allowed (lt_history s))) \<le> 1"
proof -
  let ?s = "decided ((limiter_start 0)\<lparr>lt_calls := [0], lt_clock := 5\<rparr>) 0 0 True"
  have r: "limiter_reachable 10 1 ?s" by (rule first_call)
  have h: "lt_history ?s = [] @ [\<lparr>de_reading = 0, de_moment = 5, de_allowed = True\<rparr>] @ []"
    by (simp add: decided_def limiter_start_def)
  have "int (length (filter de_allowed [\<lparr>de_reading = 0, de_moment = 5, de_allowed = True\<rparr>])) \<le> 1"
    by (rule threads_keep_the_limit[OF r h, of 0]) simp_all
  then show ?thesis using r h by (metis append_Nil append_Nil2 list.distinct(1))
qed

end
