(* ===== verification/Framework_Adapters.thy ===== *)
theory Framework_Adapters
  imports Decorators "HOL-Library.AList"
begin

text \<open>
  \<open>integrations/langchain.py\<close> and \<open>integrations/crewai.py\<close>: the tool objects of the two
  frameworks with the boundary inside \<open>_run\<close> and \<open>_arun\<close>. A tool of a framework is its
  name, its two functions and the signature of \<open>_run\<close>; awaiting a coroutine is calling it.
\<close>

section \<open>Tools and options\<close>

record 'w framework_tool =
  ft_name :: string
  ft_run :: "'w func"
  ft_arun :: "'w func option"
  ft_signature :: "param list"

record guard_options =
  go_tool_name :: "string option"
  go_operation :: "string option"
  go_access_mode :: access_mode
  go_value_arg :: "string option"
  go_record_count_arg :: "string option"
  go_resource :: "string option"
  go_tool_version :: "string option"
  go_schema_hash :: "string option"
  go_manifest_hash :: "string option"

definition default_options :: guard_options where
  "default_options = \<lparr>go_tool_name = None, go_operation = None, go_access_mode = READ_ONLY, go_value_arg = None,
     go_record_count_arg = None, go_resource = None, go_tool_version = None, go_schema_hash = None,
     go_manifest_hash = None\<rparr>"

text \<open>\<open>tool_name or tool.name\<close>\<close>

definition resolved_name :: "guard_options \<Rightarrow> 'w framework_tool \<Rightarrow> string" where
  "resolved_name opts tool = (if truthy (go_tool_name opts) then the (go_tool_name opts) else ft_name tool)"

section \<open>LangChain\<close>

text \<open>The policy sees the keyword arguments only; \<open>finally\<close> records what the tool did.\<close>

definition langchain_evaluate ::
  "'w framework_tool \<Rightarrow> 'w boundary \<Rightarrow> guard_options \<Rightarrow> kwargs \<Rightarrow> ('w world_scheme, exn, unit) eff" where
  "langchain_evaluate tool b opts kw =
    check b \<lparr>rq_tool_name = resolved_name opts tool,
       rq_operation = go_operation opts, rq_access_mode = go_access_mode opts,
       rq_value = arg_of (go_value_arg opts) kw, rq_record_count = arg_of (go_record_count_arg opts) kw,
       rq_correlation_id = None, rq_metadata = Some [(KStr ''langchain_tool'', PStr (ft_name tool))]\<rparr>"

definition langchain_authorize ::
  "'w framework_tool \<Rightarrow> 'w boundary \<Rightarrow> guard_options \<Rightarrow> kwargs \<Rightarrow> ('w world_scheme, exn, authorization_context) eff" where
  "langchain_authorize tool b opts kw =
    authorize_call b \<lparr>rq_tool_name = resolved_name opts tool,
       rq_operation = go_operation opts, rq_access_mode = go_access_mode opts,
       rq_value = arg_of (go_value_arg opts) kw, rq_record_count = arg_of (go_record_count_arg opts) kw,
       rq_correlation_id = None, rq_metadata = Some [(KStr ''langchain_tool'', PStr (ft_name tool))],
       rq_arguments = map (\<lambda>(n, v). (KStr n, v)) kw, rq_resource = go_resource opts,
       rq_tool_version = go_tool_version opts, rq_schema_hash = go_schema_hash opts,
       rq_manifest_hash = go_manifest_hash opts, rq_approval_id = None, rq_approval_state = None\<rparr>"

definition langchain_run ::
  "'w framework_tool \<Rightarrow> 'w boundary \<Rightarrow> guard_options \<Rightarrow> pyval list \<Rightarrow> kwargs \<Rightarrow> ('w world_scheme, exn, pyval) eff" where
  "langchain_run tool b opts args kw =
    (if b_provider b \<noteq> None then
       bindE (langchain_authorize tool b opts kw) (\<lambda>authorization.
    bindE time_time (\<lambda>started_at v.
       let (outcome, v1) = ft_run tool args kw v;
           result = (case outcome of Inr x \<Rightarrow> x | Inl _ \<Rightarrow> PNone);
           error = (case outcome of Inl e \<Rightarrow> Some e | Inr _ \<Rightarrow> None)
       in bindE time_time (\<lambda>finished_at v2.
            case record_execution b (Some result) error started_at finished_at None (authorization, v2) of
              (Inl e, (_, v3)) \<Rightarrow> (Inl e, v3)
            | (Inr _, (_, v3)) \<Rightarrow> (outcome, v3)) v1))
     else thenE (langchain_evaluate tool b opts kw) (ft_run tool args kw))"

text \<open>\<open>getattr(tool, "_arun", None)\<close>, with the synchronous function as fallback.\<close>

definition langchain_arun ::
  "'w framework_tool \<Rightarrow> 'w boundary \<Rightarrow> guard_options \<Rightarrow> pyval list \<Rightarrow> kwargs \<Rightarrow> ('w world_scheme, exn, pyval) eff" where
  "langchain_arun tool b opts args kw =
    (if b_provider b \<noteq> None then
       bindE (langchain_authorize tool b opts kw) (\<lambda>authorization.
    bindE time_time (\<lambda>started_at v.
       let (outcome, v1) = (case ft_arun tool of Some arun \<Rightarrow> arun args kw | None \<Rightarrow> ft_run tool args kw) v;
           result = (case outcome of Inr x \<Rightarrow> x | Inl _ \<Rightarrow> PNone);
           error = (case outcome of Inl e \<Rightarrow> Some e | Inr _ \<Rightarrow> None)
       in bindE time_time (\<lambda>finished_at v2.
            case record_execution b (Some result) error started_at finished_at None (authorization, v2) of
              (Inl e, (_, v3)) \<Rightarrow> (Inl e, v3)
            | (Inr _, (_, v3)) \<Rightarrow> (outcome, v3)) v1))
     else thenE (langchain_evaluate tool b opts kw) (case ft_arun tool of Some arun \<Rightarrow> arun args kw | None \<Rightarrow> ft_run tool args kw))"

text \<open>\<open>guard_tools\<close>: the default access mode, updated by the overrides of the tool's name.\<close>

definition langchain_guard_tools ::
  "access_mode \<Rightarrow> (string \<rightharpoonup> (guard_options \<Rightarrow> guard_options)) \<Rightarrow> 'w framework_tool list \<Rightarrow>
   ('w framework_tool \<times> guard_options) list" where
  "langchain_guard_tools mode overrides tools =
    map (\<lambda>tool. (tool, (case overrides (ft_name tool) of None \<Rightarrow> (\<lambda>x. x) | Some f \<Rightarrow> f)
      (default_options\<lparr>go_access_mode := mode\<rparr>))) tools"

section \<open>CrewAI\<close>

text \<open>\<open>signature.bind\<close>: as \<open>bind_partial\<close>, and every parameter without a default is bound.\<close>

definition bind_full :: "param list \<Rightarrow> pyval list \<Rightarrow> kwargs \<Rightarrow> exn + kwargs" where
  "bind_full ps args kw =
    (case bind_partial ps args kw of Inl e \<Rightarrow> Inl e
     | Inr bound \<Rightarrow>
        if list_ex (\<lambda>p. \<not> is_var p \<and> pa_default p = None \<and> map_of bound (pa_name p) = None) ps
        then Inl (TypeError ''missing a required argument'') else Inr bound)"

definition update_kwargs :: "kwargs \<Rightarrow> pydict \<Rightarrow> kwargs" where
  "update_kwargs arguments extra =
    foldl (\<lambda>d (k, v). case k of KStr n \<Rightarrow> AList.update n v d | _ \<Rightarrow> d) arguments extra"

definition expand_kwargs :: "param list \<Rightarrow> kwargs \<Rightarrow> kwargs" where
  "expand_kwargs ps arguments =
    foldl (\<lambda>d p. if pa_kind p = VarKw then
        (let d' = filter (\<lambda>(n, v). n \<noteq> pa_name p) d
         in case map_of d (pa_name p) of Some (PDict extra) \<Rightarrow> update_kwargs d' extra | _ \<Rightarrow> d')
      else d) arguments ps"

definition crew_arguments :: "param list \<Rightarrow> pyval list \<Rightarrow> kwargs \<Rightarrow> exn + kwargs" where
  "crew_arguments ps args kw =
    (case bind_full ps args kw of Inl e \<Rightarrow> Inl e
     | Inr bound \<Rightarrow> Inr (expand_kwargs ps (apply_defaults ps bound)))"

definition crew_evaluate ::
  "'w framework_tool \<Rightarrow> 'w boundary \<Rightarrow> guard_options \<Rightarrow> kwargs \<Rightarrow> ('w world_scheme, exn, unit) eff" where
  "crew_evaluate tool b opts arguments =
    check b \<lparr>rq_tool_name = resolved_name opts tool,
       rq_operation = go_operation opts, rq_access_mode = go_access_mode opts,
       rq_value = arg_of (go_value_arg opts) arguments, rq_record_count = arg_of (go_record_count_arg opts) arguments,
       rq_correlation_id = None, rq_metadata = Some [(KStr ''crewai_tool'', PStr (ft_name tool))]\<rparr>"

definition crew_authorize ::
  "'w framework_tool \<Rightarrow> 'w boundary \<Rightarrow> guard_options \<Rightarrow> kwargs \<Rightarrow> ('w world_scheme, exn, authorization_context) eff" where
  "crew_authorize tool b opts arguments =
    authorize_call b \<lparr>rq_tool_name = resolved_name opts tool,
       rq_operation = go_operation opts, rq_access_mode = go_access_mode opts,
       rq_value = arg_of (go_value_arg opts) arguments, rq_record_count = arg_of (go_record_count_arg opts) arguments,
       rq_correlation_id = None, rq_metadata = Some [(KStr ''crewai_tool'', PStr (ft_name tool))],
       rq_arguments = map (\<lambda>(n, v). (KStr n, v)) arguments, rq_resource = go_resource opts,
       rq_tool_version = go_tool_version opts, rq_schema_hash = go_schema_hash opts,
       rq_manifest_hash = go_manifest_hash opts, rq_approval_id = None, rq_approval_state = None\<rparr>"

definition crew_run ::
  "'w framework_tool \<Rightarrow> 'w boundary \<Rightarrow> guard_options \<Rightarrow> pyval list \<Rightarrow> kwargs \<Rightarrow> ('w world_scheme, exn, pyval) eff" where
  "crew_run tool b opts args kw =
    bindE (liftE (crew_arguments (ft_signature tool) args kw)) (\<lambda>arguments.
      if b_provider b = None then thenE (crew_evaluate tool b opts arguments) (ft_run tool args kw)
      else bindE (crew_authorize tool b opts arguments) (\<lambda>authorization.
    bindE time_time (\<lambda>started_at v.
       let (outcome, v1) = (ft_run tool args kw) v;
           result = (case outcome of Inr x \<Rightarrow> x | Inl _ \<Rightarrow> PNone);
           error = (case outcome of Inl e \<Rightarrow> Some e | Inr _ \<Rightarrow> None)
       in bindE time_time (\<lambda>finished_at v2.
            case record_execution b (Some result) error started_at finished_at None (authorization, v2) of
              (Inl e, (_, v3)) \<Rightarrow> (Inl e, v3)
            | (Inr _, (_, v3)) \<Rightarrow> (outcome, v3)) v1)))"

text \<open>\<open>tool._arun\<close> exists on every CrewAI tool; without one the call raises.\<close>

definition crew_arun ::
  "'w framework_tool \<Rightarrow> 'w boundary \<Rightarrow> guard_options \<Rightarrow> pyval list \<Rightarrow> kwargs \<Rightarrow> ('w world_scheme, exn, pyval) eff" where
  "crew_arun tool b opts args kw =
    bindE (liftE (crew_arguments (ft_signature tool) args kw)) (\<lambda>arguments.
      if b_provider b = None then thenE (crew_evaluate tool b opts arguments) (case ft_arun tool of Some arun \<Rightarrow> arun args kw | None \<Rightarrow> throwE (Foreign (PyExc ''AttributeError'' ''_arun'') True))
      else bindE (crew_authorize tool b opts arguments) (\<lambda>authorization.
    bindE time_time (\<lambda>started_at v.
       let (outcome, v1) = (case ft_arun tool of Some arun \<Rightarrow> arun args kw | None \<Rightarrow> throwE (Foreign (PyExc ''AttributeError'' ''_arun'') True)) v;
           result = (case outcome of Inr x \<Rightarrow> x | Inl _ \<Rightarrow> PNone);
           error = (case outcome of Inl e \<Rightarrow> Some e | Inr _ \<Rightarrow> None)
       in bindE time_time (\<lambda>finished_at v2.
            case record_execution b (Some result) error started_at finished_at None (authorization, v2) of
              (Inl e, (_, v3)) \<Rightarrow> (Inl e, v3)
            | (Inr _, (_, v3)) \<Rightarrow> (outcome, v3)) v1)))"

text \<open>\<open>guard_tools\<close>: the override of the access mode first, then the other overrides.\<close>

definition crew_guard_tools ::
  "access_mode \<Rightarrow> (string \<rightharpoonup> (guard_options \<Rightarrow> guard_options)) \<Rightarrow> 'w framework_tool list \<Rightarrow>
   ('w framework_tool \<times> guard_options) list" where
  "crew_guard_tools mode overrides tools =
    map (\<lambda>tool. (tool, (case overrides (ft_name tool) of None \<Rightarrow> (\<lambda>x. x) | Some f \<Rightarrow> f)
      (default_options\<lparr>go_access_mode := mode\<rparr>))) tools"

section \<open>Properties\<close>

text \<open>The provider path asks \<open>check\<close> what the plain path asks.\<close>

lemma authorize_as_evaluate:
  "langchain_evaluate tool b opts kw w = (Inl e, w1) \<Longrightarrow> langchain_authorize tool b opts kw w = (Inl e, w1)"
  "crew_evaluate tool b opts arguments w = (Inl e, w1) \<Longrightarrow> crew_authorize tool b opts arguments w = (Inl e, w1)"
  by (simp_all add: langchain_evaluate_def langchain_authorize_def crew_evaluate_def crew_authorize_def
      authorize_call_def thenE_def bindE_def call_request.defs)

text \<open>C38: A refused call of a framework tool does not run the tool, for each adapter by itself and
  for both entry points of the wrapped tool: when \<open>check\<close> refuses the request made of the keyword
  arguments (LangChain) or of the bound arguments (CrewAI), with a provider or without, the call ends
  with that error in the state the check left; so it does when the provider path refuses it, for
  want of a digest or by the provider; and arguments that do not fit the signature of a CrewAI tool
  end the call before anything is asked.\<close>

theorem adapters_do_not_run_refused_tools:
  "(langchain_evaluate tool b opts kw w = (Inl e, w1) \<or>
      b_provider b \<noteq> None \<and> langchain_authorize tool b opts kw w = (Inl e, w1) \<longrightarrow>
    langchain_run tool b opts args kw w = (Inl e, w1) \<and> langchain_arun tool b opts args kw w = (Inl e, w1)) \<and>
   (\<forall>arguments. crew_arguments (ft_signature tool) args kw = Inr arguments \<and>
      (crew_evaluate tool b opts arguments w = (Inl e, w1) \<or>
       b_provider b \<noteq> None \<and> crew_authorize tool b opts arguments w = (Inl e, w1)) \<longrightarrow>
    crew_run tool b opts args kw w = (Inl e, w1) \<and> crew_arun tool b opts args kw w = (Inl e, w1)) \<and>
   (crew_arguments (ft_signature tool) args kw = Inl e \<longrightarrow>
    crew_run tool b opts args kw w = (Inl e, w) \<and> crew_arun tool b opts args kw w = (Inl e, w))"
  by (auto simp: langchain_run_def langchain_arun_def crew_run_def crew_arun_def bindE_def thenE_def
      dest: authorize_as_evaluate)

text \<open>The payments function of the samples as a tool of a framework.\<close>

definition pay_framework_tool :: "unit framework_tool" where
  "pay_framework_tool = \<lparr>ft_name = ''pay'', ft_run = (\<lambda>args kw. returnE (PStr ''sent'')), ft_arun = None,
     ft_signature = pay_signature\<rparr>"

definition pay_options :: guard_options where
  "pay_options = default_options\<lparr>go_operation := Some ''send'', go_access_mode := WRITE,
     go_value_arg := Some ''amount''\<rparr>"

lemma pay_framework_fields [simp]:
  "ft_name pay_framework_tool = ''pay''" "ft_arun pay_framework_tool = None" "ft_signature pay_framework_tool = pay_signature"
  by (simp_all add: pay_framework_tool_def)

theorem adapters_do_not_run_refused_tools_witness:
  "(\<exists>e w1. langchain_arun pay_framework_tool (engage_kill_switch sample_boundary) pay_options [] pay_kwargs sample_world = (Inl e, w1) \<and>
      v_class e = KillSwitchActive) \<and>
   (\<exists>e w1. crew_arun pay_framework_tool (engage_kill_switch sample_boundary) pay_options [] pay_kwargs sample_world = (Inl e, w1) \<and>
      v_class e = KillSwitchActive)"
proof -
  let ?b = "engage_kill_switch sample_boundary"
  have t: "tame_boundary ?b" by (rule default_sinks_tame) (simp add: engage_kill_switch_def)
  have k: "kill_switch_engaged ?b sample_world" by (simp add: kill_switch_engaged_def engage_kill_switch_def)
  have denied: "\<exists>e w1. check ?b rq sample_world = (Inl e, w1) \<and> v_class e = KillSwitchActive" for rq
    using check_outcome[OF t, of rq sample_world] local_checks_kill_switch[OF k]
    by (metis fst_conv prod.collapse exn.sel(1))
  have a: "crew_arguments (ft_signature pay_framework_tool) [] pay_kwargs = Inr pay_kwargs"
    by (simp add: crew_arguments_def bind_full_def pay_framework_tool_def pay_bound pay_defaults)
      (simp add: pay_signature_def pay_kwargs_def is_var_def expand_kwargs_def)
  obtain e w1 where "langchain_evaluate pay_framework_tool ?b pay_options pay_kwargs sample_world = (Inl e, w1)"
    "v_class e = KillSwitchActive"
    using denied unfolding langchain_evaluate_def by blast
  moreover obtain e' w2 where "crew_evaluate pay_framework_tool ?b pay_options pay_kwargs sample_world = (Inl e', w2)"
    "v_class e' = KillSwitchActive"
    using denied unfolding crew_evaluate_def by blast
  ultimately show ?thesis
    using adapters_do_not_run_refused_tools[of pay_framework_tool ?b pay_options pay_kwargs sample_world e w1 "[]"]
      adapters_do_not_run_refused_tools[of pay_framework_tool ?b pay_options pay_kwargs sample_world e' w2 "[]"] a
    by blast
qed

section \<open>What the policy sees of \<open>**kwargs\<close>\<close>

lemma map_of_update_kwargs:
  assumes "distinct (map fst extra)" "map_of extra (KStr n) = Some v"
  shows "map_of (update_kwargs d extra) n = Some v"
  using assms unfolding update_kwargs_def
proof (induction extra rule: rev_induct)
  case (snoc kv extra)
  obtain k u where kv: "kv = (k, u)" by fastforce
  show ?case
  proof (cases "k = KStr n")
    case True
    have "map_of extra (KStr n) = None"
      using snoc.prems(1) by (auto simp: kv True map_of_eq_None_iff)
    then show ?thesis using snoc.prems(2) by (simp add: kv True update_conv map_add_def)
  next
    case False
    have "map_of extra (KStr n) = Some v"
      using snoc.prems(2) False by (auto simp: kv map_add_def split: if_splits option.splits)
    then show ?thesis using snoc False by (cases k) (auto simp: kv update_conv)
  qed
qed simp

lemma expand_no_var: "\<forall>p \<in> set ps. pa_kind p \<noteq> VarKw \<Longrightarrow> expand_kwargs ps d = d"
  unfolding expand_kwargs_def by (induction ps arbitrary: d) auto

text \<open>Unlike the decorator, the CrewAI adapter shows the policy what \<open>**kwargs\<close> takes: when the
  last parameter of the tool is \<open>**kwargs\<close>, the only one, and it was bound to a dictionary
  that holds the argument named by \<open>value_arg\<close>, then that argument is the value of the
  request.\<close>

theorem crewai_judges_extra_arguments:
  assumes "ps = qs @ [p]" "pa_kind p = VarKw" "\<forall>q \<in> set qs. pa_kind q \<noteq> VarKw"
    and "map_of arguments (pa_name p) = Some (PDict extra)" "distinct (map fst extra)"
    and "go_value_arg opts = Some n" "n \<noteq> []" "map_of extra (KStr n) = Some v"
  shows "arg_of (go_value_arg opts) (expand_kwargs ps arguments) = v"
proof -
  have "expand_kwargs ps arguments = expand_kwargs [p] (expand_kwargs qs arguments)"
    by (simp add: expand_kwargs_def assms(1))
  also have "\<dots> = update_kwargs (filter (\<lambda>(n, v). n \<noteq> pa_name p) arguments) extra"
    unfolding expand_no_var[OF assms(3)] by (simp add: expand_kwargs_def assms(2,4) Let_def)
  finally show ?thesis
    using map_of_update_kwargs[OF assms(5,8)] assms(6,7) by (simp add: arg_of_def)
qed

theorem crewai_judges_extra_arguments_witness:
  "arg_of (go_value_arg pay_options)
     (expand_kwargs [\<lparr>pa_name = ''extra'', pa_kind = VarKw, pa_default = None\<rparr>]
        [(''extra'', PDict [(KStr ''amount'', PInt 900)])]) = PInt 900"
  by (rule crewai_judges_extra_arguments[of _ "[]" "\<lparr>pa_name = ''extra'', pa_kind = VarKw, pa_default = None\<rparr>"
        _ "[(KStr ''amount'', PInt 900)]" _ "''amount''"])
    (simp_all add: pay_options_def)

text \<open>The LangChain adapter shows the policy keyword arguments only: a value passed by position
  runs the tool with it, and the request has no value, so a boundary that is not strict lets
  every amount pass its maximum.\<close>

theorem positional_value_escapes_langchain:
  assumes "map_of kw n = None" "go_value_arg opts = Some n" "b_provider b = None"
    and "langchain_evaluate tool b opts kw w = (Inr (), w1)"
  shows "langchain_run tool b opts (amount # args) kw w = ft_run tool (amount # args) kw w1 \<and>
    arg_of (go_value_arg opts) kw = PNone \<and> value_ok False perm (arg_of (go_value_arg opts) kw)"
  using assms
  by (simp add: langchain_run_def thenE_def bindE_def arg_of_def value_ok_def)

theorem positional_value_escapes_langchain_witness:
  "\<exists>w'. langchain_run pay_framework_tool (sample_boundary\<lparr>b_strict_limits := False\<rparr>) pay_options
     [PInt 1000000, PStr ''a1''] [] sample_world = (Inr (PStr ''sent''), w')"
proof -
  let ?b = "sample_boundary\<lparr>b_strict_limits := False\<rparr>"
  have "fst (langchain_evaluate pay_framework_tool ?b pay_options [] sample_world) = Inr ()"
    unfolding langchain_evaluate_def
    by (rule sample_allows) (simp_all add: pay_options_def default_options_def resolved_name_def arg_of_def value_ok_def)
  then obtain w1 where c: "langchain_evaluate pay_framework_tool ?b pay_options [] sample_world = (Inr (), w1)"
    by (metis prod.collapse)
  have "langchain_run pay_framework_tool ?b pay_options (PInt 1000000 # [PStr ''a1'']) [] sample_world =
      ft_run pay_framework_tool (PInt 1000000 # [PStr ''a1'']) [] w1"
    using positional_value_escapes_langchain[of "[]" "''amount''" pay_options ?b pay_framework_tool
        sample_world w1 "PInt 1000000" "[PStr ''a1'']" payments] c
    by (simp add: pay_options_def)
  then show ?thesis by (simp add: pay_framework_tool_def returnE_def)
qed

end
