(* ===== verification/Frozen_Store.thy ===== *)
theory Frozen_Store
  imports Decorators Canonical_Form
begin

text \<open>
  What a frozen call holds when arguments are mutable. The other theories pass arguments as
  values; here they are references into a store of lists and dictionaries, as in Python.
  \<open>dict(call_kwargs)\<close> in \<open>decorators.py\<close> and \<open>FrozenToolCall\<close> copy the references, so the
  frozen call, the provider and the tool share the objects below.
\<close>

section \<open>The store\<close>

text \<open>A reference is a value that nothing can change or the address of an object. A list of objects is
  the store, the position the address; objects are not moved.\<close>

datatype pyref = Imm pyval | At nat

datatype pyobject = ObjList "pyref list" | ObjDict "(pykey \<times> pyref) list"

record object_world = world +
  objects :: "pyobject list"

definition object_at :: "pyobject list \<Rightarrow> nat \<rightharpoonup> pyobject" where
  "object_at os a = (if a < length os then Some (os ! a) else None)"

primrec refs_of :: "pyobject \<Rightarrow> pyref list" where
  "refs_of (ObjList rs) = rs"
| "refs_of (ObjDict d) = map snd d"

primrec rebuild :: "pyobject \<Rightarrow> pyval list \<Rightarrow> pyval" where
  "rebuild (ObjList rs) vs = PList vs"
| "rebuild (ObjDict d) vs = PDict (zip (map fst d) vs)"

text \<open>The value a reference stands for now; \<open>None\<close> when it is not found within \<open>n\<close> objects.\<close>

fun read_ref :: "nat \<Rightarrow> pyobject list \<Rightarrow> pyref \<Rightarrow> pyval option" where
  "read_ref n os (Imm v) = Some v"
| "read_ref 0 os (At a) = None"
| "read_ref (Suc n) os (At a) = (case object_at os a of None \<Rightarrow> None
     | Some obj \<Rightarrow> map_option (rebuild obj) (those (map (read_ref n os) (refs_of obj))))"

text \<open>As many steps as there are objects are enough: what takes more never ends, an object that
  contains itself.\<close>

definition value_now :: "pyobject list \<Rightarrow> pyref \<Rightarrow> pyval option" where
  "value_now os r = read_ref (length os) os r"

section \<open>The guarded call on references\<close>

definition new_dict :: "(pykey \<times> pyref) list \<Rightarrow> ('w object_world_scheme, exn, nat) eff" where
  "new_dict d w = (Inr (length (objects w)), w\<lparr>objects := objects w @ [ObjDict d]\<rparr>)"

text \<open>The items of the dictionary at an address, as \<open>json.dumps\<close> reaches them: it raises on one
  that contains itself.\<close>

definition arguments_now :: "nat \<Rightarrow> ('w object_world_scheme, exn, pydict) eff" where
  "arguments_now a w = ((case value_now (objects w) (At a) of
      Some (PDict d) \<Rightarrow> Inr d
    | _ \<Rightarrow> Inl (Foreign (PyExc ''ValueError'' ''Circular reference detected'') True)), w)"

text \<open>\<open>authorize_call\<close> as the decorator calls it. The frozen call is its fields and the address
  of its arguments, which the provider gets too.\<close>

definition on_address ::
  "'w object_world_ext boundary \<Rightarrow> (nat \<Rightarrow> 'w object_world_ext provider) option \<Rightarrow> nat \<Rightarrow>
   'w object_world_ext boundary" where
  "on_address b P a = b\<lparr>b_provider := map_option (\<lambda>p. p a) P\<rparr>"

definition authorize_stored ::
  "'w object_world_ext boundary \<Rightarrow> (nat \<Rightarrow> 'w object_world_ext provider) option \<Rightarrow> authorize_request \<Rightarrow>
   (pykey \<times> pyref) list \<Rightarrow> ('w object_world_scheme, exn, nat \<times> authorization_context) eff" where
  "authorize_stored b P rq call_kwargs =
    bindE (new_dict call_kwargs) (\<lambda>a.
    thenE (check (on_address b P a) (call_request.truncate rq))
   (bindE uuid4 (\<lambda>decision_id.
    bindE (arguments_now a) (\<lambda>d.
    bindE (liftE (of_py (freeze_with_digest (frozen_of (on_address b P a) (rq\<lparr>rq_arguments := d\<rparr>))))) (\<lambda>frozen.
    bindE (authorize_frozen (on_address b P a) (rq\<lparr>rq_arguments := d\<rparr>)
        (local_allow (on_address b P a) (rq\<lparr>rq_arguments := d\<rparr>) decision_id) frozen) (\<lambda>authorization.
      returnE (a, authorization)))))))"

text \<open>What \<open>frozen_call.arguments\<close> shows to a reader at a later time: the frozen call has the address
  of its dictionary, not a value.\<close>

definition frozen_now :: "pyobject list \<Rightarrow> nat \<Rightarrow> frozen_tool_call \<Rightarrow> frozen_tool_call option" where
  "frozen_now os a call = (case value_now os (At a) of
     Some (PDict d) \<Rightarrow> Some (call\<lparr>fc_arguments := d\<rparr>) | _ \<Rightarrow> None)"

text \<open>The decorated function, on the references themselves.\<close>

definition run_stored ::
  "'w object_world_ext boundary \<Rightarrow> (nat \<Rightarrow> 'w object_world_ext provider) option \<Rightarrow> authorize_request \<Rightarrow>
   ((pykey \<times> pyref) list \<Rightarrow> ('w object_world_scheme, exn, pyval) eff) \<Rightarrow>
   (pykey \<times> pyref) list \<Rightarrow> ('w object_world_scheme, exn, pyval) eff" where
  "run_stored b P rq func call_kwargs =
    bindE (authorize_stored b P rq call_kwargs) (\<lambda>(a, authorization).
      recorded_call (on_address b P a) (\<lambda>_ _. func call_kwargs) authorization
        (rq_correlation_id rq) [] [])"

section \<open>Reading\<close>

lemma those_Some_iff: "those xs = Some ys \<longleftrightarrow> xs = map Some ys"
  by (induction xs arbitrary: ys) (auto split: option.splits)

lemma those_map_mono:
  assumes "those (map f xs) = Some ys" "\<And>x y. x \<in> set xs \<Longrightarrow> f x = Some y \<Longrightarrow> g x = Some y"
  shows "those (map g xs) = Some ys"
proof -
  from assms(1) have e: "map f xs = map Some ys" by (simp add: those_Some_iff)
  have "map g xs = map Some ys"
    using e assms(2) by (induction xs arbitrary: ys) auto
  then show ?thesis by (simp add: those_Some_iff)
qed

lemma those_map_defined:
  "those (map f xs) \<noteq> None \<longleftrightarrow> (\<forall>x \<in> set xs. f x \<noteq> None)"
  by (induction xs) (auto split: option.splits)

lemma read_ref_mono: "read_ref n os r = Some v \<Longrightarrow> n \<le> m \<Longrightarrow> read_ref m os r = Some v"
proof (induction n os r arbitrary: m v rule: read_ref.induct)
  case (3 n os a)
  then obtain k where m: "m = Suc k" "n \<le> k" by (cases m) auto
  from 3(2) obtain obj vs where obj: "object_at os a = Some obj"
    and vs: "those (map (read_ref n os) (refs_of obj)) = Some vs" "v = rebuild obj vs"
    by (auto split: option.splits)
  have "those (map (read_ref k os) (refs_of obj)) = Some vs"
    by (rule those_map_mono[OF vs(1)]) (use 3(1)[OF obj] m(2) in blast)
  then show ?case using obj vs(2) m(1) by simp
qed auto

text \<open>The objects that \<open>n\<close> steps read: each further step reads a new one or none.\<close>

definition found :: "pyobject list \<Rightarrow> nat \<Rightarrow> nat set" where
  "found os n = {a. read_ref n os (At a) \<noteq> None}"

lemma read_all_refs:
  "(\<forall>r \<in> set rs. read_ref n os r \<noteq> None) \<longleftrightarrow> (\<forall>b. At b \<in> set rs \<longrightarrow> b \<in> found os n)"
proof (induction rs)
  case (Cons r rs)
  have "read_ref n os r \<noteq> None \<longleftrightarrow> (\<forall>b. r = At b \<longrightarrow> b \<in> found os n)" by (cases r) (simp_all add: found_def)
  then show ?case using Cons.IH by auto
qed simp

lemma found_Suc: "a \<in> found os (Suc n) \<longleftrightarrow>
    (\<exists>obj. object_at os a = Some obj \<and> (\<forall>b. At b \<in> set (refs_of obj) \<longrightarrow> b \<in> found os n))"
proof (cases "object_at os a")
  case None
  then show ?thesis by (simp add: found_def)
next
  case (Some obj)
  have "a \<in> found os (Suc n) \<longleftrightarrow> those (map (read_ref n os) (refs_of obj)) \<noteq> None"
    using Some by (simp add: found_def)
  then show ?thesis using Some by (simp only: those_map_defined read_all_refs option.inject ex_simps simp_thms)
qed

lemma found_mono:
  assumes "n \<le> m"
  shows "found os n \<subseteq> found os m"
proof
  fix a
  assume "a \<in> found os n"
  then obtain v where "read_ref n os (At a) = Some v" by (auto simp: found_def)
  then have "read_ref m os (At a) = Some v" using assms by (rule read_ref_mono)
  then show "a \<in> found os m" by (simp add: found_def)
qed

lemma found_store: "found os n \<subseteq> {..<length os}"
  by (cases n) (auto simp: found_def object_at_def split: if_splits)

lemma found_stops: "found os (Suc n) = found os n \<Longrightarrow> n \<le> m \<Longrightarrow> found os m = found os n"
proof (induction m)
  case (Suc m)
  then show ?case
    by (cases "n = Suc m") (auto simp: found_Suc set_eq_iff)
qed simp

lemma found_grows: "n \<le> card (found os n) \<or> found os (Suc n) = found os n"
proof (induction n)
  case (Suc n)
  show ?case
  proof (cases "found os (Suc n) = found os n")
    case True
    then show ?thesis using found_stops[OF True, of "Suc (Suc n)"] by simp
  next
    case False
    have "finite (found os (Suc n))" using found_store finite_subset by blast
    then have "card (found os n) < card (found os (Suc n))"
      using found_mono[of n "Suc n" os] False by (metis le_SucI order_refl psubsetI psubset_card_mono)
    then show ?thesis using Suc False by auto
  qed
qed simp

lemma found_enough: "found os m \<subseteq> found os (length os)"
proof (cases "found os (Suc (length os)) = found os (length os)")
  case True
  show ?thesis
    using found_stops[OF True, of m] found_mono[of m "length os" os] by (metis nat_le_linear order_refl)
next
  case False
  then have "length os \<le> card (found os (length os))" using found_grows[of "length os" os] by blast
  then have "found os (length os) = {..<length os}"
    using found_store[of os "length os"] by (simp add: card_seteq)
  then show ?thesis using found_store by simp
qed

text \<open>So a value is found exactly when some number of steps finds it.\<close>

lemma value_now_iff: "value_now os r = Some v \<longleftrightarrow> (\<exists>n. read_ref n os r = Some v)"
proof
  assume "\<exists>n. read_ref n os r = Some v"
  then obtain n where n: "read_ref n os r = Some v" ..
  show "value_now os r = Some v"
  proof (cases r)
    case (At a)
    then have "a \<in> found os (length os)" using n found_enough[of os n] by (auto simp: found_def)
    then obtain v' where v': "read_ref (length os) os r = Some v'" using At by (auto simp: found_def)
    have "v' = v"
      using read_ref_mono[OF n, of "max n (length os)"] read_ref_mono[OF v', of "max n (length os)"] by simp
    then show ?thesis using v' by (simp add: value_now_def)
  qed (use n in \<open>simp add: value_now_def\<close>)
qed (auto simp: value_now_def)

section \<open>What a computation leaves alone\<close>

definition part :: "nat set \<Rightarrow> 'w object_world_scheme \<Rightarrow> nat \<rightharpoonup> pyobject" where
  "part X w = object_at (objects w) |` X"

text \<open>\<open>X\<close> holds every object reachable from the references.\<close>

definition closed_in :: "pyobject list \<Rightarrow> nat set \<Rightarrow> pyref list \<Rightarrow> bool" where
  "closed_in os X rs \<longleftrightarrow> X \<subseteq> {..<length os} \<and> (\<forall>b. At b \<in> set rs \<longrightarrow> b \<in> X) \<and>
     (\<forall>a \<in> X. \<forall>b. At b \<in> set (refs_of (os ! a)) \<longrightarrow> b \<in> X)"

text \<open>Computations that leave \<open>X\<close> alone do not change what the references stand for.\<close>

lemma read_frame:
  assumes "object_at os |` X = object_at os' |` X" "closed_in os X rs" "\<And>b. r = At b \<Longrightarrow> b \<in> X"
  shows "read_ref n os' r = read_ref n os r"
  using assms(3)
proof (induction n arbitrary: r)
  case 0
  then show ?case by (cases r) simp_all
next
  case (Suc n)
  show ?case
  proof (cases r)
    case (At b)
    then have b: "b \<in> X" "b < length os" using Suc.prems assms(2) by (auto simp: closed_in_def)
    then have o: "object_at os b = Some (os ! b)" "object_at os' b = Some (os ! b)"
      using fun_cong[OF assms(1), of b] by (simp_all add: object_at_def)
    have "read_ref n os' q = read_ref n os q" if "q \<in> set (refs_of (os ! b))" for q
      by (rule Suc.IH) (use that b(1) assms(2) in \<open>auto simp: closed_in_def\<close>)
    then have "map (read_ref n os') (refs_of (os ! b)) = map (read_ref n os) (refs_of (os ! b))" by simp
    then show ?thesis using o At by (simp del: map_eq_conv)
  qed simp
qed

lemma value_now_frame:
  assumes "object_at os |` X = object_at os' |` X" "closed_in os X rs" "r \<in> set rs"
  shows "value_now os' r = value_now os r"
proof -
  have "read_ref n os' r = read_ref n os r" for n
    by (rule read_frame[OF assms(1,2)]) (use assms(2,3) in \<open>auto simp: closed_in_def\<close>)
  then have "value_now os' r = Some v \<longleftrightarrow> value_now os r = Some v" for v by (simp add: value_now_iff)
  then show ?thesis by (metis option.exhaust)
qed

text \<open>The values of keyword arguments.\<close>

definition kwargs_now :: "pyobject list \<Rightarrow> (pykey \<times> pyref) list \<Rightarrow> pydict option" where
  "kwargs_now os kw = map_option (zip (map fst kw)) (those (map (value_now os) (map snd kw)))"

lemma kwargs_now_frame:
  assumes "object_at os |` X = object_at os' |` X" "closed_in os X (map snd kw)"
  shows "kwargs_now os' kw = kwargs_now os kw"
proof -
  have "map (value_now os') (map snd kw) = map (value_now os) (map snd kw)"
    using value_now_frame[OF assms] by (intro map_cong refl) blast
  then show ?thesis by (simp only: kwargs_now_def)
qed

lemma closed_new:
  assumes "closed_in os X (map snd kw)"
  shows "closed_in (os @ [ObjDict kw]) (insert (length os) X) [At (length os)]"
  using assms by (auto simp: closed_in_def nth_append)

lemma restrict_new:
  assumes "X \<subseteq> {..<length os}"
  shows "object_at os |` X = object_at (os @ [obj]) |` X"
  using assms by (auto simp: restrict_map_def object_at_def fun_eq_iff nth_append)

text \<open>The new dictionary stands for the values of the arguments.\<close>

lemma value_of_new:
  assumes "closed_in os X (map snd kw)"
  shows "value_now (os @ [ObjDict kw]) (At (length os)) = map_option PDict (kwargs_now os kw)"
proof -
  have x: "X \<subseteq> {..<length os}" using assms by (simp add: closed_in_def)
  have "read_ref n (os @ [ObjDict kw]) r = read_ref n os r" if "r \<in> set (map snd kw)" for n r
    by (rule read_frame[OF restrict_new[OF x] assms]) (use that assms in \<open>auto simp: closed_in_def\<close>)
  then have "map (read_ref (length os) (os @ [ObjDict kw])) (map snd kw) = map (value_now os) (map snd kw)"
    by (intro map_cong refl) (simp add: value_now_def)
  moreover have "object_at (os @ [ObjDict kw]) (length os) = Some (ObjDict kw)" by (simp add: object_at_def)
  moreover have "rebuild (ObjDict kw) = PDict \<circ> zip (map fst kw)" by (simp add: fun_eq_iff)
  ultimately show ?thesis
    by (simp add: value_now_def kwargs_now_def option.map_comp comp_def del: map_map map_eq_conv)
qed

lemma part_simps [simp]:
  "part X (w\<lparr>wall_ix := n\<rparr>) = part X w" "part X (w\<lparr>uuid_ix := n\<rparr>) = part X w" "part X (w\<lparr>log := l\<rparr>) = part X w"
  "part X (w\<lparr>mono_ix := n\<rparr>) = part X w" "part X (w\<lparr>limiters := m\<rparr>) = part X w"
  by (simp_all add: part_def)

lemma part_subset: "part X w = part X w' \<Longrightarrow> Y \<subseteq> X \<Longrightarrow> part Y w = part Y w'"
  unfolding part_def by (metis restrict_restrict inf.absorb2)

section \<open>The steps of a guarded call\<close>

lemma keeps_make_authorization [keeps_intros]:
  "(\<And>w n. g (w\<lparr>uuid_ix := n\<rparr>) = g w) \<Longrightarrow> keeps g (make_authorization ld fc grant i)"
  unfolding make_authorization_def Let_def by (intro keeps_intros)

lemma keeps_ask_provider:
  assumes "\<And>fc ld. keeps g (prov_authorize p fc ld)" "\<And>w l. g (w\<lparr>log := l\<rparr>) = g w"
  shows "keeps g (ask_provider b p frozen ld)"
proof (rule keepsI)
  fix w
  obtain r w' where r: "prov_authorize p frozen ld w = (r, w')" by fastforce
  have k: "keeps g (thenE (log_line boundary_logger log_WARNING t) (returnE x))" for t and x :: "provider_grant option"
    using assms(2) by (intro keeps_intros)
  have "g w' = g w" by (rule keepsE[OF assms(1) r])
  then show "g (snd (ask_provider b p frozen ld w)) = g w"
    using keepsD[OF k] r by (simp add: ask_provider_def split: sum.splits)
qed

lemma keeps_heed_denial [keeps_intros]:
  "(\<And>w l. g (w\<lparr>log := l\<rparr>) = g w) \<Longrightarrow> keeps g (heed_denial b frozen grant)"
  unfolding heed_denial_def by (auto split: option.splits intro!: keeps_intros)

lemma keeps_authorize_frozen:
  assumes "\<And>p fc ld. b_provider b = Some p \<Longrightarrow> keeps g (prov_authorize p fc ld)"
    and "\<And>s ev. s \<in> set (b_audit b) \<Longrightarrow> keeps g (s ev)"
    and "\<And>w n. g (w\<lparr>wall_ix := n\<rparr>) = g w" "\<And>w n. g (w\<lparr>uuid_ix := n\<rparr>) = g w" "\<And>w l. g (w\<lparr>log := l\<rparr>) = g w"
  shows "keeps g (authorize_frozen b rq ld frozen)"
proof (cases "b_provider b")
  case None
  then show ?thesis using assms(4) by (simp add: authorize_frozen_def keeps_make_authorization)
next
  case (Some p)
  have "keeps g (ask_provider b p frozen ld)" by (rule keeps_ask_provider) (use assms Some in auto)
  then show ?thesis
    unfolding authorize_frozen_def Some option.case
    by (intro keeps_bindE keeps_thenE keeps_audit_record keeps_heed_denial keeps_make_authorization)
      (use assms in auto)
qed

lemma authorize_frozen_call:
  fixes w :: "'w world_scheme"
  assumes "authorize_frozen b rq ld frozen w = (Inr a, w')"
  shows "ac_frozen_call a = frozen"
proof -
  have "\<exists>grant v (v' :: 'w world_scheme). make_authorization ld frozen grant [] v = (Inr a, v')"
  proof (cases "b_provider b")
    case None
    then show ?thesis using assms unfolding authorize_frozen_def by auto
  next
    case (Some p)
    then show ?thesis using assms by (auto simp: authorize_frozen_def bindE_Inr_iff thenE_Inr_iff)
  qed
  then show ?thesis by (auto simp: make_authorization_fresh)
qed

lemma arguments_now_Inr:
  "arguments_now a w = (Inr d, w') \<longleftrightarrow> w' = w \<and> value_now (objects w) (At a) = Some (PDict d)"
  by (auto simp: arguments_now_def split: option.splits pyval.splits)

lemma on_address_fields [simp]:
  "b_audit (on_address b P a) = b_audit b" "b_agent_name (on_address b P a) = b_agent_name b"
  "b_provider (on_address b P a) = map_option (\<lambda>p. p a) P"
  by (simp_all add: on_address_def)

definition with_dict :: "(pykey \<times> pyref) list \<Rightarrow> 'w object_world_scheme \<Rightarrow> 'w object_world_scheme" where
  "with_dict kw w = w\<lparr>objects := objects w @ [ObjDict kw]\<rparr>"

lemma authorize_stored_Inr:
  assumes "authorize_stored b P rq kw w = (Inr (a, auth), w1)"
  obtains w2 d h ld frozen where "a = length (objects w)"
    and "check (on_address b P a) (call_request.truncate rq) (with_dict kw w) = (Inr (), w2)"
    and "value_now (objects w2) (At a) = Some (PDict d)"
    and "frozen = (frozen_of (on_address b P a) (rq\<lparr>rq_arguments := d\<rparr>))\<lparr>fc_call_digest := h\<rparr>"
    and "call_digest frozen = Inr h" and "ac_frozen_call auth = frozen"
    and "authorize_frozen (on_address b P a) (rq\<lparr>rq_arguments := d\<rparr>) ld frozen (w2\<lparr>uuid_ix := Suc (uuid_ix w2)\<rparr>) = (Inr auth, w1)"
proof -
  have a: "a = length (objects w)"
    using assms by (auto simp: authorize_stored_def bindE_Inr_iff thenE_Inr_iff new_dict_def)
  obtain w2 d where c: "check (on_address b P a) (call_request.truncate rq) (with_dict kw w) = (Inr (), w2)"
      "value_now (objects w2) (At a) = Some (PDict d)"
    and k: "bindE (liftE (of_py (freeze_with_digest (frozen_of (on_address b P a) (rq\<lparr>rq_arguments := d\<rparr>)))))
        (authorize_frozen (on_address b P a) (rq\<lparr>rq_arguments := d\<rparr>)
          (local_allow (on_address b P a) (rq\<lparr>rq_arguments := d\<rparr>) (uuids w2 (uuid_ix w2))))
        (w2\<lparr>uuid_ix := Suc (uuid_ix w2)\<rparr>) = (Inr auth, w1)"
    using assms unfolding authorize_stored_def
    by (auto simp: bindE_Inr_iff thenE_Inr_iff new_dict_def uuid4_def arguments_now_Inr with_dict_def)
  from k obtain h where h: "call_digest (frozen_of (on_address b P a) (rq\<lparr>rq_arguments := d\<rparr>)) = Inr h"
    and f: "authorize_frozen (on_address b P a) (rq\<lparr>rq_arguments := d\<rparr>)
        (local_allow (on_address b P a) (rq\<lparr>rq_arguments := d\<rparr>) (uuids w2 (uuid_ix w2)))
        ((frozen_of (on_address b P a) (rq\<lparr>rq_arguments := d\<rparr>))\<lparr>fc_call_digest := h\<rparr>)
        (w2\<lparr>uuid_ix := Suc (uuid_ix w2)\<rparr>) = (Inr auth, w1)"
    by (auto simp: bindE_Inr_iff freeze_with_digest_Inr)
  have "call_digest ((frozen_of (on_address b P a) (rq\<lparr>rq_arguments := d\<rparr>))\<lparr>fc_call_digest := h\<rparr>) = Inr h"
    using h by (simp add: call_digest_def call_binding_def)
  then show thesis
    using that[OF a c refl _ _ f] authorize_frozen_call[OF f] by blast
qed

text \<open>When the checks leave the arguments alone, the call is the one on their values: the other
  theories may pass values.\<close>

lemma value_after_checks:
  assumes "closed_in (objects w) X (map snd kw)"
    and "keeps (part (insert (length (objects w)) X)) (m :: ('w object_world_scheme, exn, unit) eff)"
    and "m (with_dict kw w) = (r, w2)"
  shows "value_now (objects w2) (At (length (objects w))) = map_option PDict (kwargs_now (objects w) kw)"
proof -
  have "part (insert (length (objects w)) X) w2 = part (insert (length (objects w)) X) (with_dict kw w)"
    by (rule keepsE[OF assms(2,3)])
  then have "object_at (objects w @ [ObjDict kw]) |` insert (length (objects w)) X =
      object_at (objects w2) |` insert (length (objects w)) X"
    by (simp add: part_def with_dict_def)
  from value_now_frame[OF this closed_new[OF assms(1)]] show ?thesis by (simp add: value_of_new[OF assms(1)])
qed

lemma stored_call_on_values:
  fixes w :: "'w object_world_scheme"
  assumes "closed_in (objects w) X (map snd kw)" "kwargs_now (objects w) kw = Some d"
    and "keeps (part (insert (length (objects w)) X)) (check (on_address b P (length (objects w))) (call_request.truncate rq))"
  shows "authorize_stored b P rq kw w =
    map_prod (map_sum id (Pair (length (objects w)))) id
      (authorize_call (on_address b P (length (objects w))) (rq\<lparr>rq_arguments := d\<rparr>) (with_dict kw w))"
proof -
  let ?b = "on_address b P (length (objects w))"
  obtain r w2 where c: "check ?b (call_request.truncate rq) (with_dict kw w) = (r, w2)" by fastforce
  have v: "value_now (objects w2) (At (length (objects w))) = Some (PDict d)"
    using value_after_checks[OF assms(1,3) c] assms(2) by simp
  have n: "new_dict kw w = (Inr (length (objects w)), with_dict kw w)" by (simp add: new_dict_def with_dict_def)
  have t: "call_request.truncate (rq\<lparr>rq_arguments := d\<rparr>) = call_request.truncate rq"
    by (simp add: call_request.defs)
  show ?thesis
    using v by (cases r) (auto simp: authorize_stored_def authorize_call_def n t c bindE_def thenE_def uuid4_def
        arguments_now_def liftE_def returnE_def split: prod.splits sum.splits)
qed

text \<open>What is left alone up to the return of the authorization.\<close>

lemma stored_arguments:
  fixes w :: "'w object_world_scheme"
  assumes "authorize_stored b P rq kw w = (Inr (a, auth), w1)" "closed_in (objects w) X (map snd kw)"
    and "keeps (part (insert (length (objects w)) X)) (check (on_address b P (length (objects w))) (call_request.truncate rq))"
    and "Y \<subseteq> insert (length (objects w)) X"
    and "\<And>p n fc ld. P = Some p \<Longrightarrow> keeps (part Y) (prov_authorize (p n) fc ld)"
    and "\<And>s ev. s \<in> set (b_audit b) \<Longrightarrow> keeps (part Y) (s ev)"
  shows "kwargs_now (objects w) kw = Some (fc_arguments (ac_frozen_call auth))"
    and "part Y w1 = part Y (with_dict kw w)"
    and "call_digest (ac_frozen_call auth) = Inr (fc_call_digest (ac_frozen_call auth))"
proof -
  obtain w2 d h ld frozen where a: "a = length (objects w)"
    and c: "check (on_address b P a) (call_request.truncate rq) (with_dict kw w) = (Inr (), w2)"
    and v: "value_now (objects w2) (At a) = Some (PDict d)"
    and f: "frozen = (frozen_of (on_address b P a) (rq\<lparr>rq_arguments := d\<rparr>))\<lparr>fc_call_digest := h\<rparr>"
      "call_digest frozen = Inr h" "ac_frozen_call auth = frozen"
    and k: "authorize_frozen (on_address b P a) (rq\<lparr>rq_arguments := d\<rparr>) ld frozen (w2\<lparr>uuid_ix := Suc (uuid_ix w2)\<rparr>) =
      (Inr auth, w1)"
    by (rule authorize_stored_Inr[OF assms(1)])
  have "kwargs_now (objects w) kw = Some d"
    using value_after_checks[OF assms(2,3) c[unfolded a]] v a by auto
  then show "kwargs_now (objects w) kw = Some (fc_arguments (ac_frozen_call auth))"
    using f by (simp add: frozen_of_def)
  show "call_digest (ac_frozen_call auth) = Inr (fc_call_digest (ac_frozen_call auth))" using f by simp
  have kp: "keeps (part Y) (authorize_frozen (on_address b P a) (rq\<lparr>rq_arguments := d\<rparr>) ld frozen)"
    by (rule keeps_authorize_frozen) (use assms(5,6) in auto)
  have "part Y w1 = part Y w2" using keepsE[OF kp, OF k] by simp
  also have "\<dots> = part Y (with_dict kw w)"
    by (rule part_subset[OF _ assms(4)]) (rule keepsE[OF assms(3), OF c[unfolded a]])
  finally show "part Y w1 = part Y (with_dict kw w)" .
qed

text \<open>An argument that contains itself has no value, and the digest cannot be taken.\<close>

lemma circular_arguments_raise:
  fixes w :: "'w object_world_scheme"
  assumes "closed_in (objects w) X (map snd kw)" "kwargs_now (objects w) kw = None"
    and "keeps (part (insert (length (objects w)) X)) (check (on_address b P (length (objects w))) (call_request.truncate rq))"
    and "check (on_address b P (length (objects w))) (call_request.truncate rq) (with_dict kw w) = (Inr (), w2)"
  shows "authorize_stored b P rq kw w =
    (Inl (Foreign (PyExc ''ValueError'' ''Circular reference detected'') True), w2\<lparr>uuid_ix := Suc (uuid_ix w2)\<rparr>)"
proof -
  have v: "value_now (objects w2) (At (length (objects w))) = None"
    using value_after_checks[OF assms(1,3,4)] assms(2) by simp
  have n: "new_dict kw w = (Inr (length (objects w)), with_dict kw w)" by (simp add: new_dict_def with_dict_def)
  show ?thesis using v by (simp add: authorize_stored_def n assms(4) bindE_def thenE_def uuid4_def arguments_now_def)
qed

section \<open>Concrete calls\<close>

text \<open>A list \<open>rows = [1]\<close> as argument of a guarded call.\<close>

definition rows_world :: object_world where
  "rows_world = world.extend sample_world (object_world.fields [ObjList [Imm (PInt 1)]])"

definition rows_kwargs :: "(pykey \<times> pyref) list" where
  "rows_kwargs = [(KStr ''rows'', At 0)]"

definition granting :: "nat \<Rightarrow> unit object_world_ext provider" where
  "granting a = \<lparr>prov_authorize = (\<lambda>fc ld. returnE (Some sample_grant)), prov_record = (\<lambda>g ex. returnE None)\<rparr>"

lemma rows_objects [simp]: "objects rows_world = [ObjList [Imm (PInt 1)]]"
  by (simp add: rows_world_def object_world.defs world.defs)

lemma rows_closed: "closed_in (objects rows_world) {0} (map snd rows_kwargs)"
  by (simp add: closed_in_def rows_kwargs_def)

lemma rows_now: "kwargs_now (objects rows_world) rows_kwargs = Some [(KStr ''rows'', PList [PInt 1])]"
  by (simp add: kwargs_now_def rows_kwargs_def value_now_def object_at_def)

lemma quiet_sinks_keep: "s \<in> set (b_audit (quiet_boundary p)) \<Longrightarrow> keeps (part X) (s ev)"
  by (auto simp: default_sinks_def logging_sink_emit_def Let_def intro!: keeps_intros)

lemma quiet_keeps_part: "keeps (part X) (check (on_address (quiet_boundary p) P a) rq)"
proof (rule keeps_check)
  let ?b = "on_address (quiet_boundary p) P a"
  show "keeps (part X) (local_checks ?b (context_of ?b rq))"
    by (rule keeps_local_checks)
      (simp_all add: on_address_def keeps_def check_and_record_def bindE_def time_monotonic_def split: prod.splits)
  show "keeps (part X) (s ev)" if "s \<in> set (b_audit ?b)" for s ev
    using quiet_sinks_keep[of s p] that by simp
qed simp_all

lemma granting_keeps: "Some granting = Some p \<Longrightarrow> keeps (part X) (prov_authorize (p n) fc ld)"
  by (auto simp: granting_def intro!: keeps_intros)

lemma digest_of_json:
  assumes "json_val (PDict (fc_arguments c))"
  shows "\<exists>t. canonicalize (call_binding c) = Inr t \<and> call_digest c = Inr (sha256_hex (utf8 t))"
  using dumps_json_val_ok[OF json_val_binding[OF assms], of canonical_opts]
  by (auto simp: canonicalize_def call_digest_def digest_of_def sha256_def)

lemma rows_authorized:
  "\<exists>auth w1. authorize_stored (quiet_boundary None) (Some granting) sample_call rows_kwargs rows_world = (Inr (1, auth), w1)"
proof -
  let ?d = "[(KStr ''rows'', PList [PInt 1])]"
  let ?b = "on_address (quiet_boundary None) (Some granting) 1"
  let ?rq = "sample_call\<lparr>rq_arguments := ?d\<rparr>"
  have b: "?b = quiet_boundary (Some (granting 1))" by (simp add: on_address_def quiet_boundary_def)
  have f: "fst (check ?b (call_request.truncate ?rq) v) = Inr ()" for v
    unfolding b by (rule quiet_boundary_allows) (simp_all add: sample_call_def send_request_def call_request.defs)
  have "json_val (PDict (fc_arguments (frozen_of ?b ?rq)))" by (simp add: frozen_of_def str_of_nat.simps)
  then obtain h where h: "call_digest (frozen_of ?b ?rq) = Inr h" using digest_of_json by blast
  have "\<exists>a w'. authorize_call ?b ?rq (with_dict rows_kwargs rows_world) = (Inr a, w') \<and> True"
  proof (rule authorize_call_returns[OF _ f h])
    show "tame_boundary ?b" unfolding b by (rule quiet_boundary_tame)
    show "\<exists>grant v1 v2. ask_provider ?b p fc ld v = (Inr grant, v1) \<and> heed_denial ?b fc grant v1 = (Inr (), v2) \<and> True"
      if "b_provider ?b = Some p" for p fc ld v
      using that by (auto simp: granting_def ask_provider_def returnE_def heed_denial_def sample_grant_def)
  qed simp
  then obtain auth w' where "authorize_call ?b ?rq (with_dict rows_kwargs rows_world) = (Inr auth, w')" by blast
  then show ?thesis
    using stored_call_on_values[OF rows_closed rows_now quiet_keeps_part, of None "Some granting" sample_call] by auto
qed

section \<open>Properties\<close>

text \<open>C22: The tool runs on the arguments whose digest the provider saw: when checks, provider and
  sinks leave the objects reachable from the arguments alone, the references the function gets
  stand, in the world in which it is dispatched, for the arguments of the frozen call, and
  the digest is theirs. Arguments without mutable parts (\<open>X\<close> empty) need nothing of the provider.\<close>

theorem tool_gets_the_digested_arguments:
  fixes w :: "'w object_world_scheme"
  assumes "authorize_stored b P rq kw w = (Inr (a, auth), w1)" "closed_in (objects w) X (map snd kw)"
    and "keeps (part (insert (length (objects w)) X)) (check (on_address b P (length (objects w))) (call_request.truncate rq))"
    and "\<And>p n fc ld. P = Some p \<Longrightarrow> keeps (part X) (prov_authorize (p n) fc ld)"
    and "\<And>s ev. s \<in> set (b_audit b) \<Longrightarrow> keeps (part X) (s ev)"
  shows "run_stored b P rq func kw w =
      recorded_call (on_address b P a) (\<lambda>_ _. func kw) auth (rq_correlation_id rq) [] [] w1 \<and>
    kwargs_now (objects w1) kw = Some (fc_arguments (ac_frozen_call auth)) \<and>
    call_digest (ac_frozen_call auth) = Inr (fc_call_digest (ac_frozen_call auth))"
proof -
  have "run_stored b P rq func kw w =
      recorded_call (on_address b P a) (\<lambda>_ _. func kw) auth (rq_correlation_id rq) [] [] w1"
    using assms(1) by (simp add: run_stored_def bindE_Inr)
  moreover have r: "kwargs_now (objects w) kw = Some (fc_arguments (ac_frozen_call auth))"
      "part X w1 = part X (with_dict kw w)"
      "call_digest (ac_frozen_call auth) = Inr (fc_call_digest (ac_frozen_call auth))"
    using stored_arguments[OF assms(1,2,3), where Y = X] assms(4,5) by (simp_all add: subset_insertI)
  have "X \<subseteq> {..<length (objects w)}" using assms(2) by (simp add: closed_in_def)
  then have "part X w = part X w1"
    unfolding r(2) by (simp add: part_def with_dict_def restrict_new[symmetric])
  from kwargs_now_frame[OF this[unfolded part_def] assms(2)]
  have "kwargs_now (objects w1) kw = Some (fc_arguments (ac_frozen_call auth))" using r(1) by simp
  ultimately show ?thesis using r(3) by simp
qed

theorem tool_gets_the_digested_arguments_witness:
  "\<exists>auth w1. authorize_stored (quiet_boundary None) (Some granting) sample_call rows_kwargs rows_world = (Inr (1, auth), w1) \<and>
     kwargs_now (objects w1) rows_kwargs = Some (fc_arguments (ac_frozen_call auth))"
proof -
  obtain auth w1 where r: "authorize_stored (quiet_boundary None) (Some granting) sample_call rows_kwargs rows_world = (Inr (1, auth), w1)"
    using rows_authorized by blast
  have "kwargs_now (objects w1) rows_kwargs = Some (fc_arguments (ac_frozen_call auth)) \<and>
      call_digest (ac_frozen_call auth) = Inr (fc_call_digest (ac_frozen_call auth))"
    by (rule tool_gets_the_digested_arguments[OF r, THEN conjunct2])
      (rule rows_closed quiet_keeps_part granting_keeps quiet_sinks_keep; assumption?)+
  then show ?thesis using r by blast
qed

text \<open>A dictionary object stands for the values of its entries.\<close>

lemma value_of_dict:
  assumes "object_at os a = Some (ObjDict kw)" "kwargs_now os kw = Some e"
  shows "value_now os (At a) = Some (PDict e)"
proof -
  obtain vs where vs: "those (map (value_now os) (map snd kw)) = Some vs" "e = zip (map fst kw) vs"
    using assms(2) by (auto simp: kwargs_now_def)
  have "read_ref (Suc (length os)) os (At a) = Some (PDict e)"
    using assms(1) vs unfolding value_now_def[abs_def] by simp
  then show ?thesis unfolding value_now_iff by blast
qed

text \<open>C23: The frozen call is no snapshot. When checks, provider and sinks leave the dictionary of the
  frozen call alone, then at every later time at which nobody has changed that dictionary itself, the
  arguments the frozen call shows are what the references the caller passed stand for then, whatever
  has happened to the objects, while its digest is still the hash of the arguments at the time of the
  call: the canonical bytes hashed are those of the call shown exactly as long as the arguments
  are the same up to the order of keys. A tool that changes a list it was given leaves a call whose
  recorded digest is not its own.\<close>

theorem frozen_arguments_follow_the_objects:
  fixes w :: "'w object_world_scheme"
  assumes "authorize_stored b P rq kw w = (Inr (a, auth), w1)" "closed_in (objects w) X (map snd kw)"
    and "keeps (part (insert (length (objects w)) X)) (check (on_address b P (length (objects w))) (call_request.truncate rq))"
    and "\<And>p n fc ld. P = Some p \<Longrightarrow> keeps (part {length (objects w)}) (prov_authorize (p n) fc ld)"
    and "\<And>s ev. s \<in> set (b_audit b) \<Longrightarrow> keeps (part {length (objects w)}) (s ev)"
    and "object_at os a = object_at (objects w1) a"
    and "kwargs_now (objects w) kw = Some before" "kwargs_now os kw = Some now"
    and "json_val (PDict before)" "json_val (PDict now)"
  shows "\<exists>later t t'. frozen_now os a (ac_frozen_call auth) = Some later \<and>
    fc_arguments (ac_frozen_call auth) = before \<and> fc_arguments later = now \<and>
    fc_call_digest later = sha256_hex (utf8 t) \<and> canonicalize (call_binding later) = Inr t' \<and>
    (t' = t \<longleftrightarrow> canon (PDict now) = canon (PDict before))"
proof -
  note st = stored_arguments[OF assms(1,2,3), where Y = "{length (objects w)}"]
  have before: "fc_arguments (ac_frozen_call auth) = before"
    using st(1) assms(4,5,7) by simp
  have d: "call_digest (ac_frozen_call auth) = Inr (fc_call_digest (ac_frozen_call auth))"
    using st(3) assms(4,5) by simp
  have a: "a = length (objects w)" by (rule authorize_stored_Inr[OF assms(1)]) simp
  have "part {length (objects w)} w1 = part {length (objects w)} (with_dict kw w)"
    using st(2) assms(4,5) by simp
  from fun_cong[OF this, of a] have "object_at os a = Some (ObjDict kw)"
    using assms(6) by (simp add: part_def a with_dict_def object_at_def)
  from value_of_dict[OF this assms(8)]
  have l: "frozen_now os a (ac_frozen_call auth) = Some ((ac_frozen_call auth)\<lparr>fc_arguments := now\<rparr>)" (is "_ = Some ?later")
    by (simp add: frozen_now_def)
  obtain t where t: "canonicalize (call_binding (ac_frozen_call auth)) = Inr t"
      "call_digest (ac_frozen_call auth) = Inr (sha256_hex (utf8 t))"
    using digest_of_json[of "ac_frozen_call auth"] assms(9) before by auto
  obtain t' where t': "canonicalize (call_binding ?later) = Inr t'"
    using digest_of_json[of ?later] assms(10) by auto
  have j: "json_val (PDict (fc_arguments ?later))" "json_val (PDict (fc_arguments (ac_frozen_call auth)))"
    using assms(9,10) before by simp_all
  have "t' = t \<longleftrightarrow> canon (call_binding ?later) = canon (call_binding (ac_frozen_call auth))"
    using dumps_eq_iff[OF compact_canonical json_val_binding[OF j(1)] json_val_binding[OF j(2)]] t t'
    by (simp add: canonicalize_def)
  then have "t' = t \<longleftrightarrow> canon (PDict now) = canon (PDict before)"
    using before by (simp add: canon_binding_iff same_call_def del: canon.simps)
  moreover have "fc_call_digest ?later = sha256_hex (utf8 t)" using d t(2) by simp
  moreover have "fc_arguments ?later = now" by simp
  ultimately show ?thesis using l t' before by blast
qed

theorem frozen_arguments_follow_the_objects_witness:
  "\<exists>auth w1 later t t'. authorize_stored (quiet_boundary None) (Some granting) sample_call rows_kwargs rows_world =
       (Inr (1, auth), w1) \<and>
     frozen_now ((objects w1)[0 := ObjList []]) 1 (ac_frozen_call auth) = Some later \<and>
     fc_arguments later = [(KStr ''rows'', PList [])] \<and>
     fc_call_digest later = sha256_hex (utf8 t) \<and> canonicalize (call_binding later) = Inr t' \<and> t' \<noteq> t"
proof -
  let ?d = "[(KStr ''rows'', PList [PInt 1])]" and ?e = "[(KStr ''rows'', PList [])]"
  obtain auth w1 where r: "authorize_stored (quiet_boundary None) (Some granting) sample_call rows_kwargs rows_world = (Inr (1, auth), w1)"
    using rows_authorized by blast
  have k: "part {0, 1} w1 = part {0, 1} (with_dict rows_kwargs rows_world)"
    by (rule stored_arguments[OF r rows_closed quiet_keeps_part, where Y = "{0, 1}"], simp, erule granting_keeps, erule quiet_sinks_keep)
  have "object_at (objects w1) 1 = Some (ObjDict rows_kwargs)"
    using fun_cong[OF k, of 1] by (simp add: part_def with_dict_def object_at_def)
  then have n: "1 < length (objects w1)" by (simp add: object_at_def split: if_splits)
  let ?os = "(objects w1)[0 := ObjList []]"
  have o: "object_at ?os 0 = Some (ObjList [])" "object_at ?os 1 = object_at (objects w1) 1"
    using n by (auto simp: object_at_def)
  have "read_ref 1 ?os (At 0) = Some (PList [])" using o(1) by simp
  then have "value_now ?os (At 0) = Some (PList [])" unfolding value_now_iff by blast
  then have now: "kwargs_now ?os rows_kwargs = Some ?e" by (simp add: kwargs_now_def rows_kwargs_def)
  have j: "json_val (PDict ?d)" "json_val (PDict ?e)" by (simp_all add: str_of_nat.simps)
  have "canon (PDict ?e) \<noteq> canon (PDict ?d)" by (simp add: sort_items_def)
  moreover have "\<exists>later t t'. frozen_now ?os 1 (ac_frozen_call auth) = Some later \<and>
      fc_arguments (ac_frozen_call auth) = ?d \<and> fc_arguments later = ?e \<and>
      fc_call_digest later = sha256_hex (utf8 t) \<and> canonicalize (call_binding later) = Inr t' \<and>
      (t' = t \<longleftrightarrow> canon (PDict ?e) = canon (PDict ?d))"
    by (rule frozen_arguments_follow_the_objects[OF r rows_closed quiet_keeps_part _ _ o(2) rows_now now j])
      (erule granting_keeps, erule quiet_sinks_keep)
  ultimately show ?thesis using r by blast
qed

end
