(* ===== verification/AgentKey.thy ===== *)
theory AgentKey
  imports Decorators
begin

text \<open>
  \<open>integrations/agentkey.py\<close>: the provider that asks an AgentKey client. The client and what
  its answers carry as attributes are foreign; the table of calls that wait for their record
  is the provider's state.
\<close>

section \<open>The client and the provider\<close>

record ak_world = world +
  ak_pending :: "string \<rightharpoonup> frozen_tool_call \<times> string"

text \<open>A client method takes the payload as one argument, or its items as keyword arguments.\<close>

datatype client_call = Payload pydict | Expanded pydict

text \<open>
  A client has the methods \<open>hasattr\<close> finds; \<open>ck_attr obj key\<close> is what reading an attribute of an
  answer that is no dictionary gives, \<open>None\<close> for an \<open>AttributeError\<close>.
\<close>

record 'w ak_client =
  ck_authorize :: "(client_call \<Rightarrow> ('w ak_world_scheme, exn, pyval) eff) option"
  ck_record :: "(client_call \<Rightarrow> ('w ak_world_scheme, exn, pyval) eff) option"
  ck_attr :: "pyval \<Rightarrow> string \<Rightarrow> exn + pyval option"

record 'w agentkey =
  ak_client :: "'w ak_client option"
  ak_session :: string

definition get_val :: "(pyval \<Rightarrow> string \<Rightarrow> exn + pyval option) \<Rightarrow> pyval \<Rightarrow> string \<Rightarrow> pyval \<Rightarrow> exn + pyval" where
  "get_val attr obj key absent =
    (case obj of
       PDict d \<Rightarrow> Inr (case dict_get d (KStr key) of None \<Rightarrow> absent | Some v \<Rightarrow> v)
     | _ \<Rightarrow> (case attr obj key of Inl e \<Rightarrow> Inl e | Inr None \<Rightarrow> Inr absent | Inr (Some v) \<Rightarrow> Inr v))"

text \<open>\<open>f"{prefix}{uuid.uuid4().hex[:12]}"\<close>\<close>

definition fresh_id :: "string \<Rightarrow> ('w world_scheme, exn, string) eff" where
  "fresh_id prefix = bindE uuid4 (\<lambda>u. returnE (prefix @ take 12 (filter (\<lambda>c. c \<noteq> CHR ''-'') u)))"

text \<open>The constructor: a session identifier and an empty table.\<close>

definition make_agentkey ::
  "'w ak_client option \<Rightarrow> string option \<Rightarrow> ('w ak_world_scheme, exn, 'w agentkey) eff" where
  "make_agentkey client session_id =
    bindE (if truthy session_id then returnE (the session_id) else fresh_id ''ak-session-'') (\<lambda>s.
    thenE (modifyE (\<lambda>w. w\<lparr>ak_pending := Map.empty\<rparr>)) (returnE \<lparr>ak_client = client, ak_session = s\<rparr>))"

text \<open>A client that rejects the payload as an argument gets it again as keywords.\<close>

definition call_client ::
  "(client_call \<Rightarrow> ('w ak_world_scheme, exn, pyval) eff) \<Rightarrow> pydict \<Rightarrow> ('w ak_world_scheme, exn, pyval) eff" where
  "call_client f payload w =
    (case f (Payload payload) w of
       (Inl e, w') \<Rightarrow> if exn_type e = ''TypeError'' then f (Expanded payload) w' else (Inl e, w')
     | (Inr v, w') \<Rightarrow> (Inr v, w'))"

section \<open>Authorizing\<close>

definition set_present :: "string \<Rightarrow> string option \<Rightarrow> pydict \<Rightarrow> pydict" where
  "set_present k v d = (case v of None \<Rightarrow> d | Some x \<Rightarrow> d @ [(KStr k, PStr x)])"

definition auth_payload :: "string \<Rightarrow> frozen_tool_call \<Rightarrow> local_decision \<Rightarrow> pydict" where
  "auth_payload session call ld =
    [(KStr ''session_id'', PStr session), (KStr ''tool'', PStr (fc_tool_name call)),
     (KStr ''action'', opt_str (fc_operation call)), (KStr ''resource'', opt_str (fc_resource call)),
     (KStr ''arguments'', PDict (fc_arguments call)),
     (KStr ''metadata'', PDict
       (set_present ''manifest_hash'' (fc_manifest_hash call)
       (set_present ''schema_hash'' (fc_schema_hash call)
       (set_present ''toolboundary_policy_version'' (ld_policy_version ld)
         [(KStr ''toolboundary_call_digest'', PStr (fc_call_digest call)),
          (KStr ''toolboundary_decision_id'', PStr (ld_decision_id ld))]))))]"

record ak_answer =
  aa_event :: string
  aa_attempt :: string
  aa_allowed :: bool
  aa_reason :: "string option"
  aa_approval_required :: bool
  aa_approval_id :: pyval
  aa_metadata :: pyval

text \<open>\<open>_get_val(res, key) or f"..."\<close>; an identifier that is no string is outside the model.\<close>

definition id_or_fresh :: "string \<Rightarrow> pyval \<Rightarrow> ('w world_scheme, exn, string) eff" where
  "id_or_fresh prefix v =
    (if py_true v then (case v of PStr s \<Rightarrow> returnE s | _ \<Rightarrow> throwE out_of_model) else fresh_id prefix)"

definition client_answer ::
  "(pyval \<Rightarrow> string \<Rightarrow> exn + pyval option) \<Rightarrow> pyval \<Rightarrow> ('w world_scheme, exn, ak_answer) eff" where
  "client_answer attr res =
    bindE (liftE (get_val attr res ''event_id'' PNone)) (\<lambda>event_id.
    bindE (id_or_fresh ''ak-evt-'' event_id) (\<lambda>event.
    bindE (liftE (get_val attr res ''attempt_id'' PNone)) (\<lambda>attempt_id.
    bindE (id_or_fresh ''ak-att-'' attempt_id) (\<lambda>attempt.
    bindE (liftE (get_val attr res ''allowed'' (PBool False))) (\<lambda>allowed.
    bindE (liftE (get_val attr res ''reason'' PNone)) (\<lambda>reason_val.
    bindE (liftE (string_arg reason_val)) (\<lambda>reason.
    bindE (liftE (get_val attr res ''approval_required'' (PBool False))) (\<lambda>required.
    bindE (liftE (get_val attr res ''approval_id'' PNone)) (\<lambda>approval_id.
    bindE (liftE (get_val attr res ''metadata'' PNone)) (\<lambda>md.
      returnE \<lparr>aa_event = event, aa_attempt = attempt, aa_allowed = py_true allowed, aa_reason = reason,
        aa_approval_required = py_true required, aa_approval_id = approval_id, aa_metadata = md\<rparr>))))))))))"

text \<open>Without a client: the demo mode, which allows everything.\<close>

definition demo_answer :: "('w world_scheme, exn, ak_answer) eff" where
  "demo_answer =
    bindE (fresh_id ''ak-evt-'') (\<lambda>event. bindE (fresh_id ''ak-att-'') (\<lambda>attempt.
      returnE \<lparr>aa_event = event, aa_attempt = attempt, aa_allowed = True,
        aa_reason = Some ''Authorized by AgentKey (demo)'', aa_approval_required = False,
        aa_approval_id = PNone, aa_metadata = PDict []\<rparr>))"

definition ask_agentkey :: "'w agentkey \<Rightarrow> pydict \<Rightarrow> ('w ak_world_scheme, exn, ak_answer) eff" where
  "ask_agentkey k payload =
    (case ak_client k of None \<Rightarrow> demo_answer
     | Some c \<Rightarrow> (case ck_authorize c of None \<Rightarrow> demo_answer
         | Some f \<Rightarrow> bindE (call_client f payload) (client_answer (ck_attr c))))"

text \<open>\<open>setdefault\<close> of every item\<close>

definition add_missing :: "pydict \<Rightarrow> pydict \<Rightarrow> pydict" where
  "add_missing d extra = foldl (\<lambda>d (k, v). if dict_get d k = None then d @ [(k, v)] else d) d extra"

definition grant_metadata :: "string \<Rightarrow> ak_answer \<Rightarrow> pydict" where
  "grant_metadata session a =
    add_missing
      ([(KStr ''session_id'', PStr session)] @
       (if aa_approval_required a then [(KStr ''approval_required'', PBool True)] else []) @
       (if aa_approval_id a \<noteq> PNone then [(KStr ''approval_id'', aa_approval_id a)] else []))
      (case aa_metadata a of PDict d \<Rightarrow> d | _ \<Rightarrow> [])"

definition agent_authorize ::
  "'w agentkey \<Rightarrow> frozen_tool_call \<Rightarrow> local_decision \<Rightarrow> ('w ak_world_scheme, exn, provider_grant) eff" where
  "agent_authorize k call ld =
    bindE (ask_agentkey k (auth_payload (ak_session k) call ld)) (\<lambda>a.
    thenE (modifyE (\<lambda>w. w\<lparr>ak_pending := (ak_pending w)(aa_attempt a \<mapsto> (call, ak_session k),
        aa_event a \<mapsto> (call, ak_session k))\<rparr>))
      (returnE \<lparr>pg_allowed = aa_allowed a, pg_provider = ''agentkey'', pg_authorization_id = Some (aa_event a),
         pg_attempt_id = Some (aa_attempt a), pg_expires_at = None, pg_reason = aa_reason a,
         pg_metadata = grant_metadata (ak_session k) a\<rparr>))"

section \<open>Recording\<close>

definition take_pending ::
  "provider_grant \<Rightarrow> (string \<rightharpoonup> frozen_tool_call \<times> string) \<Rightarrow>
   (frozen_tool_call \<times> string) option \<times> (string \<rightharpoonup> frozen_tool_call \<times> string)" where
  "take_pending g p =
    (let attempt = pg_attempt_id g; event = pg_authorization_id g
     in if truthy attempt \<and> p (the attempt) \<noteq> None then
          (p (the attempt), if truthy event then p(the attempt := None, the event := None) else p(the attempt := None))
        else if truthy event \<and> p (the event) \<noteq> None then (p (the event), p(the event := None))
        else (None, p))"

definition session_of :: "'w agentkey \<Rightarrow> provider_grant \<Rightarrow> (frozen_tool_call \<times> string) option \<Rightarrow> pyval" where
  "session_of k g stored =
    (case stored of Some (call, s) \<Rightarrow> PStr s
     | None \<Rightarrow> (case dict_get (pg_metadata g) (KStr ''session_id'') of None \<Rightarrow> PStr (ak_session k) | Some v \<Rightarrow> v))"

definition record_payload :: "pyval \<Rightarrow> provider_grant \<Rightarrow> frozen_tool_call option \<Rightarrow> execution_record \<Rightarrow> pydict" where
  "record_payload session g call ex =
    [(KStr ''session_id'', session), (KStr ''authorization_event_id'', opt_str (pg_authorization_id g)),
     (KStr ''attempt_id'', opt_str (pg_attempt_id g)),
     (KStr ''tool'', case call of None \<Rightarrow> PNone | Some c \<Rightarrow> PStr (fc_tool_name c)),
     (KStr ''action'', case call of None \<Rightarrow> PNone | Some c \<Rightarrow> opt_str (fc_operation c)),
     (KStr ''resource'', case call of None \<Rightarrow> PNone | Some c \<Rightarrow> opt_str (fc_resource c)),
     (KStr ''arguments'', PDict (case call of None \<Rightarrow> [] | Some c \<Rightarrow> fc_arguments c)),
     (KStr ''status'', PStr (er_status ex)), (KStr ''call_digest'', PStr (er_call_digest ex)),
     (KStr ''result_digest'', opt_str (er_result_digest ex)), (KStr ''error_type'', opt_str (er_error_type ex)),
     (KStr ''error_message'', opt_str (er_error_message ex)),
     (KStr ''started_at'', PFloat (Fin (er_started_at ex))), (KStr ''finished_at'', PFloat (Fin (er_finished_at ex)))]"

text \<open>The receipt read off the client's answer.\<close>

definition client_receipt ::
  "(pyval \<Rightarrow> string \<Rightarrow> exn + pyval option) \<Rightarrow> pyval \<Rightarrow> pyval \<Rightarrow> ('w world_scheme, exn, provider_receipt) eff" where
  "client_receipt attr session res =
    bindE (liftE (get_val attr res ''evidence_recorded'' PNone)) (\<lambda>recorded.
    bindE (if recorded = PNone then liftE (get_val attr res ''recorded'' (PBool True)) else returnE recorded) (\<lambda>rec_val.
    bindE (liftE (get_val attr res ''event_id'' PNone)) (\<lambda>event_id.
    bindE (if py_true event_id then returnE event_id else liftE (get_val attr res ''evidence_id'' PNone)) (\<lambda>evidence.
    bindE (liftE (string_arg evidence)) (\<lambda>evidence_id.
    bindE (liftE (get_val attr res ''metadata'' PNone)) (\<lambda>md.
      returnE \<lparr>pr_recorded = py_true rec_val, pr_provider = ''agentkey'', pr_evidence_id = evidence_id,
        pr_signature = None,
        pr_metadata = add_missing (case md of PDict d \<Rightarrow> d | _ \<Rightarrow> []) [(KStr ''session_id'', session)]\<rparr>))))))"

definition agentkey_logger :: string where
  "agentkey_logger = ''toolboundary.integrations.agentkey''"

text \<open>\<open>except Exception\<close>: the failure becomes a receipt that says so.\<close>

definition failed_receipt :: "pyval \<Rightarrow> exn \<Rightarrow> provider_receipt" where
  "failed_receipt session e = \<lparr>pr_recorded = False, pr_provider = ''agentkey'', pr_evidence_id = None,
     pr_signature = None, pr_metadata = [(KStr ''error'', PStr (exn_text e)), (KStr ''session_id'', session)]\<rparr>"

definition send_record :: "'w agentkey \<Rightarrow> pyval \<Rightarrow> pydict \<Rightarrow> ('w ak_world_scheme, exn, provider_receipt) eff" where
  "send_record k session payload w =
    (case Option.bind (ak_client k) (\<lambda>c. map_option (Pair c) (ck_record c)) of
       None \<Rightarrow> bindE (fresh_id ''ak-rec-'') (\<lambda>i.
         returnE \<lparr>pr_recorded = True, pr_provider = ''agentkey'', pr_evidence_id = Some i, pr_signature = None,
           pr_metadata = [(KStr ''session_id'', session)]\<rparr>) w
     | Some (c, f) \<Rightarrow>
         (case bindE (call_client f payload) (client_receipt (ck_attr c) session) w of
            (Inr receipt, w') \<Rightarrow> (Inr receipt, w')
          | (Inl e, w') \<Rightarrow> if \<not> is_exception e then (Inl e, w')
              else thenE (log_line agentkey_logger log_WARNING (''AgentKey client record failed: '' @ exn_text e))
                (returnE (failed_receipt session e)) w'))"

definition agent_record ::
  "'w agentkey \<Rightarrow> provider_grant \<Rightarrow> execution_record \<Rightarrow> ('w ak_world_scheme, exn, provider_receipt) eff" where
  "agent_record k g ex w =
    (let (stored, rest) = take_pending g (ak_pending w);
         session = session_of k g stored
     in send_record k session (record_payload session g (map_option fst stored) ex) (w\<lparr>ak_pending := rest\<rparr>))"

text \<open>The provider object as the boundary sees it.\<close>

definition agentkey_provider :: "'w agentkey \<Rightarrow> 'w ak_world_ext provider" where
  "agentkey_provider k =
    \<lparr>prov_authorize = (\<lambda>call ld. bindE (agent_authorize k call ld) (\<lambda>g. returnE (Some g))),
     prov_record = (\<lambda>g ex. bindE (agent_record k g ex) (\<lambda>r. returnE (Some r)))\<rparr>"

section \<open>Fresh identifiers\<close>

lemma bind_uuid: "bindE uuid4 f w = f (uuids w (uuid_ix w)) (w\<lparr>uuid_ix := Suc (uuid_ix w)\<rparr>)"
  by (simp add: bindE_def uuid4_def)

text \<open>Every answer carries two identifiers that are not empty.\<close>

lemma fresh_id_nonempty: "fresh_id (c # cs) w = (Inr i, w') \<Longrightarrow> i \<noteq> []"
  by (auto simp: fresh_id_def bind_uuid)

lemma id_or_fresh_nonempty: "id_or_fresh (c # cs) v w = (Inr i, w') \<Longrightarrow> i \<noteq> []"
  by (auto simp: id_or_fresh_def fresh_id_nonempty split: if_splits pyval.splits)

lemma client_answer_ids:
  "client_answer attr res w = (Inr a, w') \<Longrightarrow> aa_event a \<noteq> [] \<and> aa_attempt a \<noteq> []"
  by (auto simp: client_answer_def bindE_Inr_iff dest!: id_or_fresh_nonempty)

lemma demo_answer_ids: "demo_answer w = (Inr a, w') \<Longrightarrow> aa_event a \<noteq> [] \<and> aa_attempt a \<noteq> []"
  by (auto simp: demo_answer_def bindE_Inr_iff dest!: fresh_id_nonempty)

lemma ask_agentkey_ids:
  "ask_agentkey k payload w = (Inr a, w') \<Longrightarrow> aa_event a \<noteq> [] \<and> aa_attempt a \<noteq> []"
  by (auto simp: ask_agentkey_def bindE_Inr_iff dest: client_answer_ids demo_answer_ids split: option.splits)

lemma agent_authorize_Inr:
  assumes "agent_authorize k call ld w = (Inr g, w')"
  obtains a w1 where "ask_agentkey k (auth_payload (ak_session k) call ld) w = (Inr a, w1)"
    and "pg_allowed g = aa_allowed a" "pg_provider g = ''agentkey''" "pg_reason g = aa_reason a"
    and "pg_authorization_id g = Some (aa_event a)" "pg_attempt_id g = Some (aa_attempt a)"
    and "ak_pending w' = (ak_pending w1)(aa_attempt a \<mapsto> (call, ak_session k), aa_event a \<mapsto> (call, ak_session k))"
    and "aa_event a \<noteq> []" "aa_attempt a \<noteq> []"
proof -
  obtain a w1 where a: "ask_agentkey k (auth_payload (ak_session k) call ld) w = (Inr a, w1)"
    using assms by (auto simp: agent_authorize_def bindE_Inr_iff)
  show thesis
    by (intro that[OF a])
      (use assms ask_agentkey_ids[OF a] in \<open>auto simp: agent_authorize_def bindE_Inr_iff thenE_Inr_iff a\<close>)
qed

section \<open>Properties\<close>

text \<open>What was authorized is what is recorded: after \<open>authorize\<close>, and whatever else happens while
  the tool runs as long as the table of pending calls is left alone, \<open>record\<close> sends the client
  a payload with the tool, operation, resource and arguments of the authorized call and the
  session of the provider, and both entries of the call have left the table.\<close>

theorem agentkey_records_the_authorized_call:
  assumes "agent_authorize k call ld w = (Inr g, w1)" and "ak_pending w2 = ak_pending w1"
  shows "\<exists>event attempt. pg_authorization_id g = Some event \<and> pg_attempt_id g = Some attempt \<and>
    agent_record k g ex w2 = send_record k (PStr (ak_session k)) (record_payload (PStr (ak_session k)) g (Some call) ex)
      (w2\<lparr>ak_pending := (ak_pending w1)(attempt := None, event := None)\<rparr>)"
  by (rule agent_authorize_Inr[OF assms(1)])
    (simp add: agent_record_def take_pending_def session_of_def assms(2) Let_def)

text \<open>No failure of the AgentKey client in \<open>record\<close> reaches the boundary unless it is no
  \<open>Exception\<close>: otherwise there is a receipt, and it is the provider's and names a session.\<close>

theorem agentkey_record_contains_failures:
  "case fst (agent_record k g ex w) of
     Inl e \<Rightarrow> \<not> is_exception e
   | Inr r \<Rightarrow> pr_provider r = ''agentkey'' \<and> dict_get (pr_metadata r) (KStr ''session_id'') \<noteq> None"
proof -
  have add: "\<exists>x. dict_get (add_missing d [(key, v)]) key = Some x" for d :: pydict and key v
    by (auto simp: add_missing_def dict_get_def map_add_Some_iff split: option.splits)
  have named: "pr_provider r = ''agentkey'' \<and> dict_get (pr_metadata r) (KStr ''session_id'') \<noteq> None"
    if "client_receipt attr session res v = (Inr r, v')" for attr session res r and v v' :: "'a ak_world_scheme"
    using that add by (auto simp: client_receipt_def bindE_Inr_iff)
  have "case fst (send_record k session payload v) of Inl e \<Rightarrow> \<not> is_exception e
      | Inr r \<Rightarrow> pr_provider r = ''agentkey'' \<and> dict_get (pr_metadata r) (KStr ''session_id'') \<noteq> None"
    for session payload v
  proof (cases "Option.bind (ak_client k) (\<lambda>c. map_option (Pair c) (ck_record c))")
    case None
    then show ?thesis by (simp add: send_record_def fresh_id_def bindE_assoc bind_uuid dict_get_def bindE_def uuid4_def)
  next
    case (Some cf)
    obtain c f where cf: "cf = (c, f)" by fastforce
    obtain r v1 where r: "bindE (call_client f payload) (client_receipt (ck_attr c) session) v = (r, v1)"
      by fastforce
    show ?thesis
    proof (cases r)
      case (Inl e)
      then show ?thesis using Some r
        by (auto simp: send_record_def cf failed_receipt_def thenE_def bindE_def log_line_def dict_get_def)
    next
      case (Inr receipt)
      then obtain res t where "client_receipt (ck_attr c) session res t = (Inr receipt, v1)"
        using r by (auto simp: bindE_Inr_iff)
      then show ?thesis using named[of "ck_attr c" session res t receipt v1] Some r Inr
        by (simp add: send_record_def cf)
    qed
  qed
  then show ?thesis by (simp add: agent_record_def split_beta Let_def)
qed

text \<open>C37: A refusal leaves its call behind: in enforce mode, when the client answers with a dictionary
  whose \<open>allowed\<close> is missing or false, \<open>authorize_call\<close> raises the provider's denial, and the
  frozen call stays in the provider's table, from which only \<open>record\<close>, that a denied call never
  reaches, would take it.\<close>

theorem refused_call_stays_pending:
  assumes "b_provider b = Some (agentkey_provider k)" and "b_provider_mode b = ENFORCE"
    and "check b (call_request.truncate rq) w = (Inr (), w1)" and "call_digest (frozen_of b rq) = Inr d"
    and "ak_client k = Some c" and "ck_authorize c = Some f"
    and "\<And>p v. \<exists>v'. f (Payload p) v = (Inr (PDict answer), v')"
    and "\<not> py_true (case dict_get answer (KStr ''allowed'') of None \<Rightarrow> PBool False | Some v \<Rightarrow> v)"
    and "dict_get answer (KStr ''event_id'') = Some (PStr event)" "event \<noteq> []"
    and "dict_get answer (KStr ''attempt_id'') = Some (PStr attempt)" "attempt \<noteq> []"
    and "dict_get answer (KStr ''reason'') = Some (PStr reason)"
  shows "\<exists>w'. authorize_call b rq w = (Inl (ProviderAuthorizationDenied (''Provider denied the action: '' @ reason)
      (b_agent_name b) (rq_tool_name rq) (rq_operation rq) (Some ''agentkey'') (Some reason)), w') \<and>
    ak_pending w' event = Some ((frozen_of b rq)\<lparr>fc_call_digest := d\<rparr>, ak_session k)"
proof -
  let ?f = "(frozen_of b rq)\<lparr>fc_call_digest := d\<rparr>"
  let ?ld = "local_allow b rq (uuids w1 (uuid_ix w1))"
  let ?w2 = "w1\<lparr>uuid_ix := Suc (uuid_ix w1)\<rparr>"
  obtain v where "f (Payload (auth_payload (ak_session k) ?f ?ld)) ?w2 = (Inr (PDict answer), v)"
    using assms(7) by blast
  then have call: "call_client f (auth_payload (ak_session k) ?f ?ld) ?w2 = (Inr (PDict answer), v)"
    by (simp add: call_client_def)
  obtain a where a: "client_answer (ck_attr c) (PDict answer) v = (Inr a, v)" and
    "aa_event a = event" "\<not> aa_allowed a" "aa_reason a = Some reason"
    using assms(8-) by (simp add: client_answer_def get_val_def id_or_fresh_def string_arg_def bindE_def)
  then obtain g v' where g: "agent_authorize k ?f ?ld ?w2 = (Inr g, v')" "\<not> pg_allowed g"
    "pg_reason g = Some reason" "pg_provider g = ''agentkey''" "ak_pending v' event = Some (?f, ak_session k)"
    using call by (simp add: agent_authorize_def ask_agentkey_def assms(5,6) bindE_def thenE_def)
  have names: "fc_tool_name (frozen_of b rq) = rq_tool_name rq" "fc_operation (frozen_of b rq) = rq_operation rq"
    by (simp_all add: frozen_of_def)
  have "freeze_with_digest (frozen_of b rq) = Inr ?f" using assms(4) by (simp add: freeze_with_digest_Inr)
  moreover have "ask_provider b (agentkey_provider k) ?f ?ld ?w2 = (Inr (Some g), v')"
    using g(1) by (simp add: ask_provider_def agentkey_provider_def bindE_def)
  moreover have "heed_denial b ?f (Some g) v' = (Inl (ProviderAuthorizationDenied
      (''Provider denied the action: '' @ reason) (b_agent_name b) (rq_tool_name rq) (rq_operation rq)
      (Some ''agentkey'') (Some reason)), v')"
    using g(2-4) assms(2) names by (simp add: heed_denial_def show_opt_def)
  ultimately have "authorize_call b rq w = (Inl (ProviderAuthorizationDenied (''Provider denied the action: '' @ reason)
      (b_agent_name b) (rq_tool_name rq) (rq_operation rq) (Some ''agentkey'') (Some reason)), v')"
    using assms(1,3) by (simp add: authorize_call_def authorize_frozen_def thenE_Inr bind_uuid Let_def bindE_Inr thenE_Inl)
  then show ?thesis using g(5) by blast
qed

section \<open>Concrete providers\<close>

definition agentkey_world :: ak_world where
  "agentkey_world = world.extend sample_world (ak_world.fields Map.empty)"

definition demo_agentkey :: "unit agentkey" where
  "demo_agentkey = \<lparr>ak_client = None, ak_session = ''s1''\<rparr>"

definition refusing_answer :: pydict where
  "refusing_answer = [(KStr ''event_id'', PStr ''e1''), (KStr ''attempt_id'', PStr ''t1''), (KStr ''reason'', PStr ''no'')]"

definition refusing_client :: "unit ak_client" where
  "refusing_client = \<lparr>ck_authorize = Some (\<lambda>call. returnE (PDict refusing_answer)), ck_record = None,
     ck_attr = (\<lambda>obj key. Inr None)\<rparr>"

definition refusing_agentkey :: "unit agentkey" where
  "refusing_agentkey = \<lparr>ak_client = Some refusing_client, ak_session = ''s1''\<rparr>"

definition agent_boundary :: "unit agentkey \<Rightarrow> unit ak_world_ext boundary" where
  "agent_boundary k = quiet_boundary (Some (agentkey_provider k))"

lemma agent_boundary_fields [simp]:
  "b_provider (agent_boundary k) = Some (agentkey_provider k)" "b_provider_mode (agent_boundary k) = ENFORCE"
  "b_audit (agent_boundary k) = default_sinks"
  by (simp_all add: agent_boundary_def)

lemma agent_boundary_allows:
  "fst (check (agent_boundary k) (call_request.truncate sample_call) agentkey_world) = Inr ()"
  unfolding agent_boundary_def sample_truncate by (rule quiet_boundary_allows) simp_all

theorem agentkey_records_the_authorized_call_witness:
  "\<exists>g w1. agent_authorize demo_agentkey ((frozen_of sample_boundary sample_call)\<lparr>fc_call_digest := ''ab12''\<rparr>)
      (local_allow sample_boundary sample_call ''d1'') agentkey_world = (Inr g, w1) \<and>
    (\<forall>ex. \<exists>p. agent_record demo_agentkey g ex w1 = send_record demo_agentkey (PStr ''s1'')
      (record_payload (PStr ''s1'') g (Some ((frozen_of sample_boundary sample_call)\<lparr>fc_call_digest := ''ab12''\<rparr>)) ex)
      (w1\<lparr>ak_pending := p\<rparr>))"
proof -
  let ?call = "(frozen_of sample_boundary sample_call)\<lparr>fc_call_digest := ''ab12''\<rparr>"
  obtain g w1 where g: "agent_authorize demo_agentkey ?call (local_allow sample_boundary sample_call ''d1'')
      agentkey_world = (Inr g, w1)"
    by (simp add: agent_authorize_def ask_agentkey_def demo_agentkey_def demo_answer_def fresh_id_def
        bindE_def thenE_def uuid4_def)
  have "ak_session demo_agentkey = ''s1''" by (simp add: demo_agentkey_def)
  then show ?thesis using agentkey_records_the_authorized_call[OF g refl] g by auto
qed

theorem refused_call_stays_pending_witness:
  "\<exists>e w' entry. authorize_call (agent_boundary refusing_agentkey) sample_call agentkey_world = (Inl e, w') \<and>
     ak_pending w' ''e1'' = Some entry"
proof -
  let ?b = "agent_boundary refusing_agentkey"
  obtain w1 where c: "check ?b (call_request.truncate sample_call) agentkey_world = (Inr (), w1)"
    using agent_boundary_allows by (metis prod.collapse)
  obtain d where d: "call_digest (frozen_of ?b sample_call) = Inr d" using sample_digest by blast
  have k: "ak_client refusing_agentkey = Some refusing_client" by (simp add: refusing_agentkey_def)
  have f: "ck_authorize refusing_client = Some (\<lambda>call. returnE (PDict refusing_answer))"
    by (simp add: refusing_client_def)
  have "dict_get refusing_answer (KStr ''allowed'') = None"
    "dict_get refusing_answer (KStr ''event_id'') = Some (PStr ''e1'')"
    "dict_get refusing_answer (KStr ''attempt_id'') = Some (PStr ''t1'')"
    "dict_get refusing_answer (KStr ''reason'') = Some (PStr ''no'')"
    by (simp_all add: refusing_answer_def dict_get_def)
  then show ?thesis
    using refused_call_stays_pending[OF agent_boundary_fields(1,2) c d k f, of refusing_answer "''e1''" "''t1''" "''no''"]
    by auto
qed

end
