(* ===== verification/Example_Usage.thy ===== *)
theory Example_Usage
  imports Boundary_Rate Py_Float_Text
begin

text \<open>
  \<open>examples/basic_usage.py\<close>: the boundary the repository's introduction constructs, the seven
  calls of the script against it with the kill switch in between, and what the script prints.
  The state of the script is the boundary object, the world and the texts printed so far.
\<close>

section \<open>The script\<close>

record 'w script =
  sc_boundary :: "'w boundary"
  sc_world :: "'w world_scheme"
  sc_out :: "string list"

definition print_line :: "string \<Rightarrow> ('w script, exn, unit) eff" where
  "print_line text = modifyE (\<lambda>s. s\<lparr>sc_out := sc_out s @ [text]\<rparr>)"

text \<open>A method of the boundary, called by the script.\<close>

definition check_call :: "call_request \<Rightarrow> ('w script, exn, unit) eff" where
  "check_call rq s = (case check (sc_boundary s) rq (sc_world s) of (r, w) \<Rightarrow> (r, s\<lparr>sc_world := w\<rparr>))"

definition try_call :: "string \<Rightarrow> ('w script, exn, unit) eff \<Rightarrow> ('w script, exn, unit) eff" where
  "try_call label fn = thenE (print_line (''\<newline>--- '' @ label @ '' ---''))
     (\<lambda>s. case thenE fn (print_line ''  -> ALLOWED'') s of
        (Inr u, s') \<Rightarrow> (Inr u, s')
      | (Inl e, s') \<Rightarrow> (case e of
            ApprovalRequired msg ag tool opn aid \<Rightarrow> print_line (''  -> NEEDS HUMAN APPROVAL: '' @ exn_text e) s'
          | BoundaryViolation c msg ag tool opn rule \<Rightarrow> print_line (''  -> DENIED: '' @ exn_text e) s'
          | _ \<Rightarrow> (Inl e, s')))"

text \<open>\<open>ToolPermission(name, access_mode=...)\<close> with the defaults of the other fields.\<close>

definition plain_permission :: "string \<Rightarrow> access_mode \<Rightarrow> tool_permission" where
  "plain_permission name mode = \<lparr>tp_tool_name = name, tp_access_mode = mode, tp_allowed_operations = None,
     tp_blocked_operations = {}, tp_max_calls_per_hour = None, tp_max_value = None, tp_min_value = None,
     tp_max_records = None, tp_requires_approval = False\<rparr>"

definition usage_permissions :: "tool_permission list" where
  "usage_permissions =
     [plain_permission ''read_ticket_db'' READ_ONLY,
      (plain_permission ''send_reply_email'' EXECUTE)\<lparr>tp_max_calls_per_hour := Some 30\<rparr>,
      (plain_permission ''issue_refund'' EXECUTE)
        \<lparr>tp_max_value := Some (NFloat (Fin 100)), tp_requires_approval := True\<rparr>]"

definition usage_boundary :: "nat \<Rightarrow> exn + 'w boundary" where
  "usage_boundary fresh = make_boundary ''support-agent'' LIMITED_AUTONOMOUS (Some usage_permissions)
     {''delete_ticket'', ''delete_customer''} None ''PRODUCTION'' (Some 100) False
     (Some ''TOOLBOUNDARY_KILL_SWITCH'') None None None None True False None None fresh None OBSERVE None"

definition usage_request :: "string \<Rightarrow> string option \<Rightarrow> access_mode \<Rightarrow> pyval \<Rightarrow> call_request" where
  "usage_request tool opn mode v = \<lparr>rq_tool_name = tool, rq_operation = opn, rq_access_mode = mode,
     rq_value = v, rq_record_count = PNone, rq_correlation_id = None, rq_metadata = None\<rparr>"

definition basic_usage :: "('w script, exn, unit) eff" where
  "basic_usage =
     thenE (try_call ''Read ticket database (should be allowed)''
       (check_call (usage_request ''read_ticket_db'' None READ_ONLY PNone)))
    (thenE (try_call ''Send a reply email (should be allowed)''
       (check_call (usage_request ''send_reply_email'' None EXECUTE PNone)))
    (thenE (try_call ''Delete a ticket (globally blocked operation)''
       (check_call (usage_request ''read_ticket_db'' (Some ''delete_ticket'') READ_ONLY PNone)))
    (thenE (try_call ''Issue a $50 refund (under limit, but requires_approval=True)''
       (check_call (usage_request ''issue_refund'' None EXECUTE (PFloat (Fin 50)))))
    (thenE (try_call ''Issue a $500 refund (over max_value)''
       (check_call (usage_request ''issue_refund'' None EXECUTE (PFloat (Fin 500)))))
    (thenE (try_call ''Call an unregistered tool''
       (check_call (usage_request ''wire_transfer'' None EXECUTE PNone)))
    (thenE (print_line ''\<newline>--- Engaging kill switch ---'')
    (thenE (modifyE (\<lambda>s. s\<lparr>sc_boundary := engage_kill_switch (sc_boundary s)\<rparr>))
    (try_call ''Read ticket database again (kill switch now engaged)''
       (check_call (usage_request ''read_ticket_db'' None READ_ONLY PNone))))))))))"

text \<open>A script that only prints: on the world, or another state, and the texts printed so far.\<close>

definition printing :: "('s, 'e, 'a) eff \<Rightarrow> ('s \<times> string list, 'e, 'a) eff" where
  "printing m s = (case m (fst s) of (r, w) \<Rightarrow> (r, (w, snd s)))"

definition print_text :: "string \<Rightarrow> ('s \<times> string list, 'e, unit) eff" where
  "print_text text = modifyE (apsnd (\<lambda>out. out @ [text]))"

section \<open>Room in the limiter\<close>

text \<open>A world with no switch set, in which no deque of the boundary's limiter holds more than \<open>n\<close>.\<close>

definition space :: "nat \<Rightarrow> nat \<Rightarrow> 'w world_scheme \<Rightarrow> bool" where
  "space self n w \<longleftrightarrow> (\<forall>key. length (deque_of self key w) \<le> n)"

definition room :: "nat \<Rightarrow> nat \<Rightarrow> 'w world_scheme \<Rightarrow> bool" where
  "room self n w \<longleftrightarrow> space self n w \<and> environ w ''TOOLBOUNDARY_KILL_SWITCH'' = None"

definition same_room :: "'w world_scheme \<Rightarrow> 'w world_scheme \<Rightarrow> bool" where
  "same_room w w' \<longleftrightarrow> limiters w' = limiters w \<and> environ w' = environ w"

lemma room_same: "same_room w w' \<Longrightarrow> room self n w' = room self n w"
  by (simp add: same_room_def room_def space_def deque_of_def)

lemma room_tick [simp]: "room self n (tick w) = room self n w"
  by (rule room_same) (simp add: same_room_def tick_def)

lemma prune_length: "length (prune c ts) \<le> length ts"
  by (induction ts) auto

lemma space_Suc: "space self n w \<Longrightarrow> space self (Suc n) w"
  by (auto simp: space_def intro: le_SucI)

lemma limiter_has_space:
  assumes "space self n w" "int n < m"
  shows "\<exists>w'. check_and_record self key m win w = (Inr True, w') \<and> space self (Suc n) w' \<and> environ w' = environ w"
proof -
  let ?d = "prune (fsub (Fin (mono w (mono_ix w))) win) (deque_of self key w)"
  have l: "length ?d \<le> n" using assms(1) prune_length le_trans unfolding space_def by blast
  have "check_and_record self key m win w = (Inr True, w\<lparr>mono_ix := Suc (mono_ix w),
      limiters := (limiters w)(self := (limiters w self)(key \<mapsto> ?d @ [mono w (mono_ix w)]))\<rparr>)"
    using l assms(2)
    by (simp add: check_and_record_def bindE_def time_monotonic_def window_step_def Let_def deque_of_def)
  moreover have "space self (Suc n) (w\<lparr>mono_ix := Suc (mono_ix w),
      limiters := (limiters w)(self := (limiters w self)(key \<mapsto> ?d @ [mono w (mono_ix w)]))\<rparr>)"
    using l assms(1) by (auto simp: space_def deque_of_def le_SucI)
  ultimately show ?thesis by auto
qed

lemma rate_limit_has_space:
  assumes "b_rate_limiter b = check_and_record self" "space self n w"
    and "\<forall>m. b_max_actions_per_hour b = Some m \<longrightarrow> int n < m"
    and "\<forall>p m. b_permissions b (ctx_tool_name ctx) = Some p \<longrightarrow> tp_max_calls_per_hour p = Some m \<longrightarrow> int (Suc n) < m"
  shows "\<exists>w'. check_rate_limit b ctx w = (Inr (), w') \<and> space self (Suc (Suc n)) w' \<and> environ w' = environ w"
proof -
  have "\<exists>w1. check_global_rate b ctx w = (Inr (), w1) \<and> space self (Suc n) w1 \<and> environ w1 = environ w"
  proof (cases "b_max_actions_per_hour b")
    case None
    then show ?thesis using space_Suc[OF assms(2)] by (simp add: check_global_rate_def)
  next
    case (Some m)
    then show ?thesis
      using limiter_has_space[OF assms(2), of m "global_key (b_agent_name b)" "Fin 3600"] assms(1,3)
      by (auto simp: check_global_rate_def bindE_def)
  qed
  then obtain w1 where w1: "check_global_rate b ctx w = (Inr (), w1)" "space self (Suc n) w1" "environ w1 = environ w" by blast
  have "\<exists>w2. check_tool_rate b ctx w1 = (Inr (), w2) \<and> space self (Suc (Suc n)) w2 \<and> environ w2 = environ w1"
  proof (cases "Option.bind (b_permissions b (ctx_tool_name ctx)) tp_max_calls_per_hour")
    case None
    then show ?thesis using space_Suc[OF w1(2)] by (simp add: check_tool_rate_def)
  next
    case (Some m)
    then have "int (Suc n) < m" using assms(4) by (auto simp: bind_eq_Some_conv)
    from limiter_has_space[OF w1(2) this, of "tool_key (b_agent_name b) (ctx_tool_name ctx)" "Fin 3600"] Some
    show ?thesis using assms(1) by (auto simp: check_tool_rate_def bindE_def)
  qed
  then show ?thesis using w1 by (simp add: check_rate_limit_def thenE_Inr)
qed

section \<open>The calls\<close>

lemma usage_fields:
  assumes "usage_boundary self = Inr b"
  shows "b_agent_name b = ''support-agent''" "b_autonomy b = LIMITED_AUTONOMOUS"
    "b_permissions b = permission_map usage_permissions"
    "b_blocked_operations b = {''delete_ticket'', ''delete_customer''}" "b_allowed_environments b = None"
    "b_max_actions_per_hour b = Some 100" "\<not> b_kill_switch b"
    "b_kill_switch_env b = Some ''TOOLBOUNDARY_KILL_SWITCH''" "b_valid_from b = None" "b_valid_to b = None"
    "b_audit b = default_sinks" "b_policy_hooks b = []" "\<not> b_strict_limits b"
    "b_rate_limiter b = check_and_record self"
  using assms by (auto simp: usage_boundary_def make_boundary_def make_trail_def)

lemma usage_table [simp]:
  "permission_map usage_permissions ''read_ticket_db'' = Some (plain_permission ''read_ticket_db'' READ_ONLY)"
  "permission_map usage_permissions ''send_reply_email'' =
     Some ((plain_permission ''send_reply_email'' EXECUTE)\<lparr>tp_max_calls_per_hour := Some 30\<rparr>)"
  "permission_map usage_permissions ''issue_refund'' = Some ((plain_permission ''issue_refund'' EXECUTE)
     \<lparr>tp_max_value := Some (NFloat (Fin 100)), tp_requires_approval := True\<rparr>)"
  "permission_map usage_permissions ''wire_transfer'' = None"
  by (simp_all add: permission_map_def usage_permissions_def plain_permission_def)

lemma usage_around: "b_audit b = default_sinks \<Longrightarrow> b_policy_hooks b = [] \<Longrightarrow> around_limiter same_room b"
  by (auto simp: around_limiter_def same_room_def reflp_def transp_def default_sinks_def moves_def
      logging_sink_emit_def Let_def bindE_def log_line_def split: sum.splits)

text \<open>What a call leaves: the outcome of the checks, and their room.\<close>

lemma call_result:
  assumes "b_audit b = default_sinks" "b_policy_hooks b = []"
    and "local_checks b (context_of b rq) w = (r, w1)" "room self n w1"
  shows "\<exists>w'. check b rq w = (r, w') \<and> room self n w'"
proof -
  have "fst (check b rq w) = r"
    using check_outcome[OF default_sinks_tame[OF assms(1)], of rq w] assms(3) by simp
  moreover have "room self n (snd (check b rq w))"
    using room_same check_moves_on[OF usage_around[OF assms(1,2)], of rq w] assms(3,4) by fastforce
  ultimately show ?thesis by (metis prod.collapse)
qed

lemma usage_rate:
  assumes b: "usage_boundary self = Inr b" and "room self n w" "n \<le> 20"
  shows "\<exists>w'. check_rate_limit b ctx w = (Inr (), w') \<and> room self (Suc (Suc n)) w'"
proof -
  have "tp_max_calls_per_hour p = Some m \<Longrightarrow> m = 30" if "permission_map usage_permissions t = Some p" for t p m
    using that by (auto simp: permission_map_def usage_permissions_def plain_permission_def split: if_splits)
  then have "\<forall>p m. b_permissions b (ctx_tool_name ctx) = Some p \<longrightarrow>
      tp_max_calls_per_hour p = Some m \<longrightarrow> int (Suc n) < m"
    using assms(3) by (fastforce simp: usage_fields[OF b])
  from rate_limit_has_space[OF _ _ _ this, of self w] show ?thesis
    using assms(2,3) by (auto simp: usage_fields[OF b] room_def)
qed

lemma usage_passes:
  assumes b: "usage_boundary self = Inr b" and "room self n w" "n \<le> 20" "static_ok b ctx p w"
  shows "\<exists>w'. local_checks b ctx w = (fst (check_requires_approval b ctx p w), w') \<and> room self (Suc (Suc n)) w'"
proof -
  obtain w' where "check_rate_limit b ctx (tick w) = (Inr (), w')" "room self (Suc (Suc n)) w'"
    using usage_rate[OF b, of n "tick w"] assms(2,3) by auto
  then show ?thesis
    by (intro exI[of _ w'])
      (simp add: local_checks_static[OF assms(4)] thenE_Inr check_policy_hooks_def usage_fields[OF b]
        check_requires_approval_def)
qed

lemma usage_switch_off:
  assumes b: "usage_boundary self = Inr b" and "room self n w"
  shows "\<not> kill_switch_engaged b w"
  using assms(2) by (simp add: kill_switch_engaged_def usage_fields[OF b] room_def py_lower_def py_strip_def)

lemma usage_static:
  assumes b: "usage_boundary self = Inr b" and "room self n w"
  shows "static_ok b ctx p w \<longleftrightarrow>
     (\<forall>x. ctx_operation ctx = Some x \<longrightarrow> x \<noteq> ''delete_ticket'' \<and> x \<noteq> ''delete_customer'') \<and>
     permission_map usage_permissions (ctx_tool_name ctx) = Some p \<and> operation_allowed p (ctx_operation ctx) \<and>
     ctx_access_mode ctx \<le> tp_access_mode p \<and> value_ok False p (ctx_value ctx) \<and>
     records_ok False p (ctx_record_count ctx)"
  using usage_switch_off[OF assms]
  by (auto simp: static_ok_def usage_fields[OF b] within_validity_def environment_ok_def)

lemma usage_before_table:
  assumes b: "usage_boundary self = Inr b" and "room self n w"
  shows "local_checks b ctx w = thenE (check_global_blocked_operations b ctx)
    (bindE (check_tool_permission b ctx) (permission_checks b ctx)) (tick w)"
proof -
  have "check_kill_switch b ctx w = (Inr (), w)" "check_quarantine b ctx w = (Inr (), w)"
    "check_validity_window b ctx w = (Inr (), tick w)" "check_environment b ctx (tick w) = (Inr (), tick w)"
    using usage_switch_off[OF assms]
    by (simp_all add: check_ok usage_fields[OF b] within_validity_def environment_ok_def)
  then show ?thesis by (simp add: local_checks_def thenE_Inr)
qed

text \<open>The six checks of the script while the switch is off.\<close>

definition refund_violation :: exn where
  "refund_violation = BoundaryViolation PlainViolation (''Value 500.0 exceeds max_value 100.0 for tool '' @
     repr_str ''issue_refund'' @ ''.'') ''support-agent'' (Some ''issue_refund'') None (Some ''MAX_VALUE_EXCEEDED'')"

lemma repr_refund: "repr_pos 500 = ''500.0''" "repr_pos 100 = ''100.0''"
proof -
  have "layout_repr (strip_zeros (str_of_nat 5)) (2 + int (length (str_of_nat 5))) = ''500.0''"
    "layout_repr (strip_zeros (str_of_nat 1)) (2 + int (length (str_of_nat 1))) = ''100.0''" by code_simp+
  then show "repr_pos 500 = ''500.0''" "repr_pos 100 = ''100.0''"
    using repr_round[of 5 2] repr_round[of 1 2] by simp_all
qed

lemma usage_calls:
  assumes b: "usage_boundary self = Inr b" and "room self n w" "n \<le> 20"
  shows read_ok: "\<exists>w'. check b (usage_request ''read_ticket_db'' None READ_ONLY PNone) w = (Inr (), w') \<and>
      room self (Suc (Suc n)) w'"
    and reply_ok: "\<exists>w'. check b (usage_request ''send_reply_email'' None EXECUTE PNone) w = (Inr (), w') \<and>
      room self (Suc (Suc n)) w'"
    and delete_denied: "\<exists>w'. check b (usage_request ''read_ticket_db'' (Some ''delete_ticket'') READ_ONLY PNone) w =
      (Inl (BoundaryViolation PlainViolation (''Operation '' @ repr_str ''delete_ticket'' @
          '' is globally blocked for this agent.'') ''support-agent'' (Some ''read_ticket_db'')
          (Some ''delete_ticket'') (Some ''OPERATION_BLOCKED'')), w') \<and> room self n w'"
    and refund_asks: "\<exists>w'. check b (usage_request ''issue_refund'' None EXECUTE (PFloat (Fin 50))) w =
      (Inl (ApprovalRequired ''issue_refund.* requires human approval (autonomy=LIMITED_AUTONOMOUS).''
          ''support-agent'' ''issue_refund'' None None), w') \<and> room self (Suc (Suc n)) w'"
    and refund_denied: "\<exists>w'. check b (usage_request ''issue_refund'' None EXECUTE (PFloat (Fin 500))) w =
      (Inl refund_violation, w') \<and> room self n w'"
    and transfer_denied: "\<exists>w'. check b (usage_request ''wire_transfer'' None EXECUTE PNone) w =
      (Inl (BoundaryViolation PlainViolation (''Tool '' @ repr_str ''wire_transfer'' @
          '' is not in this agent'' @ [CHR 0x27] @ ''s permitted tool list.'') ''support-agent'' (Some ''wire_transfer'')
          None (Some ''TOOL_NOT_ALLOWED'')), w') \<and> room self n w'"
proof -
  note call = call_result[OF usage_fields(11)[OF b] usage_fields(12)[OF b]]
  note ctx = context_of_def usage_request_def usage_fields[OF b]
  note static = usage_static[OF b assms(2)] operation_allowed_def plain_permission_def value_ok_def
    records_ok_def less_eq_access_mode_def num_lt_def ctx
  note approval = check_requires_approval_def needs_approval_def plain_permission_def op_or_star_def ctx
  note early = usage_before_table[OF b assms(2)] check_global_blocked_operations_def check_tool_permission_def
    thenE_def bindE_def repr_opt_def ctx
  have tick: "room self n (tick w)" using assms(2) by simp
  show "\<exists>w'. check b (usage_request ''read_ticket_db'' None READ_ONLY PNone) w = (Inr (), w') \<and> room self (Suc (Suc n)) w'"
  proof -
    let ?rq = "usage_request ''read_ticket_db'' None READ_ONLY PNone"
    have "static_ok b (context_of b ?rq) (plain_permission ''read_ticket_db'' READ_ONLY) w"
      by (simp add: static)
    from usage_passes[OF assms this] show ?thesis
      using call by (force simp: approval)
  qed
  show "\<exists>w'. check b (usage_request ''send_reply_email'' None EXECUTE PNone) w = (Inr (), w') \<and> room self (Suc (Suc n)) w'"
  proof -
    let ?rq = "usage_request ''send_reply_email'' None EXECUTE PNone"
    have "static_ok b (context_of b ?rq)
        ((plain_permission ''send_reply_email'' EXECUTE)\<lparr>tp_max_calls_per_hour := Some 30\<rparr>) w"
      by (simp add: static)
    from usage_passes[OF assms this] show ?thesis
      using call by (force simp: approval)
  qed
  show "\<exists>w'. check b (usage_request ''read_ticket_db'' (Some ''delete_ticket'') READ_ONLY PNone) w =
      (Inl (BoundaryViolation PlainViolation (''Operation '' @ repr_str ''delete_ticket'' @
          '' is globally blocked for this agent.'') ''support-agent'' (Some ''read_ticket_db'')
          (Some ''delete_ticket'') (Some ''OPERATION_BLOCKED'')), w') \<and> room self n w'"
    by (rule call[OF _ tick]) (simp add: early)
  show "\<exists>w'. check b (usage_request ''wire_transfer'' None EXECUTE PNone) w =
      (Inl (BoundaryViolation PlainViolation (''Tool '' @ repr_str ''wire_transfer'' @
          '' is not in this agent'' @ [CHR 0x27] @ ''s permitted tool list.'') ''support-agent'' (Some ''wire_transfer'')
          None (Some ''TOOL_NOT_ALLOWED'')), w') \<and> room self n w'"
    by (rule call[OF _ tick]) (simp add: early)
  show "\<exists>w'. check b (usage_request ''issue_refund'' None EXECUTE (PFloat (Fin 50))) w =
      (Inl (ApprovalRequired ''issue_refund.* requires human approval (autonomy=LIMITED_AUTONOMOUS).''
          ''support-agent'' ''issue_refund'' None None), w') \<and> room self (Suc (Suc n)) w'"
  proof -
    let ?rq = "usage_request ''issue_refund'' None EXECUTE (PFloat (Fin 50))"
    have "static_ok b (context_of b ?rq) ((plain_permission ''issue_refund'' EXECUTE)
        \<lparr>tp_max_value := Some (NFloat (Fin 100)), tp_requires_approval := True\<rparr>) w"
      by (simp add: static finite_of_def)
    from usage_passes[OF assms this] show ?thesis
      using call by (force simp: approval)
  qed
  show "\<exists>w'. check b (usage_request ''issue_refund'' None EXECUTE (PFloat (Fin 500))) w =
      (Inl refund_violation, w') \<and> room self n w'"
    by (rule call[OF _ tick])
      (simp add: early permission_checks_def check_operation_def operation_allowed_def check_access_mode_def
        check_value_limit_def plain_permission_def finite_of_def num_lt_def refund_violation_def repr_refund)
qed

section \<open>The output\<close>

text \<open>What \<open>try_call\<close> prints for the outcome of a check.\<close>

definition outcome_line :: "exn + unit \<Rightarrow> string" where
  "outcome_line r = (case r of Inr u \<Rightarrow> ''  -> ALLOWED''
     | Inl e \<Rightarrow> (if decision_of r = Some APPROVAL_REQUIRED then ''  -> NEEDS HUMAN APPROVAL: '' else ''  -> DENIED: '') @
         exn_text e)"

lemma try_call_check:
  assumes "check (sc_boundary s) rq (sc_world s) = (r, w')" "decision_of r \<noteq> None"
  shows "try_call label (check_call rq) s = (Inr (), s\<lparr>sc_world := w',
     sc_out := sc_out s @ [''\<newline>--- '' @ label @ '' ---'', outcome_line r]\<rparr>)"
  using assms
  by (cases r rule: decision_of.cases)
    (simp_all add: try_call_def thenE_def bindE_def print_line_def check_call_def outcome_line_def)

lemma engaged_call:
  assumes "b_audit b = default_sinks"
  shows "\<exists>w'. check (engage_kill_switch b) rq w = (Inl (BoundaryViolation KillSwitchActive
     ''Kill switch is engaged; all actions are denied.'' (b_agent_name b) (Some (rq_tool_name rq))
     (rq_operation rq) (Some ''KILL_SWITCH_ACTIVE'')), w')"
proof -
  let ?b = "engage_kill_switch b"
  have "kill_switch_engaged ?b w" by (simp add: kill_switch_engaged_def engage_kill_switch_def)
  moreover have "tame_boundary ?b" using default_sinks_tame[of ?b] assms by (simp add: engage_kill_switch_def)
  ultimately have "fst (check ?b rq w) = Inl (BoundaryViolation KillSwitchActive
     ''Kill switch is engaged; all actions are denied.'' (b_agent_name b) (Some (rq_tool_name rq))
     (rq_operation rq) (Some ''KILL_SWITCH_ACTIVE''))"
    by (simp add: check_outcome local_checks_kill_switch context_of_def) (simp add: engage_kill_switch_def)
  then show ?thesis by (metis prod.collapse)
qed

section \<open>Properties\<close>

text \<open>C15: The introductory script does what its labels say: in any world with the kill-switch
  variable unset and a limiter of its own, whatever the clocks read, it ends without an error and
  prints, call by call, allowed, allowed, the blocked operation denied, the refund below the
  limit sent for approval, the one above it denied with both amounts, the unregistered tool
  denied, and, the switch engaged, the call allowed before denied.\<close>

theorem basic_usage_prints:
  assumes "usage_boundary self = Inr b" "environ w ''TOOLBOUNDARY_KILL_SWITCH'' = None"
    and "limiters w self = Map.empty"
  shows "\<exists>s. basic_usage \<lparr>sc_boundary = b, sc_world = w, sc_out = []\<rparr> = (Inr (), s) \<and> sc_out s =
    [''\<newline>--- Read ticket database (should be allowed) ---'', ''  -> ALLOWED'',
     ''\<newline>--- Send a reply email (should be allowed) ---'', ''  -> ALLOWED'',
     ''\<newline>--- Delete a ticket (globally blocked operation) ---'',
     ''  -> DENIED: Operation '' @ repr_str ''delete_ticket'' @ '' is globally blocked for this agent. (agent='' @
       repr_str ''support-agent'' @ '' tool='' @ repr_str ''read_ticket_db'' @ '' operation='' @
       repr_str ''delete_ticket'' @ '' rule='' @ repr_str ''OPERATION_BLOCKED'' @ '')'',
     ''\<newline>--- Issue a $50 refund (under limit, but requires_approval=True) ---'',
     ''  -> NEEDS HUMAN APPROVAL: issue_refund.* requires human approval (autonomy=LIMITED_AUTONOMOUS).'',
     ''\<newline>--- Issue a $500 refund (over max_value) ---'',
     ''  -> DENIED: Value 500.0 exceeds max_value 100.0 for tool '' @ repr_str ''issue_refund'' @ ''. (agent='' @
       repr_str ''support-agent'' @ '' tool='' @ repr_str ''issue_refund'' @ '' rule='' @
       repr_str ''MAX_VALUE_EXCEEDED'' @ '')'',
     ''\<newline>--- Call an unregistered tool ---'',
     ''  -> DENIED: Tool '' @ repr_str ''wire_transfer'' @ '' is not in this agent'' @ [CHR 0x27] @
       ''s permitted tool list. (agent='' @ repr_str ''support-agent'' @ '' tool='' @ repr_str ''wire_transfer'' @
       '' rule='' @ repr_str ''TOOL_NOT_ALLOWED'' @ '')'',
     ''\<newline>--- Engaging kill switch ---'',
     ''\<newline>--- Read ticket database again (kill switch now engaged) ---'',
     ''  -> DENIED: Kill switch is engaged; all actions are denied. (agent='' @ repr_str ''support-agent'' @
       '' tool='' @ repr_str ''read_ticket_db'' @ '' rule='' @ repr_str ''KILL_SWITCH_ACTIVE'' @ '')'']"
proof -
  note b = assms(1)
  have r0: "room self 0 w" using assms(2,3) by (simp add: room_def space_def deque_of_def)
  obtain w1 where w1: "room self 2 w1" and c1: "check b (usage_request ''read_ticket_db'' None READ_ONLY PNone) w = (Inr (), w1)"
    using read_ok[OF b r0] by (auto simp: numeral_2_eq_2)
  obtain w2 where w2: "room self 4 w2" and c2: "check b (usage_request ''send_reply_email'' None EXECUTE PNone) w1 = (Inr (), w2)"
    using reply_ok[OF b w1] by auto
  obtain w3 r3 where w3: "room self 4 w3"
    and c3: "check b (usage_request ''read_ticket_db'' (Some ''delete_ticket'') READ_ONLY PNone) w2 = (Inl r3, w3)"
    and r3: "r3 = BoundaryViolation PlainViolation (''Operation '' @ repr_str ''delete_ticket'' @
       '' is globally blocked for this agent.'') ''support-agent'' (Some ''read_ticket_db'')
       (Some ''delete_ticket'') (Some ''OPERATION_BLOCKED'')"
    using delete_denied[OF b w2] by auto
  obtain w4 r4 where w4: "room self 6 w4"
    and c4: "check b (usage_request ''issue_refund'' None EXECUTE (PFloat (Fin 50))) w3 = (Inl r4, w4)"
    and r4: "r4 = ApprovalRequired ''issue_refund.* requires human approval (autonomy=LIMITED_AUTONOMOUS).''
       ''support-agent'' ''issue_refund'' None None"
    using refund_asks[OF b w3] by auto
  obtain w5 where w5: "room self 6 w5"
    and c5: "check b (usage_request ''issue_refund'' None EXECUTE (PFloat (Fin 500))) w4 = (Inl refund_violation, w5)"
    using refund_denied[OF b w4] by auto
  obtain w6 r6 where c6: "check b (usage_request ''wire_transfer'' None EXECUTE PNone) w5 = (Inl r6, w6)"
    and r6: "r6 = BoundaryViolation PlainViolation (''Tool '' @ repr_str ''wire_transfer'' @
       '' is not in this agent'' @ [CHR 0x27] @ ''s permitted tool list.'') ''support-agent'' (Some ''wire_transfer'')
       None (Some ''TOOL_NOT_ALLOWED'')"
    using transfer_denied[OF b w5] by auto
  obtain w7 r7 where c7: "check (engage_kill_switch b) (usage_request ''read_ticket_db'' None READ_ONLY PNone) w6 = (Inl r7, w7)"
    and r7: "r7 = BoundaryViolation KillSwitchActive ''Kill switch is engaged; all actions are denied.''
       ''support-agent'' (Some ''read_ticket_db'') None (Some ''KILL_SWITCH_ACTIVE'')"
    using engaged_call[OF usage_fields(11)[OF b], of "usage_request ''read_ticket_db'' None READ_ONLY PNone" w6]
    by (auto simp: usage_fields(1)[OF b] usage_request_def)
  let ?s = "\<lparr>sc_boundary = engage_kill_switch b, sc_world = w7, sc_out =
     [''\<newline>--- Read ticket database (should be allowed) ---'', outcome_line (Inr ()),
      ''\<newline>--- Send a reply email (should be allowed) ---'', outcome_line (Inr ()),
      ''\<newline>--- Delete a ticket (globally blocked operation) ---'', outcome_line (Inl r3),
      ''\<newline>--- Issue a $50 refund (under limit, but requires_approval=True) ---'', outcome_line (Inl r4),
      ''\<newline>--- Issue a $500 refund (over max_value) ---'', outcome_line (Inl refund_violation),
      ''\<newline>--- Call an unregistered tool ---'', outcome_line (Inl r6),
      ''\<newline>--- Engaging kill switch ---'',
      ''\<newline>--- Read ticket database again (kill switch now engaged) ---'', outcome_line (Inl r7)]\<rparr>"
  have "basic_usage \<lparr>sc_boundary = b, sc_world = w, sc_out = []\<rparr> = (Inr (), ?s)"
    by (simp add: basic_usage_def thenE_def bindE_def print_line_def try_call_check c1 c2 c3 c4 c5 c6 c7
        r3 r4 r6 r7 refund_violation_def)
  then show ?thesis
    by (intro exI[of _ ?s] conjI)
      (simp_all add: outcome_line_def r3 r4 r6 r7 refund_violation_def ctx_part_def)
qed

theorem basic_usage_prints_witness:
  "\<exists>(b :: unit boundary) s. usage_boundary 0 = Inr b \<and>
     basic_usage \<lparr>sc_boundary = b, sc_world = sample_world, sc_out = []\<rparr> = (Inr (), s) \<and>
     sc_out s ! 7 = ''  -> NEEDS HUMAN APPROVAL: issue_refund.* requires human approval (autonomy=LIMITED_AUTONOMOUS).''"
proof -
  obtain b :: "unit boundary" where b: "usage_boundary 0 = Inr b"
    by (simp add: usage_boundary_def make_boundary_def)
  have w: "environ sample_world ''TOOLBOUNDARY_KILL_SWITCH'' = None" "limiters sample_world 0 = Map.empty"
    by (simp_all add: sample_world_def)
  show ?thesis
    using basic_usage_prints[OF b w] b by (auto simp: nth_Cons_numeral)
qed

end
