(* ===== verification/Example_AgentKey.thy ===== *)
theory Example_AgentKey
  imports AgentKey Example_Usage
begin

text \<open>
  \<open>examples/agentkey_integration.py\<close>: a guarded function behind a boundary in enforce mode with
  the AgentKey provider in its demo mode, called once. The script runs on the world and the
  texts printed so far.
\<close>

section \<open>The script\<close>

text \<open>\<open>f"{v}"\<close>: strings as they are, the rest by its \<open>str\<close>, which \<open>repr\<close> gives for built-in values.\<close>

fun formatted :: "pyval \<Rightarrow> pyexc + string" where
  "formatted (PStr s) = Inr s"
| "formatted (PDecimal d s) = s"
| "formatted (PObj t s r) = s"
| "formatted v = repr_val v"

definition ticket_signature :: "param list" where
  "ticket_signature = [\<lparr>pa_name = ''ticket_id'', pa_kind = PosOrKw, pa_default = None\<rparr>]"

definition read_ticket :: "'w func" where
  "read_ticket args kw =
    bindE (liftE (bind_partial ticket_signature args kw)) (\<lambda>bound. case map_of bound ''ticket_id'' of
        None \<Rightarrow> throwE (TypeError ''read_ticket() missing 1 required positional argument'')
      | Some v \<Rightarrow> bindE (liftE (of_py (formatted v))) (\<lambda>s. returnE (PStr (''ticket='' @ s))))"

definition ticket_boundary :: "'w agentkey \<Rightarrow> nat \<Rightarrow> exn + 'w ak_world_ext boundary" where
  "ticket_boundary k fresh = make_boundary ''agentkey-demo'' AUTONOMOUS
     (Some [plain_permission ''read_ticket'' READ_ONLY]) {} None ''PRODUCTION'' None False None None None None
     None True False None None fresh (Some (agentkey_provider k)) ENFORCE (Some ''demo-v1'')"

definition guarded_read_ticket :: "'w boundary \<Rightarrow> 'w guarded" where
  "guarded_read_ticket b = \<lparr>g_boundary = b, g_tool_name = Some ''read_ticket'', g_func_name = ''read_ticket'',
     g_func = read_ticket, g_signature = ticket_signature, g_operation = None, g_access_mode = READ_ONLY,
     g_value_arg = None, g_record_count_arg = None, g_correlation_id_arg = None, g_resource = None,
     g_tool_version = None, g_schema_hash = None, g_manifest_hash = None, g_sensitive_args = {},
     g_log_arg_values = True\<rparr>"

definition agentkey_demo :: "nat \<Rightarrow> ('w ak_world_scheme \<times> string list, exn, unit) eff" where
  "agentkey_demo fresh =
    bindE (printing (make_agentkey None None)) (\<lambda>provider.
    bindE (liftE (ticket_boundary provider fresh)) (\<lambda>b.
    thenE (print_text (''--- ToolBoundary '' @ [CHR 0xD7] @ '' AgentKey Integration Demo ---''))
   (thenE (print_text (''Session ID: '' @ ak_session provider))
   (bindE (printing (wrapper (guarded_read_ticket b) [] [(''ticket_id'', PStr ''INC-1001'')])) (\<lambda>output.
    bindE (liftE (of_py (formatted output))) (\<lambda>s.
    thenE (print_text (''Execution Output: '' @ s))
    (print_text ''--- Demo Completed Successfully ---'')))))))"

section \<open>Metadata that serialises\<close>

definition writable :: "pydict \<Rightarrow> bool" where
  "writable d \<longleftrightarrow> (\<forall>(k, v) \<in> set d. is_str_key k \<and> (\<forall>jo. \<exists>t. dumps jo v = Inr t))"

lemma writable_dumps:
  assumes "writable d"
  shows "\<exists>t. dumps jo (PDict d) = Inr t"
proof -
  have "\<exists>t. dump_dict jo (map (\<lambda>(k, v). (k, dumps jo v)) d) = Inr t"
    using assms by (intro dump_dict_ok) (auto simp: writable_def list_all_iff)
  then show ?thesis by simp
qed

lemma writable_Nil [simp]: "writable []"
  and writable_Cons [simp]:
    "writable ((k, v) # d) \<longleftrightarrow> is_str_key k \<and> (\<forall>jo. \<exists>t. dumps jo v = Inr t) \<and> writable d"
  by (auto simp: writable_def)

lemma writable_dict_set: "writable d \<Longrightarrow> writable (dict_set d (KStr k) (PStr v))"
  by (induction d rule: list.induct) (auto split: if_splits)

lemma writable_set_truthy: "writable d \<Longrightarrow> writable (set_truthy k v d)"
  by (simp add: set_truthy_def writable_dict_set)

lemma writable_evidence: "writable (or_empty (rq_metadata rq)) \<Longrightarrow> writable (evidence_metadata rq fc ld g)"
  by (auto simp: evidence_metadata_def Let_def intro!: writable_dict_set writable_set_truthy split: option.splits)

lemma string_dict_writable: "string_dict d \<Longrightarrow> writable d"
  unfolding string_dict_def writable_def by auto

section \<open>The run\<close>

text \<open>What the run leaves of the world: the table of pending calls, and audit lines on the log.\<close>

definition allowed_lines :: "nat \<Rightarrow> 'w ak_world_scheme \<Rightarrow> 'w ak_world_scheme \<Rightarrow> bool" where
  "allowed_lines n w w' \<longleftrightarrow> (\<exists>texts. length texts = n \<and>
     log w' = log w @ map (\<lambda>t. (''toolboundary.audit'', log_INFO, t)) texts)"

lemma allowed_lines_trans:
  assumes "allowed_lines n w w'" "allowed_lines m w' w''"
  shows "allowed_lines (n + m) w w''"
proof -
  obtain ts us where "length ts = n" "length us = m"
    "log w' = log w @ map (\<lambda>t. (''toolboundary.audit'', log_INFO, t)) ts"
    "log w'' = log w' @ map (\<lambda>t. (''toolboundary.audit'', log_INFO, t)) us"
    using assms by (auto simp: allowed_lines_def)
  then show ?thesis by (simp add: allowed_lines_def) (intro exI[of _ "ts @ us"], simp)
qed

lemma allowed_record:
  fixes w :: "'w ak_world_scheme"
  assumes "writable md"
  shows "\<exists>ev w'. audit_record default_sinks agent ''ALLOW'' msg tool opn mode reason corr md w = (Inr ev, w') \<and>
     allowed_lines 1 w w' \<and> ak_pending w' = ak_pending w"
proof -
  obtain ev line where r: "audit_record default_sinks agent ''ALLOW'' msg tool opn mode reason corr md w =
      (Inr ev, w\<lparr>uuid_ix := Suc (uuid_ix w), wall_ix := Suc (wall_ix w),
        log := log w @ [(''toolboundary.audit'', log_INFO, line)]\<rparr>)"
    using audit_record_default[of md agent "''ALLOW''" msg tool opn mode reason corr w] writable_dumps[OF assms]
    by auto
  show ?thesis
    unfolding r by (simp add: allowed_lines_def) (intro exI[of _ "[line]"], simp)
qed

lemma ticket_fields:
  assumes "ticket_boundary k fresh = Inr b"
  shows "b_agent_name b = ''agentkey-demo''" "b_autonomy b = AUTONOMOUS"
    "b_permissions b ''read_ticket'' = Some (plain_permission ''read_ticket'' READ_ONLY)"
    "b_blocked_operations b = {}" "b_allowed_environments b = None"
    "b_max_actions_per_hour b = None" "\<not> b_kill_switch b" "b_kill_switch_env b = None"
    "b_valid_from b = None" "b_valid_to b = None" "b_audit b = default_sinks" "b_policy_hooks b = []"
    "\<not> b_strict_limits b" "b_provider b = Some (agentkey_provider k)" "b_provider_mode b = ENFORCE"
  using assms by (auto simp: ticket_boundary_def make_boundary_def make_trail_def permission_map_def
      plain_permission_def)

lemma ticket_check:
  fixes w :: "'w ak_world_scheme"
  assumes b: "ticket_boundary k fresh = Inr b"
    and rq: "rq_tool_name rq = ''read_ticket''" "rq_operation rq = None" "rq_access_mode rq = READ_ONLY"
      "rq_value rq = PNone" "rq_record_count rq = PNone" "writable (or_empty (rq_metadata rq))"
  shows "\<exists>w'. check b rq w = (Inr (), w') \<and> allowed_lines 1 w w' \<and> ak_pending w' = ak_pending w"
proof -
  let ?c = "context_of b rq"
  have "static_ok b ?c (plain_permission ''read_ticket'' READ_ONLY) w"
    by (simp add: static_ok_def ticket_fields[OF b] rq context_of_def within_validity_def environment_ok_def
        kill_switch_engaged_def operation_allowed_def plain_permission_def value_ok_def records_ok_def)
  then have "local_checks b ?c w = (Inr (), tick w)"
    by (simp add: local_checks_static thenE_def bindE_def check_rate_limit_def check_global_rate_def
        check_tool_rate_def check_policy_hooks_def check_requires_approval_def needs_approval_def
        ticket_fields[OF b] rq context_of_def plain_permission_def)
  then have "check b rq w = bindE (audit_record default_sinks (b_agent_name b) ''ALLOW''
      (''read_ticket.'' @ op_or_star None @ '' allowed'') (Some ''read_ticket'') None (Some (access_value READ_ONLY))
      None (rq_correlation_id rq) (or_empty (rq_metadata rq))) (\<lambda>_. returnE ()) (tick w)"
    by (simp add: check_def audit_check_def rq ticket_fields[OF b])
  moreover have "allowed_lines n (tick w) w' = allowed_lines n w w'" "ak_pending (tick w) = ak_pending w" for n w'
    by (simp_all add: allowed_lines_def tick_def)
  ultimately show ?thesis
    using allowed_record[OF rq(6), of "b_agent_name b" "''read_ticket.'' @ op_or_star None @ '' allowed''"
        "Some ''read_ticket''" None "Some (access_value READ_ONLY)" None "rq_correlation_id rq" "tick w"]
    by (auto simp: bindE_def)
qed

text \<open>The demo provider: what it grants it remembers, and forgets when the execution is recorded.\<close>

lemma demo_authorize:
  fixes w :: "'w ak_world_scheme"
  assumes "ak_client k = None" "ak_pending w = Map.empty"
  shows "\<exists>g w' event attempt. agent_authorize k fc ld w = (Inr g, w') \<and> pg_allowed g \<and>
     pg_authorization_id g = Some event \<and> pg_attempt_id g = Some attempt \<and> event \<noteq> [] \<and> attempt \<noteq> [] \<and>
     log w' = log w \<and> ak_pending w' = [attempt \<mapsto> (fc, ak_session k), event \<mapsto> (fc, ak_session k)]"
  using assms
  by (auto simp: agent_authorize_def ask_agentkey_def demo_answer_def fresh_id_def bindE_def thenE_def uuid4_def)

lemma demo_record:
  fixes w :: "'w ak_world_scheme"
  assumes "ak_client k = None" "pg_authorization_id g = Some event" "pg_attempt_id g = Some attempt"
    and "event \<noteq> []" "attempt \<noteq> []"
    and "ak_pending w = [attempt \<mapsto> (fc, s), event \<mapsto> (fc, s)]"
  shows "\<exists>r w'. agent_record k g ex w = (Inr r, w') \<and> log w' = log w \<and> ak_pending w' = Map.empty"
  using assms
  by (auto simp: agent_record_def take_pending_def Let_def send_record_def fresh_id_def bindE_def uuid4_def fun_eq_iff)

lemma ticket_authorized:
  fixes w :: "'w ak_world_scheme"
  assumes b: "ticket_boundary k fresh = Inr b" and k: "ak_client k = None" "ak_pending w = Map.empty"
    and rq: "rq_tool_name rq = ''read_ticket''" "rq_operation rq = None" "rq_access_mode rq = READ_ONLY"
      "rq_value rq = PNone" "rq_record_count rq = PNone" "writable (or_empty (rq_metadata rq))"
      "rq_arguments rq = [(KStr ''ticket_id'', PStr i)]"
  shows "\<exists>a w' g event attempt. authorize_call b rq w = (Inr a, w') \<and> allowed_lines 2 w w' \<and> \<not> ac_consumed a \<and>
     ac_provider_grant a = Some g \<and> pg_authorization_id g = Some event \<and> pg_attempt_id g = Some attempt \<and>
     event \<noteq> [] \<and> attempt \<noteq> [] \<and>
     ak_pending w' = [attempt \<mapsto> (ac_frozen_call a, ak_session k), event \<mapsto> (ac_frozen_call a, ak_session k)]"
proof -
  obtain w1 where c: "check b (call_request.truncate rq) w = (Inr (), w1)" "allowed_lines 1 w w1" "ak_pending w1 = Map.empty"
    using ticket_check[OF b, of "call_request.truncate rq" w] rq k(2) by (auto simp: call_request.truncate_def)
  have "writable (fc_arguments (frozen_of b rq))" by (simp add: frozen_of_def rq(7))
  then obtain d where d: "call_digest (frozen_of b rq) = Inr d"
    using call_digest_ok[OF writable_dumps] by blast
  let ?f = "(frozen_of b rq)\<lparr>fc_call_digest := d\<rparr>"
  let ?ld = "local_allow b rq (uuids w1 (uuid_ix w1))"
  let ?w1 = "w1\<lparr>uuid_ix := Suc (uuid_ix w1)\<rparr>"
  obtain g w2 event attempt where g: "agent_authorize k ?f ?ld ?w1 = (Inr g, w2)" "pg_allowed g"
    "pg_authorization_id g = Some event" "pg_attempt_id g = Some attempt" "event \<noteq> []" "attempt \<noteq> []"
    "log w2 = log w1" "ak_pending w2 = [attempt \<mapsto> (?f, ak_session k), event \<mapsto> (?f, ak_session k)]"
    using demo_authorize[OF k(1), of ?w1 ?f ?ld] c(3) by auto
  obtain ev w3 where r: "audit_record default_sinks (b_agent_name b) ''ALLOW''
      (''read_ticket.'' @ op_or_star None @ '' authorized (provider: '' @ pg_provider g @ '')'')
      (Some ''read_ticket'') None (Some (access_value READ_ONLY)) None (rq_correlation_id rq)
      (evidence_metadata rq ?f ?ld (Some g)) w2 = (Inr ev, w3)" "allowed_lines 1 w2 w3" "ak_pending w3 = ak_pending w2"
    using allowed_record[OF writable_evidence[OF rq(6)]] by blast
  have freeze: "freeze_with_digest (frozen_of b rq) = Inr ?f" using d by (simp add: freeze_with_digest_Inr)
  let ?a = "\<lparr>ac_local_decision = ?ld, ac_frozen_call = ?f, ac_provider_grant = Some g, ac_consumed = False,
     ac_authorization_id = uuids w3 (uuid_ix w3)\<rparr>"
  have ask: "ask_provider b (agentkey_provider k) ?f ?ld ?w1 = (Inr (Some g), w2)"
    using g(1) by (simp add: ask_provider_def agentkey_provider_def bindE_def)
  have heed: "heed_denial b ?f (Some g) w2 = (Inr (), w2)" using g(2) by (simp add: heed_denial_def)
  have "authorize_call b rq w = (Inr ?a, w3\<lparr>uuid_ix := Suc (uuid_ix w3)\<rparr>)"
    using c(1) freeze ask heed r(1)
    by (simp add: authorize_call_def authorize_frozen_def thenE_Inr bind_uuid Let_def bindE_Inr rq ticket_fields[OF b]
        make_authorization_fresh)
  moreover have "allowed_lines 2 w (w3\<lparr>uuid_ix := Suc (uuid_ix w3)\<rparr>)"
    using allowed_lines_trans[OF c(2), of 1 w3] r(2) g(7) by (simp add: allowed_lines_def numeral_2_eq_2)
  ultimately show ?thesis
    using g(3-6,8) r(3) by (intro exI[of _ ?a] exI[of _ "w3\<lparr>uuid_ix := Suc (uuid_ix w3)\<rparr>"] exI[of _ g] exI) auto
qed

lemma ticket_dispatched:
  fixes w :: "'w ak_world_scheme"
  assumes b: "ticket_boundary k fresh = Inr b" and k: "ak_client k = None" and a: "\<not> ac_consumed a"
    and g: "ac_provider_grant a = Some g" "pg_authorization_id g = Some event" "pg_attempt_id g = Some attempt"
      "event \<noteq> []" "attempt \<noteq> []" "ak_pending w = [attempt \<mapsto> (fc, s), event \<mapsto> (fc, s)]"
    and f: "\<And>v. func args kw v = (Inr (PStr out), v)"
  shows "\<exists>w'. recorded_call b func a corr args kw w = (Inr (PStr out), w') \<and> allowed_lines 1 w w' \<and>
     ak_pending w' = Map.empty"
proof -
  let ?w = "tick (tick w)"
  obtain ex where ex: "build_execution_record (fc_call_digest (ac_frozen_call a)) (now_of w) (now_of (tick w))
      (Some (PStr out)) None = Inr ex"
    using build_execution_record_ok[of "Inr (PStr out)" "fc_call_digest (ac_frozen_call a)" "now_of w" "now_of (tick w)"] by (auto simp: canonicalize_def)
  obtain ev w1 where r: "audit_record default_sinks (b_agent_name b) ''ALLOW'' (''Execution recorded: '' @ er_status ex)
      (Some (fc_tool_name (ac_frozen_call a))) (fc_operation (ac_frozen_call a)) None None corr
      (execution_metadata a ex) ?w = (Inr ev, w1)" "allowed_lines 1 ?w w1" "ak_pending w1 = ak_pending ?w"
    using allowed_record[OF string_dict_writable[OF string_dict_execution_metadata]] by blast
  obtain receipt w2 where p: "agent_record k g ex w1 = (Inr receipt, w2)" "log w2 = log w1" "ak_pending w2 = Map.empty"
    using demo_record[OF k g(2-5), of w1 fc s ex] r(3) g(6) by (auto simp: tick_def)
  have receipt: "provider_receipt_of (agentkey_provider k) g ex w1 = (Inr (Some receipt), w2)"
    using p(1) by (simp add: provider_receipt_of_def agentkey_provider_def bindE_def)
  have "record_execution b (Some (PStr out)) None (now_of w) (now_of (tick w)) corr (a, ?w) =
      (Inr (Some receipt), (mark_consumed a, w2))"
    using r(1) receipt
    by (simp add: record_execution_unfold[OF a] ex on_world_def bindE_Inr ticket_fields[OF b] g(1))
  then have "recorded_call b func a corr args kw w = (Inr (PStr out), w2)"
    by (simp add: recorded_call_def bindE_def time_time_def f tick_def now_of_def Let_def)
  moreover have "allowed_lines 1 w w2"
    using r(2) p(2) by (simp add: allowed_lines_def tick_def)
  ultimately show ?thesis using p(3) by blast
qed

text \<open>The request that the guarded function makes of the call.\<close>

lemma ticket_request:
  "\<exists>rq. request_of (guarded_read_ticket b) [(''ticket_id'', PStr i)] = Inr rq \<and>
     rq_tool_name rq = ''read_ticket'' \<and> rq_operation rq = None \<and> rq_access_mode rq = READ_ONLY \<and>
     rq_value rq = PNone \<and> rq_record_count rq = PNone \<and> rq_arguments rq = [(KStr ''ticket_id'', PStr i)] \<and>
     writable (or_empty (rq_metadata rq))"
proof -
  have "writable [(KStr ''args'', PDict [(KStr ''ticket_id'', PStr r)])]" for r
  proof -
    have "writable [(KStr ''ticket_id'', PStr r)]" by simp
    from writable_dumps[OF this] show ?thesis by (simp del: dumps.simps)
  qed
  then show ?thesis
    by (simp add: request_of_def resolved_operation_def arg_of_def string_arg_def Let_def guarded_read_ticket_def
        resolved_tool_name_def or_empty_def redact_args_def)
qed

lemma ticket_bound: "bind_partial ticket_signature [] [(''ticket_id'', v)] = Inr [(''ticket_id'', v)]"
  by (simp add: bind_partial_def bind_keywords_def ticket_signature_def is_var_def Let_def)

lemma ticket_call:
  fixes w :: "'w ak_world_scheme"
  assumes b: "ticket_boundary k fresh = Inr b" and k: "ak_client k = None" "ak_pending w = Map.empty"
  shows "\<exists>w'. wrapper (guarded_read_ticket b) [] [(''ticket_id'', PStr i)] w = (Inr (PStr (''ticket='' @ i)), w') \<and>
     allowed_lines 3 w w' \<and> ak_pending w' = Map.empty"
proof -
  obtain rq where rq: "request_of (guarded_read_ticket b) [(''ticket_id'', PStr i)] = Inr rq"
    "rq_tool_name rq = ''read_ticket''" "rq_operation rq = None" "rq_access_mode rq = READ_ONLY"
    "rq_value rq = PNone" "rq_record_count rq = PNone" "rq_arguments rq = [(KStr ''ticket_id'', PStr i)]"
    "writable (or_empty (rq_metadata rq))"
    using ticket_request by blast
  obtain a w1 g event attempt where a: "authorize_call b rq w = (Inr a, w1)" "allowed_lines 2 w w1" "\<not> ac_consumed a"
    "ac_provider_grant a = Some g" "pg_authorization_id g = Some event" "pg_attempt_id g = Some attempt"
    "event \<noteq> []" "attempt \<noteq> []"
    "ak_pending w1 = [attempt \<mapsto> (ac_frozen_call a, ak_session k), event \<mapsto> (ac_frozen_call a, ak_session k)]"
    using ticket_authorized[OF b k rq(2-6,8,7)] by blast
  have f: "read_ticket [] [(''ticket_id'', PStr i)] v = (Inr (PStr (''ticket='' @ i)), v)" for v :: "'w ak_world_scheme"
    by (simp add: read_ticket_def bindE_def ticket_bound)
  obtain w2 where d: "recorded_call b read_ticket a (rq_correlation_id rq) [] [(''ticket_id'', PStr i)] w1 =
      (Inr (PStr (''ticket='' @ i)), w2)" "allowed_lines 1 w1 w2" "ak_pending w2 = Map.empty"
    using ticket_dispatched[OF b k(1) a(3-9), of read_ticket] f by blast
  have "wrapper (guarded_read_ticket b) [] [(''ticket_id'', PStr i)] w = (Inr (PStr (''ticket='' @ i)), w2)"
    using rq(1) a(1) d(1)
    by (simp add: wrapper_def bindE_Inr dispatch_recorded_def ticket_bound guarded_read_ticket_def
        ticket_fields[OF b]) (simp add: ticket_signature_def bindE_Inr)
  moreover have "allowed_lines 3 w w2" using allowed_lines_trans[OF a(2) d(2)] by simp
  ultimately show ?thesis using d(3) by blast
qed

section \<open>Properties\<close>

text \<open>C14: The AgentKey script runs the whole flow: in every world, whatever the clocks and the
  identifiers, the guarded call is checked, granted by the provider in demo mode, executed and
  recorded; the script prints the output of the function and ends without an error; the log has
  gained three audit lines, one each for the decision, the authorization and the execution, and
  the provider has no call pending.\<close>

theorem agentkey_demo_runs:
  fixes w :: "'w ak_world_scheme"
  shows "\<exists>w' session texts. agentkey_demo fresh (w, []) = (Inr (), (w',
       [''--- ToolBoundary '' @ [CHR 0xD7] @ '' AgentKey Integration Demo ---'',
        ''Session ID: ak-session-'' @ session, ''Execution Output: ticket=INC-1001'',
        ''--- Demo Completed Successfully ---''])) \<and>
     length texts = 3 \<and> log w' = log w @ map (\<lambda>t. (''toolboundary.audit'', log_INFO, t)) texts \<and>
     ak_pending w' = Map.empty"
proof -
  obtain k :: "'w agentkey" and w1 s where k: "make_agentkey None None w = (Inr k, w1)" "ak_client k = None"
    "ak_session k = ''ak-session-'' @ s" "ak_pending w1 = Map.empty" "log w1 = log w"
    by (simp add: make_agentkey_def fresh_id_def bindE_def thenE_def uuid4_def)
  obtain b where b: "ticket_boundary k fresh = Inr b" by (simp add: ticket_boundary_def make_boundary_def)
  obtain w2 where w2: "wrapper (guarded_read_ticket b) [] [(''ticket_id'', PStr ''INC-1001'')] w1 =
      (Inr (PStr (''ticket='' @ ''INC-1001'')), w2)" "allowed_lines 3 w1 w2" "ak_pending w2 = Map.empty"
    using ticket_call[OF b k(2,4)] by blast
  have "agentkey_demo fresh (w, []) = (Inr (), (w2,
       [''--- ToolBoundary '' @ [CHR 0xD7] @ '' AgentKey Integration Demo ---'',
        ''Session ID: ak-session-'' @ s, ''Execution Output: ticket=INC-1001'',
        ''--- Demo Completed Successfully ---'']))"
    using w2(1) by (simp add: agentkey_demo_def bindE_def thenE_def printing_def k(1,3) b print_text_def)
  then show ?thesis using w2(2,3) k(5) by (auto simp: allowed_lines_def)
qed

end
