(* ===== verification/Example_Network.thy ===== *)
theory Example_Network
  imports Network_Safety Example_Usage
begin

text \<open>
  \<open>examples/network_enforcement.py\<close>: a boundary, the proxy and a stand-in for the internal
  service composed, and the four requests of the script: authorized, without a token, with the
  token of the first again, and with a token that has expired.
\<close>

section \<open>The script\<close>

text \<open>The fake service answers every GET; what the library replies to other methods is left out.\<close>

definition crm_body :: string where
  "crm_body = ''{'' @ [CHR 0x22] @ ''customer_id'' @ [CHR 0x22] @ '': '' @ [CHR 0x22] @ ''42'' @ [CHR 0x22] @ '', '' @
     [CHR 0x22] @ ''name'' @ [CHR 0x22] @ '': '' @ [CHR 0x22] @ ''Example Customer'' @ [CHR 0x22] @ ''}''"

definition fake_crm :: "'w upstream" where
  "fake_crm method url body hs =
    (if method = ''GET'' then returnE (UpResponse 200 [(''Content-Type'', ''application/json''),
       (''Content-Length'', str_of_int (int (length crm_body)))] crm_body)
     else throwE (Foreign (PyExc ''OutOfModel'' ''method other than GET'') False))"

text \<open>
  \<open>urlopen\<close> on the proxy's URL, with the headers \<open>extra\<close> that the client library adds: a
  response, or on the left the reply of the \<open>HTTPError\<close> raised for a status outside 200 to 299.
\<close>

definition urlopen ::
  "'w enforcer \<Rightarrow> (string \<times> string) list \<Rightarrow> string option \<Rightarrow> ('w world_scheme, exn, http_reply + http_reply) eff" where
  "urlopen self extra token =
    bindE (handle self fake_crm \<lparr>hr_command = ''GET'', hr_path = ''/crm_api/customers/42'',
        hr_headers = extra @ (case token of None \<Rightarrow> [] | Some s \<Rightarrow> [(''X-toolboundary-token'', s)]), hr_input = []\<rparr>)
      (\<lambda>reply. returnE (if 200 \<le> rp_status reply \<and> rp_status reply < 300 then Inr reply else Inl reply))"

definition http_line :: "http_reply \<Rightarrow> string" where
  "http_line reply = ''  -> HTTP '' @ str_of_int (rp_status reply) @ '': '' @ rp_body reply"

text \<open>The \<open>try\<close> of the last three sections.\<close>

definition expect_refusal ::
  "'w enforcer \<Rightarrow> (string \<times> string) list \<Rightarrow> string option \<Rightarrow> string list \<Rightarrow> string \<Rightarrow>
   ('w world_scheme \<times> string list, exn, unit) eff" where
  "expect_refusal self extra token unexpected note =
    bindE (printing (urlopen self extra token)) (\<lambda>r. case r of
        Inr reply \<Rightarrow> modifyE (apsnd (\<lambda>out. out @ unexpected))
      | Inl reply \<Rightarrow> print_text (http_line reply @ note))"

definition crm_boundary :: "token_issuer \<Rightarrow> nat \<Rightarrow> exn + 'w boundary" where
  "crm_boundary issuer fresh = make_boundary ''quote-agent'' LIMITED_AUTONOMOUS
     (Some [plain_permission ''crm_api'' READ_ONLY]) {} None ''PRODUCTION'' None False None None None None
     None True False (Some issuer) None fresh None OBSERVE None"

definition crm_request :: call_request where
  "crm_request = usage_request ''crm_api'' None READ_ONLY PNone"

text \<open>A sleep shows in the later readings of the clock only.\<close>

definition time_sleep :: "rat \<Rightarrow> ('s, exn, unit) eff" where
  "time_sleep seconds = returnE ()"

definition unexpectedly :: string where
  "unexpectedly = ''  -> Unexpectedly allowed! (this should not happen)''"

text \<open>The sections of the script, with the enforcer started.\<close>

definition crm_requests ::
  "'x ledger_world_ext boundary \<Rightarrow> 'x ledger_world_ext enforcer \<Rightarrow> (string \<times> string) list \<Rightarrow>
   ('x ledger_world_scheme \<times> string list, exn, unit) eff" where
  "crm_requests b self extra =
    thenE (print_text ''\<newline>--- 1. Properly authorized call ---'')
   (bindE (printing (check_and_authorize b crm_request)) (\<lambda>token.
    bindE (liftE (of_py (to_wire token))) (\<lambda>wire.
    bindE (printing (urlopen self extra (Some wire))) (\<lambda>r.
    bindE (liftE (case r of Inr reply \<Rightarrow> Inr reply | Inl reply \<Rightarrow> Inl (Foreign (PyExc ''HTTPError'' (rp_body reply)) True)))
      (\<lambda>reply.
    thenE (print_text (http_line reply))
   (thenE (print_text ''\<newline>--- 2. Call with NO token (simulating a bypassing/compromised agent) ---'')
   (thenE (expect_refusal self extra None [] ''  (correctly rejected, CRM never touched)'')
   (thenE (print_text ''\<newline>--- 3. Reusing the SAME token a second time (replay attack) ---'')
   (thenE (expect_refusal self extra (Some wire) [unexpectedly] ''  (correctly rejected as already-used)'')
   (thenE (print_text ''\<newline>--- 4. Waiting for token TTL to expire, then trying a fresh-but-stale token ---'')
   (bindE (printing (check_and_authorize b crm_request)) (\<lambda>stale.
    thenE (print_text ''  Sleeping 11 seconds (TTL is 10s)...'')
   (thenE (time_sleep 11)
   (bindE (liftE (of_py (to_wire stale))) (\<lambda>stale_wire.
    expect_refusal self extra (Some stale_wire) [unexpectedly] ''  (correctly rejected as expired)'')))))))))))))))"

text \<open>\<open>main\<close>, which leaves the enforcer it has stopped; the ports are the operating system's.\<close>

definition network_demo ::
  "nat \<Rightarrow> nat \<Rightarrow> nat \<Rightarrow> (string \<Rightarrow> int \<Rightarrow> exn + unit) \<Rightarrow> (string \<times> string) list \<Rightarrow>
   ('x ledger_world_scheme \<times> string list, exn, 'x ledger_world_ext enforcer) eff" where
  "network_demo fresh crm_port proxy_port bind_socket extra =
    (let crm_url = ''http://127.0.0.1:'' @ str_of_nat crm_port in
    thenE (print_text (''Starting fake internal CRM (the '' @ [CHR 0x27] @ ''real tool'' @ [CHR 0x27] @
      '' the agent should not reach directly)...''))
   (thenE (print_text (''  Fake CRM listening at '' @ crm_url @ '' (NOT directly reachable by the agent in a real deployment)''))
   (bindE (printing (make_issuer (Some ''demo-shared-secret'') (Fin 10))) (\<lambda>issuer.
    bindE (liftE (crm_boundary issuer fresh)) (\<lambda>b.
    bindE (liftE (make_enforcer issuer [\<lparr>ur_tool_name = ''crm_api'', ur_upstream_base_url = crm_url,
        ur_required_operation = None\<rparr>] mark_used None (10 * 1024 * 1024))) (\<lambda>self0 (w, out).
      case start_server bind_socket ''127.0.0.1'' 0 (self0, w) of
        (Inl e, (self, w')) \<Rightarrow> (Inl e, (w', out))
      | (Inr _, (self, w')) \<Rightarrow>
          thenE (print_text (''NetworkEnforcer proxy listening at http://127.0.0.1:'' @ str_of_nat proxy_port))
         (thenE (crm_requests b self extra)
         (thenE (print_text ''\<newline>Done.'') (returnE (stop_server self)))) (w', out)))))))"

section \<open>The token of the boundary\<close>

lemma crm_fields:
  assumes "crm_boundary issuer fresh = Inr b"
  shows "b_agent_name b = ''quote-agent''" "b_autonomy b = LIMITED_AUTONOMOUS"
    "b_permissions b ''crm_api'' = Some (plain_permission ''crm_api'' READ_ONLY)"
    "b_blocked_operations b = {}" "b_allowed_environments b = None"
    "b_max_actions_per_hour b = None" "\<not> b_kill_switch b" "b_kill_switch_env b = None"
    "b_valid_from b = None" "b_valid_to b = None" "b_audit b = default_sinks" "b_policy_hooks b = []"
    "\<not> b_strict_limits b" "b_token_issuer b = Some issuer"
  using assms by (auto simp: crm_boundary_def make_boundary_def make_trail_def permission_map_def
      plain_permission_def)

lemma crm_check:
  fixes w :: "'w world_scheme"
  assumes b: "crm_boundary issuer fresh = Inr b"
  shows "\<exists>line. check b crm_request w = (Inr (), w\<lparr>uuid_ix := Suc (uuid_ix w), wall_ix := wall_ix w + 2,
     log := log w @ [(''toolboundary.audit'', log_INFO, line)]\<rparr>)"
proof -
  let ?c = "context_of b crm_request"
  have "static_ok b ?c (plain_permission ''crm_api'' READ_ONLY) w"
    by (simp add: static_ok_def crm_fields[OF b] crm_request_def usage_request_def context_of_def within_validity_def
        environment_ok_def kill_switch_engaged_def operation_allowed_def plain_permission_def value_ok_def records_ok_def)
  then have "local_checks b ?c w = (Inr (), tick w)"
    by (simp add: local_checks_static thenE_def bindE_def check_rate_limit_def check_global_rate_def
        check_tool_rate_def check_policy_hooks_def check_requires_approval_def needs_approval_def
        crm_fields[OF b] crm_request_def usage_request_def context_of_def plain_permission_def)
  then have c: "check b crm_request w = bindE (audit_record default_sinks (b_agent_name b) ''ALLOW''
      (''crm_api.'' @ op_or_star None @ '' allowed'') (Some ''crm_api'') None (Some (access_value READ_ONLY))
      None None []) (\<lambda>_. returnE ()) (tick w)"
    by (simp add: check_def audit_check_def crm_request_def usage_request_def or_empty_def crm_fields[OF b])
  have "\<exists>t. dumps jo (PDict []) = Inr t" for jo using dump_dict_ok[of "[]"] by simp
  from audit_record_default[OF this, of "b_agent_name b" "''ALLOW''" "''crm_api.'' @ op_or_star None @ '' allowed''"
      "Some ''crm_api''" None "Some (access_value READ_ONLY)" None None "tick w"]
  obtain ev line where "audit_record default_sinks (b_agent_name b) ''ALLOW''
      (''crm_api.'' @ op_or_star None @ '' allowed'') (Some ''crm_api'') None (Some (access_value READ_ONLY))
      None None [] (tick w) = (Inr ev, (tick w)\<lparr>uuid_ix := Suc (uuid_ix (tick w)), wall_ix := Suc (wall_ix (tick w)),
        log := log (tick w) @ [(''toolboundary.audit'', log_INFO, line)]\<rparr>)" by auto
  then show ?thesis unfolding c by (auto simp: bindE_def tick_def)
qed

text \<open>What a token of this boundary is, issued at \<open>q\<close> for ten seconds.\<close>

definition crm_token :: "token_issuer \<Rightarrow> rat \<Rightarrow> string \<Rightarrow> authorization_token \<Rightarrow> bool" where
  "crm_token issuer q s t \<longleftrightarrow> to_wire t = Inr s \<and> s \<noteq> [] \<and> from_wire s = Inr t \<and> at_tool_name t = PStr ''crm_api'' \<and>
     at_operation t = opt_str None \<and> sign issuer (token_payload t) = Inr (at_signature t) \<and>
     (\<exists>i. at_token_id t = PStr i) \<and> as_num (at_expires_at t) = Some (NFloat (fadd (Fin q) (ti_ttl_seconds issuer)))"

lemma crm_authorized:
  fixes w :: "'x ledger_world_scheme"
  assumes b: "crm_boundary issuer fresh = Inr b" and d: "\<And>n. is_double (wall w n)"
  shows "\<exists>t s w'. check_and_authorize b crm_request w = (Inr t, w') \<and>
    crm_token issuer (wall w (wall_ix w + 2)) s t \<and> wall w' = wall w \<and> wall_ix w' = wall_ix w + 3 \<and>
    used_tokens w' = used_tokens w"
proof -
  obtain line where c: "check b crm_request w = (Inr (), w\<lparr>uuid_ix := Suc (uuid_ix w), wall_ix := wall_ix w + 2,
     log := log w @ [(''toolboundary.audit'', log_INFO, line)]\<rparr>)" (is "_ = (_, ?w1)")
    using crm_check[OF b] by blast
  obtain t w' where t: "check_and_authorize b crm_request w = (Inr t, w')"
    using check_and_authorize_ok[OF crm_fields(14)[OF b]] c by (metis fst_conv)
  then have i: "issue issuer ''quote-agent'' ''crm_api'' None ?w1 = (Inr t, w')"
    using c by (simp add: check_and_authorize_def thenE_Inr crm_fields[OF b] crm_request_def usage_request_def)
  then have f: "at_issued_at t = PFloat (Fin (wall w (wall_ix w + 2)))"
    "at_expires_at t = PFloat (fadd (Fin (wall w (wall_ix w + 2))) (ti_ttl_seconds issuer))"
    "at_tool_name t = PStr ''crm_api''" "at_operation t = opt_str None" "\<exists>i. at_token_id t = PStr i"
    "sign issuer (token_payload t) = Inr (at_signature t)"
    "wall w' = wall w" "wall_ix w' = wall_ix w + 3" "used_tokens w' = used_tokens w"
    by (auto simp: issue_def bindE_Inr_iff time_time_def token_secret_def Let_def token_payload_def)
  obtain s where "to_wire t = Inr s" "s \<noteq> []" "from_wire s = Inr t"
    using issued_wire[OF t crm_fields(14)[OF b] f(1) d] by blast
  then show ?thesis using t f by (intro exI[of _ t] exI[of _ s] exI[of _ w']) (simp add: crm_token_def)
qed

section \<open>The proxy in front of the service\<close>

lemma urlsplit_host:
  assumes "good_netloc n"
  shows "urlsplit (''http://'' @ n) = Inr \<lparr>su_scheme = ''http'', su_netloc = n, su_path = [], su_query = [], su_fragment = []\<rparr>"
proof -
  have n: "\<not> removed_char c" "\<not> netloc_end c" "c \<noteq> CHR ''[''" "c \<noteq> CHR '']''" if "c \<in> set n" for c
    using assms that by (auto simp: good_netloc_def)
  have "filter (\<lambda>c. \<not> removed_char c) n = n" using n(1) by (simp add: filter_id_conv)
  then have 1: "clean_url (''http://'' @ n) = ''http://'' @ n" by (simp add: clean_url_def removed_char_def)
  have 2: "split_scheme (''http://'' @ n) = (''http'', ''//'' @ n)"
    by (simp add: split_scheme_def ascii_alpha_def scheme_char_def py_lower_def py_lower_char_def Let_def)
  have 3: "split_netloc (''//'' @ n) = (n, [])"
    using n(2) by (simp add: split_netloc_def takeWhile_eq_all_conv dropWhile_eq_Nil_conv)
  have "CHR ''['' \<notin> set n" "CHR '']'' \<notin> set n" using n by auto
  then show ?thesis unfolding urlsplit_def 1 2 3 prod.case by simp
qed

definition crm_url :: "nat \<Rightarrow> string" where
  "crm_url port = ''http://127.0.0.1:'' @ str_of_nat port"

lemma crm_resolves: "\<exists>url. resolve_target (Some (crm_url port)) ''customers/42'' = Inr (Some url)"
proof -
  have "good_netloc (''127.0.0.1:'' @ str_of_nat port)"
    using str_of_nat_digits[of port]
    by (auto simp: good_netloc_def netloc_end_def removed_char_def list_all_iff is_digit_def Let_def)
  from urlsplit_host[OF this] have "urlsplit (crm_url port) = Inr \<lparr>su_scheme = ''http'',
      su_netloc = ''127.0.0.1:'' @ str_of_nat port, su_path = [], su_query = [], su_fragment = []\<rparr>"
    by (simp add: crm_url_def)
  moreover have "\<not> bad_path (unquote (fst (py_partition (CHR ''?'') ''customers/42'')))" by code_simp
  ultimately show ?thesis by (simp add: resolve_target_iff[of _ "\<lparr>su_scheme = ''http'',
      su_netloc = ''127.0.0.1:'' @ str_of_nat port, su_path = [], su_query = [], su_fragment = []\<rparr>"])
qed

text \<open>Headers of the client library that are none of the three the handler looks at.\<close>

definition plain_headers :: "(string \<times> string) list \<Rightarrow> bool" where
  "plain_headers hs \<longleftrightarrow> (\<forall>(k, v) \<in> set hs.
     py_lower k \<notin> {py_lower AUTH_HEADER, py_lower ''Transfer-Encoding'', py_lower ''Content-Length''})"

definition crm_enforcer :: "token_issuer \<Rightarrow> nat \<Rightarrow> 'x ledger_world_ext enforcer \<Rightarrow> bool" where
  "crm_enforcer issuer port self \<longleftrightarrow> en_issuer self = issuer \<and> en_routes self ''crm_api'' =
       Some \<lparr>ur_tool_name = ''crm_api'', ur_upstream_base_url = crm_url port, ur_required_operation = None\<rparr> \<and>
     en_mark_used self = mark_used \<and> en_on_denied self = None \<and> en_max_body_bytes self = 10 * 1024 * 1024"

lemma plain_header_get:
  assumes "plain_headers extra" "py_lower name \<in> {py_lower AUTH_HEADER, py_lower ''Transfer-Encoding'', py_lower ''Content-Length''}"
  shows "header_get (extra @ hs) name = header_get hs name"
proof -
  have "map_of (map (\<lambda>(k, v). (py_lower k, v)) extra) (py_lower name) = None"
    using assms by (auto simp: plain_headers_def map_of_eq_None_iff)
  then show ?thesis by (simp add: header_get_def map_add_def split: option.splits)
qed

lemma crm_open:
  assumes e: "crm_enforcer issuer port self" and h: "plain_headers extra"
    and a: "authorize_and_resolve self ''crm_api'' token w = (Inr (ok, reason, if ok then Some (crm_url port) else None), w')"
  shows "\<exists>reply. urlopen self extra token w = (Inr (if ok then Inr reply else Inl reply), w') \<and>
    rp_status reply = (if ok then 200 else 403) \<and> rp_body reply = (if ok then crm_body else denied_body reason)"
proof -
  let ?hs = "extra @ (case token of None \<Rightarrow> [] | Some s \<Rightarrow> [(''X-toolboundary-token'', s)])"
  let ?rq = "\<lparr>hr_command = ''GET'', hr_path = ''/crm_api/customers/42'', hr_headers = ?hs, hr_input = []\<rparr>"
  have l: "py_lower ''X-toolboundary-token'' = py_lower AUTH_HEADER" "py_lower AUTH_HEADER \<noteq> py_lower ''Transfer-Encoding''"
    "py_lower AUTH_HEADER \<noteq> py_lower ''Content-Length''" by code_simp+
  have p: "request_parts ''/crm_api/customers/42'' = (''crm_api'', ''customers/42'')"
    by (simp add: request_parts_def py_lstrip_char_def)
  have t: "header_get ?hs AUTH_HEADER = token" "header_get ?hs ''Transfer-Encoding'' = None"
    "header_get ?hs ''Content-Length'' = None"
    unfolding plain_header_get[OF h, of AUTH_HEADER, simplified] plain_header_get[OF h, of "''Transfer-Encoding''", simplified]
      plain_header_get[OF h, of "''Content-Length''", simplified]
    using l by (cases token; simp add: header_get_def)+
  obtain url where url: "resolve_target (Some (crm_url port)) ''customers/42'' = Inr (Some url)"
    using crm_resolves by blast
  have n: "body_length (en_max_body_bytes self) ?hs = Inr 0"
    using e t by (simp add: body_length_def crm_enforcer_def)
  show ?thesis
  proof (cases ok)
    case True
    then have "passes self ?rq w url 0 w'" using a url n p t(1) by (simp add: passes_def)
    from handle_passes[OF this] show ?thesis
      using True by (simp add: urlopen_def bindE_def forward_def fake_crm_def)
  next
    case False
    have "handle self fake_crm ?rq w = (Inr (error_reply 403 (denied_body reason)), w')"
      using a False p t(1) e
      by (simp add: handle_def bindE_def thenE_def notify_denied_def crm_enforcer_def)
    then show ?thesis using False by (simp add: urlopen_def bindE_def error_reply_def)
  qed
qed

section \<open>The clock and the expiry\<close>

lemma still_valid:
  assumes "is_double now" "now \<le> q + 10"
  shows "\<not> num_lt (NFloat (fadd (Fin q) (Fin 10))) (NFloat (Fin now))"
  using round_double_mono[OF assms(2)] assms(1) by (simp add: num_lt_def is_double_def)

text \<open>Rounding the sum cannot reach a whole second further, below 2^52 seconds.\<close>

lemma expired_after_eleven:
  assumes "\<bar>q\<bar> \<le> 2 ^ 50" "q + 11 \<le> now"
  shows "num_lt (NFloat (fadd (Fin q) (Fin 10))) (NFloat (Fin now))"
proof -
  let ?n = "\<lceil>q + 10\<rceil>"
  have n: "q + 10 \<le> of_int ?n" "of_int ?n < q + 11" by linarith+
  have b: "- (2 ^ 50) \<le> q" "q \<le> 2 ^ 50" using assms(1) by linarith+
  have "\<lceil>q\<rceil> \<le> 2 ^ 50" using b(2) by (simp add: ceiling_le_iff)
  moreover have "of_int (- (2 ^ 50)) \<le> (of_int \<lceil>q\<rceil> :: rat)" using order_trans[OF b(1) le_of_int_ceiling] by simp
  then have "- (2 ^ 50) \<le> \<lceil>q\<rceil>" by (simp only: of_int_le_iff)
  moreover have "\<bar>k + 10\<bar> \<le> 2 ^ 53" if "k \<le> 2 ^ 50" "- (2 ^ 50) \<le> k" for k :: int using that by simp
  moreover have "?n = \<lceil>q\<rceil> + 10" by simp
  ultimately have "\<bar>?n\<bar> \<le> 2 ^ 53" by metis
  then have "is_double (of_int ?n)" by (rule is_double_int)
  then have "\<not> flt (Fin (of_int ?n)) (round_double (q + 10))"
    using round_double_mono[OF n(1)] by (simp add: is_double_def)
  then have "flt (round_double (q + 10)) (Fin now)"
    using n(2) assms(2) round_double_not_NaN[of "q + 10"] by (cases "round_double (q + 10)") auto
  then show ?thesis by (simp add: num_lt_def)
qed

lemma expired_token:
  assumes t: "crm_token issuer q s t" and e: "crm_enforcer issuer port self"
    and "num_lt (NFloat (fadd (Fin q) (ti_ttl_seconds issuer))) (NFloat (Fin (wall w (wall_ix w))))"
  shows "\<exists>w'. authorize_and_resolve self ''crm_api'' (Some s) w = (Inr (False, ''TOKEN_EXPIRED'', None), w')"
proof -
  have sg: "sign issuer (token_payload t) = Inr (at_signature t)" using t by (simp add: crm_token_def)
  have "verify issuer t None (Some ''crm_api'') None w = (Inl (TokenExpired (''Token expired at '' @
      str_of_num (NFloat (fadd (Fin q) (ti_ttl_seconds issuer))) @ '', current time '' @
      repr_float (Fin (wall w (Suc (wall_ix w)))) @ ''.'')), w\<lparr>wall_ix := Suc (Suc (wall_ix w))\<rparr>)"
    using t assms(3) sign_ascii[OF sg]
    by (simp add: verify_def crm_token_def bindE_def thenE_def compare_digest_def check_expiry_def time_time_def
        del: str_of_num.simps)
  then show ?thesis
    using t e by (simp add: authorize_and_resolve_def crm_token_def crm_enforcer_def)
qed

lemma fresh_token:
  fixes w :: "'x ledger_world_scheme"
  assumes t: "crm_token issuer q s t" and e: "crm_enforcer issuer port self"
    and i: "at_token_id t = PStr i" and x: "x = NFloat (fadd (Fin q) (ti_ttl_seconds issuer))"
    and "\<not> num_lt x (NFloat (Fin (wall w (wall_ix w))))"
    and m: "mark_used_at (wall w (Suc (wall_ix w))) i x (used_tokens w) = (first, used)"
  shows "authorize_and_resolve self ''crm_api'' (Some s) w =
    (Inr (if first then (True, ''ALLOWED'', Some (crm_url port)) else (False, ''TOKEN_ALREADY_USED'', None)),
     w\<lparr>wall_ix := Suc (Suc (wall_ix w)), used_tokens := used\<rparr>)"
  using presented_token[of s t "''crm_api''" None self "\<lparr>ur_tool_name = ''crm_api'', ur_upstream_base_url = crm_url port,
      ur_required_operation = None\<rparr>" i _ w, OF _ _ _ _ _ _ _ _ i _ assms(5)] t e m x
  by (simp add: crm_token_def crm_enforcer_def)

section \<open>The run\<close>

text \<open>The readings of the clock: the first three sections take at most the ten seconds of the
  token, the sleep at least eleven. The eleven readings are those of the calls in order.\<close>

definition demo_clock :: "(nat \<Rightarrow> rat) \<Rightarrow> nat \<Rightarrow> bool" where
  "demo_clock c i \<longleftrightarrow> mono_clock c \<and> c (i + 6) \<le> c (i + 2) + 10 \<and> c (i + 9) + 11 \<le> c (i + 10) \<and> \<bar>c (i + 9)\<bar> \<le> 2 ^ 50"

text \<open>The ledger of one token, before and after.\<close>

lemma first_mark: "mark_used_at now i x Map.empty = (True, [i \<mapsto> x])"
  by (simp add: mark_used_at_def gc_at_def Let_def)

lemma second_mark: "\<not> num_lt x (NFloat (Fin now)) \<Longrightarrow> mark_used_at now i x [i \<mapsto> x] = (False, [i \<mapsto> x])"
  by (auto simp: mark_used_at_def gc_at_def Let_def fun_eq_iff)

lemma crm_requests_run:
  fixes w :: "'x ledger_world_scheme"
  assumes b: "crm_boundary \<lparr>ti_secret = sec, ti_ttl_seconds = Fin 10\<rparr> fresh = Inr b"
    and e: "crm_enforcer \<lparr>ti_secret = sec, ti_ttl_seconds = Fin 10\<rparr> port self" and h: "plain_headers extra"
    and c: "demo_clock (wall w) (wall_ix w)" and u: "used_tokens w = Map.empty"
  shows "\<exists>w'. crm_requests b self extra (w, out) = (Inr (), (w', out @
     [''\<newline>--- 1. Properly authorized call ---'', ''  -> HTTP 200: '' @ crm_body,
      ''\<newline>--- 2. Call with NO token (simulating a bypassing/compromised agent) ---'',
      ''  -> HTTP 403: '' @ denied_body ''MISSING_TOKEN'' @ ''  (correctly rejected, CRM never touched)'',
      ''\<newline>--- 3. Reusing the SAME token a second time (replay attack) ---'',
      ''  -> HTTP 403: '' @ denied_body ''TOKEN_ALREADY_USED'' @ ''  (correctly rejected as already-used)'',
      ''\<newline>--- 4. Waiting for token TTL to expire, then trying a fresh-but-stale token ---'',
      ''  Sleeping 11 seconds (TTL is 10s)...'',
      ''  -> HTTP 403: '' @ denied_body ''TOKEN_EXPIRED'' @ ''  (correctly rejected as expired)'']))"
proof -
  let ?i = "wall_ix w" and ?W = "wall w" and ?I = "\<lparr>ti_secret = sec, ti_ttl_seconds = Fin 10\<rparr>"
  define x where "x = NFloat (fadd (Fin (?W (?i + 2))) (ti_ttl_seconds ?I))"
  have d: "is_double (?W n)" and m: "j \<le> k \<Longrightarrow> ?W j \<le> ?W k" for n j k
    using c by (auto simp: demo_clock_def mono_clock_def)
  have valid: "\<not> num_lt x (NFloat (Fin (?W j)))" if "j \<le> ?i + 6" for j
  proof -
    have "?W j \<le> ?W (?i + 2) + 10" using m[OF that] c unfolding demo_clock_def by linarith
    from still_valid[OF d this] show ?thesis by (simp add: x_def del: fadd.simps)
  qed
  obtain t s w1 where t: "check_and_authorize b crm_request w = (Inr t, w1)" "crm_token ?I (?W (?i + 2)) s t"
    "wall w1 = ?W" "wall_ix w1 = ?i + 3" "used_tokens w1 = Map.empty"
    using crm_authorized[OF b d] u by metis
  obtain i where i: "at_token_id t = PStr i" using t(2) by (auto simp: crm_token_def)
  let ?w2 = "w1\<lparr>wall_ix := ?i + 5, used_tokens := [i \<mapsto> x]\<rparr>"
  have "authorize_and_resolve self ''crm_api'' (Some s) w1 = (Inr (True, ''ALLOWED'', Some (crm_url port)), ?w2)"
    using fresh_token[OF t(2) e i x_def, of w1 True "[i \<mapsto> x]"] valid[of "?i + 3"] t(3-5)
    by (simp add: first_mark)
  from crm_open[OF e h, of "Some s" w1 True "''ALLOWED''" ?w2] this
  obtain r1 where r1: "urlopen self extra (Some s) w1 = (Inr (Inr r1), ?w2)" "rp_status r1 = 200" "rp_body r1 = crm_body"
    by auto
  have "authorize_and_resolve self ''crm_api'' None ?w2 = (Inr (False, ''MISSING_TOKEN'', None), ?w2)"
    using e by (simp add: authorize_and_resolve_def crm_enforcer_def)
  from crm_open[OF e h, of None ?w2 False "''MISSING_TOKEN''" ?w2] this
  obtain r2 where r2: "urlopen self extra None ?w2 = (Inr (Inl r2), ?w2)" "rp_status r2 = 403"
    "rp_body r2 = denied_body ''MISSING_TOKEN''" by auto
  let ?w3 = "?w2\<lparr>wall_ix := ?i + 7\<rparr>"
  have "authorize_and_resolve self ''crm_api'' (Some s) ?w2 = (Inr (False, ''TOKEN_ALREADY_USED'', None), ?w3)"
    using fresh_token[OF t(2) e i x_def, of ?w2 False "[i \<mapsto> x]"] valid[of "?i + 5"] t(3)
      second_mark[OF valid, of "Suc (?i + 5)" i] by simp
  from crm_open[OF e h, of "Some s" ?w2 False "''TOKEN_ALREADY_USED''" ?w3] this
  obtain r3 where r3: "urlopen self extra (Some s) ?w2 = (Inr (Inl r3), ?w3)" "rp_status r3 = 403"
    "rp_body r3 = denied_body ''TOKEN_ALREADY_USED''" by auto
  obtain t' s' w4 where t': "check_and_authorize b crm_request ?w3 = (Inr t', w4)" "crm_token ?I (?W (?i + 9)) s' t'"
    "wall w4 = ?W" "wall_ix w4 = ?i + 10"
  proof -
    have "is_double (wall ?w3 n)" for n using d t(3) by simp
    from crm_authorized[OF b this] show thesis using that t(3) by (auto simp: ac_simps)
  qed
  have "num_lt (NFloat (fadd (Fin (?W (?i + 9))) (Fin 10))) (NFloat (Fin (?W (?i + 10))))"
    using c by (intro expired_after_eleven) (simp_all add: demo_clock_def)
  then obtain w5 where a: "authorize_and_resolve self ''crm_api'' (Some s') w4 = (Inr (False, ''TOKEN_EXPIRED'', None), w5)"
    using expired_token[OF t'(2) e, of w4] t'(3,4) by auto
  from crm_open[OF e h, of "Some s'" w4 False "''TOKEN_EXPIRED''" w5] this
  obtain r4 where r4: "urlopen self extra (Some s') w4 = (Inr (Inl r4), w5)" "rp_status r4 = 403"
    "rp_body r4 = denied_body ''TOKEN_EXPIRED''" by auto
  have wires: "to_wire t = Inr s" "to_wire t' = Inr s'" using t(2) t'(2) by (simp_all add: crm_token_def)
  have codes: "str_of_int 200 = ''200''" "str_of_int 403 = ''403''" by code_simp+
  show ?thesis
    using t(1) t'(1) r1 r2 r3 r4
    by (intro exI[of _ w5])
      (simp add: crm_requests_def expect_refusal_def thenE_def bindE_def printing_def print_text_def http_line_def
        time_sleep_def wires codes)
qed

section \<open>Properties\<close>

text \<open>C13: The network script demonstrates what it announces: for every port the system gives, whatever the
  identifiers, when the sections before the sleep take at most the ten seconds of a token and the
  sleep at least eleven, it ends without an error and prints that the authorized request got the
  service's answer, that the requests without a token, with the used token and with the expired
  one were refused with 403 and the reason of each, and it leaves the proxy stopped.\<close>

theorem network_demo_prints:
  fixes w :: "'x ledger_world_scheme"
  assumes "demo_clock (wall w) (wall_ix w)" "used_tokens w = Map.empty" "plain_headers extra"
    and "bind_socket ''127.0.0.1'' 0 = Inr ()"
  shows "\<exists>self w'. network_demo fresh crm_port proxy_port bind_socket extra (w, []) = (Inr self, (w',
    [''Starting fake internal CRM (the '' @ [CHR 0x27] @ ''real tool'' @ [CHR 0x27] @ '' the agent should not reach directly)...'',
     ''  Fake CRM listening at http://127.0.0.1:'' @ str_of_nat crm_port @
       '' (NOT directly reachable by the agent in a real deployment)'',
     ''NetworkEnforcer proxy listening at http://127.0.0.1:'' @ str_of_nat proxy_port,
     ''\<newline>--- 1. Properly authorized call ---'', ''  -> HTTP 200: '' @ crm_body,
     ''\<newline>--- 2. Call with NO token (simulating a bypassing/compromised agent) ---'',
     ''  -> HTTP 403: '' @ denied_body ''MISSING_TOKEN'' @ ''  (correctly rejected, CRM never touched)'',
     ''\<newline>--- 3. Reusing the SAME token a second time (replay attack) ---'',
     ''  -> HTTP 403: '' @ denied_body ''TOKEN_ALREADY_USED'' @ ''  (correctly rejected as already-used)'',
     ''\<newline>--- 4. Waiting for token TTL to expire, then trying a fresh-but-stale token ---'',
     ''  Sleeping 11 seconds (TTL is 10s)...'',
     ''  -> HTTP 403: '' @ denied_body ''TOKEN_EXPIRED'' @ ''  (correctly rejected as expired)'',
     ''\<newline>Done.''])) \<and> \<not> is_running self"
proof -
  let ?I = "\<lparr>ti_secret = utf8 ''demo-shared-secret'', ti_ttl_seconds = Fin 10\<rparr>"
  let ?route = "\<lparr>ur_tool_name = ''crm_api'', ur_upstream_base_url = crm_url crm_port, ur_required_operation = None\<rparr>"
  have issuer: "make_issuer (Some ''demo-shared-secret'') (Fin 10) w = (Inr ?I, w)" by (simp add: make_issuer_def)
  obtain b :: "'x ledger_world_ext boundary" where b: "crm_boundary ?I fresh = Inr b"
    by (simp add: crm_boundary_def make_boundary_def)
  obtain self0 :: "'x ledger_world_ext enforcer" where m: "make_enforcer ?I [?route] mark_used None (10 * 1024 * 1024) = Inr self0"
    and e0: "crm_enforcer ?I crm_port self0"
    by (simp add: make_enforcer_def crm_enforcer_def route_map_def)
  obtain self w1 where st: "start_server bind_socket ''127.0.0.1'' 0 (self0, w) = (Inr (), (self, w1))"
    and "self = self0\<lparr>en_server := Some (''127.0.0.1'', 0), en_thread := True\<rparr>"
    and w1: "wall w1 = wall w" "wall_ix w1 = wall_ix w" "used_tokens w1 = used_tokens w"
    using assms(4) by (simp add: start_server_def log_line_def)
  then have e: "crm_enforcer ?I crm_port self" using e0 by (simp add: crm_enforcer_def)
  have c: "demo_clock (wall w1) (wall_ix w1)" "used_tokens w1 = Map.empty" using assms(1,2) w1 by simp_all
  show ?thesis
    using crm_requests_run[OF b e assms(3) c, of
      "[''Starting fake internal CRM (the '' @ [CHR 0x27] @ ''real tool'' @ [CHR 0x27] @ '' the agent should not reach directly)...'',
       ''  Fake CRM listening at http://127.0.0.1:'' @ str_of_nat crm_port @
         '' (NOT directly reachable by the agent in a real deployment)'',
       ''NetworkEnforcer proxy listening at http://127.0.0.1:'' @ str_of_nat proxy_port]"] issuer b m st
    by (auto simp: network_demo_def Let_def thenE_def bindE_def printing_def print_text_def crm_url_def
        stop_server_def is_running_def)
qed

text \<open>A world whose clock shows the same time before the sleep and eleven seconds more after it.\<close>

definition demo_world :: ledger_world where
  "demo_world = proxy_world\<lparr>wall := (\<lambda>n. if n \<le> 9 then 1000 else 1011)\<rparr>"

theorem network_demo_prints_witness:
  "\<exists>self w' out. network_demo 0 8080 8765 (\<lambda>_ _. Inr ()) [(''Host'', ''127.0.0.1:8765'')] (demo_world, []) =
     (Inr self, (w', out)) \<and> last out = ''\<newline>Done.''"
proof -
  have "is_double 1000" "is_double 1011" by (rule is_double_numeral; simp)+
  then have c: "demo_clock (wall demo_world) (wall_ix demo_world)"
    by (auto simp: demo_clock_def mono_clock_def demo_world_def)
  have u: "used_tokens demo_world = Map.empty" by (simp add: demo_world_def)
  have "py_lower ''Host'' \<notin> {py_lower AUTH_HEADER, py_lower ''Transfer-Encoding'', py_lower ''Content-Length''}"
    by code_simp
  then have h: "plain_headers [(''Host'', ''127.0.0.1:8765'')]" by (simp add: plain_headers_def)
  have s: "(\<lambda>_ _. Inr ()) ''127.0.0.1'' (0 :: int) = (Inr () :: exn + unit)" by simp
  from network_demo_prints[OF c u h s, of 0 8080 8765] show ?thesis by fastforce
qed

end
