(* ===== verification/Example_Benchmark.thy ===== *)
theory Example_Benchmark
  imports Example_Usage
begin

text \<open>
  \<open>examples/benchmark.py\<close>: the loop that times a function and the four functions it times, on
  boundaries without sinks. The readings of \<open>time.perf_counter\<close> are a third stream of the world;
  the numbers printed are computed from them in double arithmetic.
\<close>

section \<open>The script\<close>

record bench_world = world +
  perf :: "nat \<Rightarrow> rat"
  perf_ix :: nat

definition perf_counter :: "('w bench_world_scheme, exn, rat) eff" where
  "perf_counter w = (Inr (perf w (perf_ix w)), w\<lparr>perf_ix := Suc (perf_ix w)\<rparr>)"

text \<open>\<open>for _ in range(n): m()\<close>\<close>

primrec repeatE :: "nat \<Rightarrow> ('s, 'e, unit) eff \<Rightarrow> ('s, 'e, unit) eff" where
  "repeatE 0 m = returnE ()"
| "repeatE (Suc n) m = thenE m (repeatE n m)"

text \<open>A float divided or multiplied by a positive integer.\<close>

fun fscale :: "rat \<Rightarrow> pyfloat \<Rightarrow> pyfloat" where
  "fscale c (Fin q) = round_double (q * c)"
| "fscale c x = x"

fun fixed_float :: "nat \<Rightarrow> pyfloat \<Rightarrow> string" where
  "fixed_float k (Fin q) = fixed k q"
| "fixed_float k PosInf = ''inf''"
| "fixed_float k NegInf = ''-inf''"
| "fixed_float k NaN = ''nan''"

definition pad_right :: "nat \<Rightarrow> string \<Rightarrow> string" where
  "pad_right n s = s @ replicate (n - length s) CHR '' ''"

definition pad_left :: "nat \<Rightarrow> string \<Rightarrow> string" where
  "pad_left n s = replicate (n - length s) CHR '' '' @ s"

definition bench_line :: "string \<Rightarrow> nat \<Rightarrow> pyfloat \<Rightarrow> string" where
  "bench_line label n elapsed = pad_right 55 label @ '' '' @
     pad_left 8 (fixed_float 2 (fscale 1000000 (fscale (1 / of_nat n) elapsed))) @ '' us/call   ('' @
     str_of_nat n @ '' calls in '' @ fixed_float 1 (fscale 1000 elapsed) @ ''ms)''"

definition bench ::
  "string \<Rightarrow> nat \<Rightarrow> ('w bench_world_scheme, exn, unit) eff \<Rightarrow> ('w bench_world_scheme \<times> string list, exn, unit) eff" where
  "bench label n fn =
     thenE (printing (repeatE (min 100 n) fn))
    (bindE (printing perf_counter) (\<lambda>start.
     thenE (printing (repeatE n fn))
    (bindE (printing perf_counter) (\<lambda>stop.
       if n = 0 then throwE (Foreign (PyExc ''ZeroDivisionError'' ''float division by zero'') True)
       else print_text (bench_line label n (fsub (Fin stop) (Fin start)))))))"

definition bench_boundary ::
  "tool_permission list \<Rightarrow> int option \<Rightarrow> token_issuer option \<Rightarrow> nat \<Rightarrow> exn + 'w boundary" where
  "bench_boundary permissions limit issuer fresh = make_boundary ''bench-agent'' AUTONOMOUS (Some permissions)
     {} None ''PRODUCTION'' limit False None None None (Some []) None True False issuer None fresh None OBSERVE None"

definition deny_call :: "'w boundary \<Rightarrow> ('w world_scheme, exn, unit) eff" where
  "deny_call b w = (case check b (usage_request ''unregistered_tool'' None READ_ONLY PNone) w of
     (Inr u, w') \<Rightarrow> (Inr u, w')
   | (Inl e, w') \<Rightarrow> ((if is_exception e then Inr () else Inl e), w'))"

definition issue_and_verify :: "token_issuer \<Rightarrow> ('w world_scheme, exn, unit) eff" where
  "issue_and_verify issuer = bindE (issue issuer ''agent-1'' ''crm_api'' (Some ''READ'')) (\<lambda>token.
     verify issuer token (Some ''agent-1'') (Some ''crm_api'') None)"

definition bench_N :: nat where
  "bench_N = 20000"

definition bench_header :: string where
  "bench_header = ''ToolBoundary benchmark -- '' @ str_of_nat bench_N @ '' iterations per test\<newline>''"

definition bench_footer :: string where
  "bench_footer = ''\<newline>For context: a single network round-trip to a nearby service is '' @
     ''typically 500-2000+ us. ToolBoundary'' @ [CHR 0x27] @ ''s own overhead is a small '' @
     ''fraction of that, even before accounting for the tool call itself.''"

definition benchmark :: "nat \<Rightarrow> ('w bench_world_scheme \<times> string list, exn, unit) eff" where
  "benchmark fresh =
     thenE (print_text bench_header)
    (bindE (liftE (bench_boundary [plain_permission ''read_db'' READ_ONLY] (Some 10000000) None fresh)) (\<lambda>boundary.
     thenE (bench ''Boundary.check() [ALLOW path]'' bench_N
       (check boundary (usage_request ''read_db'' None READ_ONLY PNone)))
    (bindE (liftE (bench_boundary [] None None (Suc fresh))) (\<lambda>boundary_deny.
     thenE (bench ''Boundary.check() [DENY path, incl. exception]'' bench_N (deny_call boundary_deny))
    (bindE (printing (make_issuer (Some ''bench-secret'') (Fin 30))) (\<lambda>issuer.
     thenE (bench ''TokenIssuer.issue() + .verify() combined'' bench_N (issue_and_verify issuer))
    (bindE (printing (make_issuer (Some ''bench-secret-2'') (Fin 30))) (\<lambda>issuer2.
     bindE (liftE (bench_boundary [plain_permission ''crm_api'' READ_ONLY] None (Some issuer2) (Suc (Suc fresh))))
       (\<lambda>boundary_with_issuer.
     thenE (bench ''Boundary.check_and_authorize() [full ALLOW + token issuance]'' bench_N
       (bindE (check_and_authorize boundary_with_issuer (usage_request ''crm_api'' None READ_ONLY PNone))
         (\<lambda>token. returnE ())))
     (print_text bench_footer))))))))))"

section \<open>The loop\<close>

text \<open>An invariant that counts the passes carries through.\<close>

lemma repeatE_invariant:
  assumes "\<And>k v. k < n \<Longrightarrow> P k v \<Longrightarrow> \<exists>v'. m v = (Inr (), v') \<and> P (Suc k) v'" and "P 0 w"
  shows "\<exists>w'. repeatE n m w = (Inr (), w') \<and> P n w'"
  using assms
proof (induction n arbitrary: P w)
  case (Suc n)
  from Suc.prems(1)[of 0, OF _ Suc.prems(2)] obtain v where v: "m w = (Inr (), v)" "P (Suc 0) v" by auto
  have "\<exists>w'. repeatE n m v = (Inr (), w') \<and> P (Suc n) w'"
    by (rule Suc.IH[where P = "\<lambda>k. P (Suc k)"]) (use Suc.prems(1) v(2) in auto)
  then show ?case using v(1) by (simp add: thenE_Inr)
qed simp

text \<open>The clocks of the script and what a timed function must leave alone.\<close>

definition clocks :: "'w bench_world_scheme \<Rightarrow> (nat \<Rightarrow> rat) \<times> (nat \<Rightarrow> rat) \<times> nat" where
  "clocks w = (wall w, perf w, perf_ix w)"

lemma clocks_updates [simp]:
  "clocks (w\<lparr>wall_ix := n\<rparr>) = clocks w" "clocks (w\<lparr>uuid_ix := n\<rparr>) = clocks w" "clocks (w\<lparr>log := l\<rparr>) = clocks w"
  "clocks (w\<lparr>mono_ix := n\<rparr>) = clocks w" "clocks (w\<lparr>limiters := m\<rparr>) = clocks w"
  "clocks (w\<lparr>secret_ix := n\<rparr>) = clocks w"
  by (simp_all add: clocks_def)

lemma keeps_repeatE: "keeps g m \<Longrightarrow> keeps g (repeatE n m)"
  by (induction n) (auto intro!: keeps_intros)

lemma bench_runs:
  fixes w :: "'w bench_world_scheme"
  assumes "0 < n" and keeps: "keeps clocks fn" and c0: "clocks w = (W, F, ix)" and "P 0 w"
    and step: "\<And>k v. k < n + 100 \<Longrightarrow> P k v \<Longrightarrow> \<exists>v'. fn v = (Inr (), v') \<and> P (Suc k) v'"
    and perf: "\<And>k v i. P k (v\<lparr>perf_ix := i\<rparr>) = P k v"
  shows "\<exists>w'. bench label n fn (w, out) =
      (Inr (), (w', out @ [bench_line label n (fsub (Fin (F (Suc ix))) (Fin (F ix)))])) \<and> clocks w' = (W, F, Suc (Suc ix))"
proof -
  let ?k = "min 100 n"
  have "\<exists>w1. repeatE ?k fn w = (Inr (), w1) \<and> P ?k w1"
    by (rule repeatE_invariant) (use step assms(4) in auto)
  then obtain w1 where w1: "repeatE ?k fn w = (Inr (), w1)" "P ?k w1" by blast
  have c1: "clocks w1 = clocks w" by (rule keepsE[OF keeps_repeatE[OF keeps] w1(1)])
  let ?w2 = "w1\<lparr>perf_ix := Suc (perf_ix w1)\<rparr>"
  have "\<exists>w3. repeatE n fn ?w2 = (Inr (), w3) \<and> P (?k + n) w3"
    by (rule repeatE_invariant[where P = "\<lambda>i. P (?k + i)"]) (use step w1(2) perf in auto)
  then obtain w3 where w3: "repeatE n fn ?w2 = (Inr (), w3)" by blast
  have c3: "clocks w3 = (W, F, Suc ix)"
    using keepsE[OF keeps_repeatE[OF keeps] w3] c1 c0 by (simp add: clocks_def)
  then show ?thesis
    using w1(1) w3 c1 c0 assms(1)
    by (simp add: bench_def printing_def print_text_def perf_counter_def bindE_def thenE_def clocks_def)
qed

section \<open>The four functions\<close>

lemma bench_fields:
  assumes "bench_boundary ps limit issuer fresh = Inr b"
  shows "b_agent_name b = ''bench-agent''" "b_autonomy b = AUTONOMOUS" "b_permissions b = permission_map ps"
    "b_blocked_operations b = {}" "b_allowed_environments b = None" "b_max_actions_per_hour b = limit"
    "\<not> b_kill_switch b" "b_kill_switch_env b = None" "b_valid_from b = None" "b_valid_to b = None"
    "b_audit b = []" "b_policy_hooks b = []" "\<not> b_strict_limits b"
    "b_rate_limiter b = check_and_record fresh" "b_token_issuer b = issuer"
  using assms by (auto simp: bench_boundary_def make_boundary_def make_trail_def)

lemma bench_boundary_ok: "\<exists>b. bench_boundary ps limit issuer fresh = Inr b"
  by (simp add: bench_boundary_def make_boundary_def)

lemma bench_around: "b_audit b = [] \<Longrightarrow> b_policy_hooks b = [] \<Longrightarrow> around_limiter same_room b"
  by (auto simp: around_limiter_def same_room_def reflp_def transp_def)

lemma space_same: "same_room w w' \<Longrightarrow> space self n w' = space self n w"
  by (simp add: same_room_def space_def deque_of_def)

lemma clocks_check:
  assumes "b_audit b = []" "b_policy_hooks b = []" "b_rate_limiter b = check_and_record self"
  shows "keeps clocks (check b rq)"
proof (rule keeps_check)
  show "keeps clocks (local_checks b (context_of b rq))"
    by (rule keeps_local_checks)
      (simp_all add: assms keeps_def check_and_record_def bindE_def time_monotonic_def split: prod.splits)
qed (simp_all add: assms)

text \<open>A read-only call of the one tool of a boundary passes when the limiter admits it.\<close>

lemma bench_admitted:
  fixes w :: "'w world_scheme"
  assumes b: "bench_boundary [plain_permission tool READ_ONLY] limit issuer self = Inr b"
    and r: "check_rate_limit b (context_of b (usage_request tool None READ_ONLY PNone)) (tick w) = (Inr (), w1)"
  shows "\<exists>w'. check b (usage_request tool None READ_ONLY PNone) w = (Inr (), w') \<and> same_room w1 w'"
proof -
  let ?rq = "usage_request tool None READ_ONLY PNone" and ?p = "plain_permission tool READ_ONLY"
  let ?c = "context_of b ?rq"
  note f = bench_fields[OF b]
  have p: "b_permissions b tool = Some ?p" by (simp add: f permission_map_def plain_permission_def)
  have tame: "tame_boundary b" by (simp add: tame_boundary_def f)
  have "static_ok b ?c ?p w"
    using p by (simp add: static_ok_def f context_of_def usage_request_def within_validity_def environment_ok_def
        operation_allowed_iff value_ok_def records_ok_def kill_switch_engaged_def plain_permission_def)
  moreover have "check_policy_hooks b ?c w1 = (Inr (), w1)" by (simp add: check_policy_hooks_def f)
  moreover have "\<not> needs_approval b ?c ?p" by (simp add: needs_approval_def f plain_permission_def)
  ultimately have "local_checks b ?c w = (Inr (), w1)" using r unfolding local_checks_ok by blast
  then have "fst (check b ?rq w) = Inr ()" "same_room w1 (snd (check b ?rq w))"
    using check_outcome[OF tame, of ?rq w] check_moves_on[OF bench_around[OF f(11,12)], of ?rq w] by simp_all
  then show ?thesis by (metis prod.collapse)
qed

lemma bench_allowed:
  assumes b: "bench_boundary [plain_permission tool READ_ONLY] limit issuer self = Inr b"
    and "space self n w" "\<forall>m. limit = Some m \<longrightarrow> int n < m"
  shows "\<exists>w'. check b (usage_request tool None READ_ONLY PNone) w = (Inr (), w') \<and> space self (Suc (Suc n)) w'"
proof -
  let ?c = "context_of b (usage_request tool None READ_ONLY PNone)"
  have t: "space self n (tick w)" using assms(2) by (simp add: space_def deque_of_def tick_def)
  obtain w1 where w1: "check_rate_limit b ?c (tick w) = (Inr (), w1)" "space self (Suc (Suc n)) w1"
    using rate_limit_has_space[of b self n "tick w" ?c] t assms(3)
    by (auto simp: bench_fields[OF b] context_of_def usage_request_def plain_permission_def permission_map_def split: if_splits)
  then show ?thesis using bench_admitted[OF b w1(1)] space_same by blast
qed

lemma bench_unlimited:
  assumes b: "bench_boundary [plain_permission tool READ_ONLY] None issuer self = Inr b"
  shows "\<exists>w'. check b (usage_request tool None READ_ONLY PNone) w = (Inr (), w')"
proof -
  let ?c = "context_of b (usage_request tool None READ_ONLY PNone)"
  have "check_rate_limit b ?c (tick w) = (Inr (), tick w)"
    by (simp add: check_rate_limit_def check_global_rate_def check_tool_rate_def thenE_def bindE_def bench_fields[OF b]
        context_of_def usage_request_def plain_permission_def permission_map_def)
  from bench_admitted[OF b this] show ?thesis by blast
qed

lemma keeps_issue: "keeps clocks (issue issuer agent tool opn)"
  unfolding issue_def Let_def by (intro keeps_intros) (simp_all add: clocks_def)

lemma keeps_verify: "keeps clocks (verify issuer t ag tool opn)"
proof -
  have "keeps clocks (check_expiry x)" for x
    unfolding check_expiry_def by (auto intro!: keeps_intros split: option.splits)
  then show ?thesis unfolding verify_def by (intro keeps_intros)
qed

text \<open>A token verifies at the next reading of the clock, unless it has expired by then.\<close>

lemma issue_and_verify_ok:
  assumes "\<And>k. \<not> flt (fadd (Fin (wall w k)) (ti_ttl_seconds issuer)) (Fin (wall w (Suc k)))"
  shows "\<exists>w'. issue_and_verify issuer w = (Inr (), w')"
proof -
  obtain t w1 where i: "issue issuer ''agent-1'' ''crm_api'' (Some ''READ'') w = (Inr t, w1)"
    using issue_ok by blast
  then have t: "at_agent_name t = PStr ''agent-1''" "at_tool_name t = PStr ''crm_api''"
    "at_expires_at t = PFloat (fadd (Fin (wall w (wall_ix w))) (ti_ttl_seconds issuer))"
    "sign issuer (token_payload t) = Inr (at_signature t)" "wall w1 = wall w" "wall_ix w1 = Suc (wall_ix w)"
    by (auto simp: issue_def bindE_Inr_iff time_time_def token_secret_def Let_def token_payload_def)
  have "verify issuer t (Some ''agent-1'') (Some ''crm_api'') None w1 = (Inr (), w1\<lparr>wall_ix := Suc (wall_ix w1)\<rparr>)"
    using t sign_ascii[OF t(4)] assms[of "wall_ix w"] by (simp add: verify_ok_iff num_lt_def)
  then show ?thesis using i by (simp add: issue_and_verify_def bindE_Inr)
qed

lemma deny_call_ok:
  assumes b: "bench_boundary [] None None self = Inr b"
  shows "\<exists>w'. deny_call b w = (Inr (), w')"
proof -
  let ?rq = "usage_request ''unregistered_tool'' None READ_ONLY PNone"
  let ?c = "context_of b ?rq"
  note f = bench_fields[OF b]
  have tame: "tame_boundary b" by (simp add: tame_boundary_def f)
  have "check_kill_switch b ?c w = (Inr (), w)" "check_quarantine b ?c w = (Inr (), w)"
    "check_validity_window b ?c w = (Inr (), tick w)" "check_environment b ?c (tick w) = (Inr (), tick w)"
    "check_global_blocked_operations b ?c (tick w) = (Inr (), tick w)"
    by (simp_all add: check_ok f within_validity_def environment_ok_def kill_switch_engaged_def context_of_def usage_request_def)
  moreover have "\<exists>e. check_tool_permission b ?c (tick w) = (Inl e, tick w) \<and> is_exception e"
    by (simp add: check_tool_permission_def f permission_map_def context_of_def usage_request_def)
  ultimately obtain e where "fst (local_checks b ?c w) = Inl e" "is_exception e"
    by (auto simp: local_checks_def thenE_Inr bindE_Inl)
  then have "fst (check b ?rq w) = Inl e" "is_exception e" using check_outcome[OF tame, of ?rq w] by simp_all
  then show ?thesis by (cases "check b ?rq w") (simp add: deny_call_def)
qed

lemma keeps_deny_call:
  assumes "bench_boundary [] None None self = Inr b"
  shows "keeps clocks (deny_call b)"
proof (rule keepsI)
  fix w
  note f = bench_fields[OF assms]
  obtain r w' where r: "check b (usage_request ''unregistered_tool'' None READ_ONLY PNone) w = (r, w')" by fastforce
  have "clocks w' = clocks w" by (rule keepsE[OF clocks_check[OF f(11,12,14)] r])
  then show "clocks (snd (deny_call b w)) = clocks w" using r by (cases r) (simp_all add: deny_call_def)
qed

text \<open>The four calls of \<open>bench\<close> one after the other: each reads the counter twice.\<close>

definition bench_labels :: "string list" where
  "bench_labels = [''Boundary.check() [ALLOW path]'', ''Boundary.check() [DENY path, incl. exception]'',
     ''TokenIssuer.issue() + .verify() combined'', ''Boundary.check_and_authorize() [full ALLOW + token issuance]'']"

definition bench_text :: "(nat \<Rightarrow> rat) \<Rightarrow> nat \<Rightarrow> nat \<Rightarrow> string" where
  "bench_text F ix i = bench_line (bench_labels ! i) bench_N (fsub (Fin (F (ix + 2 * i + 1))) (Fin (F (ix + 2 * i))))"

lemma bench_turn:
  assumes "clocks v = (W, F, ix + 2 * i)" "keeps clocks fn" "P 0 v" "\<And>k u j. P k (u\<lparr>perf_ix := j\<rparr>) = P k u"
    and "\<And>k u. k < bench_N + 100 \<Longrightarrow> P k u \<Longrightarrow> \<exists>u'. fn u = (Inr (), u') \<and> P (Suc k) u'"
  shows "\<exists>v'. bench (bench_labels ! i) bench_N fn (v, texts) = (Inr (), (v', texts @ [bench_text F ix i])) \<and>
    clocks v' = (W, F, ix + 2 * Suc i)"
proof -
  have "0 < bench_N" by (simp add: bench_N_def)
  from bench_runs[where P = P, OF this assms(2,1,3,5,4)] show ?thesis by (auto simp: bench_text_def)
qed

section \<open>Properties\<close>

text \<open>The benchmark runs to its end and prints its six texts: with an empty limiter and a wall
  clock that lets no token expire between two consecutive readings, none of the 80400 passes
  through the four loops ends in an exception, and line \<open>i\<close> reports the time between the readings \<open>2i\<close> and \<open>2i + 1\<close> of the
  performance counter for 20000 calls.\<close>

theorem benchmark_completes:
  fixes w :: "'w bench_world_scheme"
  assumes "space fresh 0 w" "\<And>k. \<not> flt (fadd (Fin (wall w k)) (Fin 30)) (Fin (wall w (Suc k)))"
  shows "\<exists>w'. benchmark fresh (w, out) = (Inr (), (w', out @ [bench_header] @
    map (\<lambda>i. bench_line (bench_labels ! i) 20000 (fsub (Fin (perf w (perf_ix w + 2 * i + 1))) (Fin (perf w (perf_ix w + 2 * i)))))
      [0, 1, 2, 3] @ [bench_footer]))"
proof -
  let ?line = "bench_text (perf w) (perf_ix w)"
  let ?at = "\<lambda>i v. clocks v = (wall w, perf w, perf_ix w + 2 * i)"
  have N: "bench_N \<le> 20000" by (simp add: bench_N_def)
  let ?i1 = "\<lparr>ti_secret = utf8 ''bench-secret'', ti_ttl_seconds = Fin 30\<rparr>"
  let ?i2 = "\<lparr>ti_secret = utf8 ''bench-secret-2'', ti_ttl_seconds = Fin 30\<rparr>"
  have iss: "make_issuer (Some ''bench-secret'') (Fin 30) v = (Inr ?i1, v)"
    "make_issuer (Some ''bench-secret-2'') (Fin 30) v = (Inr ?i2, v)" for v :: "'w bench_world_scheme"
    by (simp_all add: make_issuer_def)
  obtain b1 b2 b4 where b1: "bench_boundary [plain_permission ''read_db'' READ_ONLY] (Some 10000000) None fresh =
      (Inr b1 :: exn + 'w bench_world_ext boundary)"
    and b2: "bench_boundary [] None None (Suc fresh) = (Inr b2 :: exn + 'w bench_world_ext boundary)"
    and b4: "bench_boundary [plain_permission ''crm_api'' READ_ONLY] None (Some ?i2) (Suc (Suc fresh)) =
      (Inr b4 :: exn + 'w bench_world_ext boundary)"
    using bench_boundary_ok by metis
  let ?f1 = "check b1 (usage_request ''read_db'' None READ_ONLY PNone)"
  let ?f4 = "bindE (check_and_authorize b4 (usage_request ''crm_api'' None READ_ONLY PNone)) (\<lambda>token. returnE ())"
  have "\<exists>v. bench (bench_labels ! 0) bench_N ?f1 (w, out @ [bench_header]) =
      (Inr (), (v, (out @ [bench_header]) @ [?line 0])) \<and> ?at (Suc 0) v"
  proof (rule bench_turn[where P = "\<lambda>k. space fresh (2 * k)"])
    show "keeps clocks ?f1" by (rule clocks_check[OF bench_fields(11,12,14)[OF b1]])
    show "\<exists>v'. ?f1 v = (Inr (), v') \<and> space fresh (2 * Suc k) v'" if "k < bench_N + 100" "space fresh (2 * k) v" for k v
      using bench_allowed[OF b1 that(2)] that(1) N by simp
  qed (use assms(1) in \<open>simp_all add: clocks_def space_def deque_of_def\<close>)
  then obtain v1 where v1: "bench (bench_labels ! 0) bench_N ?f1 (w, out @ [bench_header]) =
      (Inr (), (v1, out @ [bench_header, ?line 0]))" "?at 1 v1" by auto
  have "\<exists>v. bench (bench_labels ! 1) bench_N (deny_call b2) (v1, out @ [bench_header, ?line 0]) =
      (Inr (), (v, (out @ [bench_header, ?line 0]) @ [?line 1])) \<and> ?at (Suc 1) v"
    by (rule bench_turn[OF v1(2) keeps_deny_call[OF b2], where P = "\<lambda>k v. True"]) (simp_all add: deny_call_ok[OF b2])
  then obtain v2 where v2: "bench (bench_labels ! 1) bench_N (deny_call b2) (v1, out @ [bench_header, ?line 0]) =
      (Inr (), (v2, out @ [bench_header, ?line 0, ?line 1]))" "?at 2 v2" by auto
  have "\<exists>v. bench (bench_labels ! 2) bench_N (issue_and_verify ?i1) (v2, out @ [bench_header, ?line 0, ?line 1]) =
      (Inr (), (v, (out @ [bench_header, ?line 0, ?line 1]) @ [?line 2])) \<and> ?at (Suc 2) v"
  proof (rule bench_turn[OF v2(2), where P = "\<lambda>k v. wall v = wall w"])
    show "keeps clocks (issue_and_verify ?i1)"
      unfolding issue_and_verify_def by (intro keeps_bindE keeps_issue keeps_verify)
    then show "\<exists>v'. issue_and_verify ?i1 v = (Inr (), v') \<and> wall v' = wall w" if "wall v = wall w" for k and v :: "'w bench_world_scheme"
      using issue_and_verify_ok[of v ?i1] assms(2) that by (fastforce simp: clocks_def dest: keepsE)
  qed (use v2(2) in \<open>simp_all add: clocks_def\<close>)
  then obtain v3 where v3: "bench (bench_labels ! 2) bench_N (issue_and_verify ?i1) (v2, out @ [bench_header, ?line 0, ?line 1]) =
      (Inr (), (v3, out @ [bench_header, ?line 0, ?line 1, ?line 2]))" "?at 3 v3" by auto
  have "\<exists>v. bench (bench_labels ! 3) bench_N ?f4 (v3, out @ [bench_header, ?line 0, ?line 1, ?line 2]) =
      (Inr (), (v, (out @ [bench_header, ?line 0, ?line 1, ?line 2]) @ [?line 3])) \<and> ?at (Suc 3) v"
  proof (rule bench_turn[OF v3(2), where P = "\<lambda>k v. True"])
    show "keeps clocks ?f4"
      unfolding check_and_authorize_def bench_fields(15)[OF b4] option.case
      by (intro keeps_bindE keeps_thenE keeps_issue keeps_returnE clocks_check[OF bench_fields(11,12,14)[OF b4]])
    show "\<exists>v'. ?f4 v = (Inr (), v') \<and> True" for v
    proof -
      obtain v1 where "check b4 (usage_request ''crm_api'' None READ_ONLY PNone) v = (Inr (), v1)"
        using bench_unlimited[OF b4] by blast
      then obtain t v2 where "check_and_authorize b4 (usage_request ''crm_api'' None READ_ONLY PNone) v = (Inr t, v2)"
        using check_and_authorize_ok[OF bench_fields(15)[OF b4], of "usage_request ''crm_api'' None READ_ONLY PNone" v] by auto
      then show ?thesis by (simp add: bindE_Inr)
    qed
  qed simp_all
  then obtain v4 where v4: "bench (bench_labels ! 3) bench_N ?f4 (v3, out @ [bench_header, ?line 0, ?line 1, ?line 2]) =
      (Inr (), (v4, out @ [bench_header, ?line 0, ?line 1, ?line 2, ?line 3]))" by auto
  have l: "bench_labels ! 0 = ''Boundary.check() [ALLOW path]''"
    "bench_labels ! 1 = ''Boundary.check() [DENY path, incl. exception]''"
    "bench_labels ! 2 = ''TokenIssuer.issue() + .verify() combined''"
    "bench_labels ! 3 = ''Boundary.check_and_authorize() [full ALLOW + token issuance]''"
    by (simp_all add: bench_labels_def)
  have "benchmark fresh (w, out) = (Inr (), (v4, out @ [bench_header, ?line 0, ?line 1, ?line 2, ?line 3, bench_footer]))"
    using v1(1) v2(1) v3(1) v4 unfolding l
    by (simp add: benchmark_def b1 b2 b4 iss thenE_def bindE_def print_text_def printing_def)
  then show ?thesis by (simp add: bench_text_def bench_N_def)
qed

definition bench_sample :: bench_world where
  "bench_sample = world.extend sample_world (bench_world.fields of_nat 0)"

theorem benchmark_completes_witness:
  "\<exists>w' texts. benchmark 0 (bench_sample, []) = (Inr (), (w', bench_header # texts @ [bench_footer])) \<and> length texts = 4"
proof -
  have f: "wall bench_sample = (\<lambda>k. 1000)" "limiters bench_sample = (\<lambda>k. Map.empty)"
    by (simp_all add: bench_sample_def sample_world_def world.defs bench_world.defs)
  have "space 0 0 bench_sample" by (simp add: space_def deque_of_def f)
  moreover have "\<not> flt (fadd (Fin (wall bench_sample k)) (Fin 30)) (Fin (wall bench_sample (Suc k)))" for k
    by (simp add: f round_double_numeral)
  ultimately obtain w' where "benchmark 0 (bench_sample, []) = (Inr (), (w', [] @ [bench_header] @
      map (\<lambda>i. bench_line (bench_labels ! i) 20000 (fsub (Fin (perf bench_sample (perf_ix bench_sample + 2 * i + 1)))
        (Fin (perf bench_sample (perf_ix bench_sample + 2 * i))))) [0, 1, 2, 3] @ [bench_footer]))"
    using benchmark_completes[of 0 bench_sample "[]"] by blast
  then show ?thesis by (intro exI[of _ w']) (force simp del: list.map)
qed

end
