(* ===== verification/Server_Lifecycle.thy ===== *)
theory Server_Lifecycle
  imports Network_Safety
begin

text \<open>
  The life of the proxy's server (\<open>start\<close> and \<open>stop\<close> of \<open>network.py\<close>) as a step relation over the
  enforcer, the world and the sockets that are being served, and the methods its handler serves.
\<close>

section \<open>The methods\<close>

text \<open>\<open>http.server\<close> calls \<open>do_<command>\<close>, and answers 501 with a page of its own when there is none.\<close>

definition do_methods :: "string list" where
  "do_methods = [''GET'', ''POST'', ''PUT'', ''PATCH'', ''DELETE'']"

definition unsupported_method :: "(string \<Rightarrow> string) \<Rightarrow> string \<Rightarrow> http_reply" where
  "unsupported_method page command = (let body = page (''Unsupported method ('' @ repr_str command @ '')'')
     in \<lparr>rp_status = 501, rp_headers = [(''Connection'', ''close''), (''Content-Type'', ''text/html;charset=utf-8''),
          (''Content-Length'', str_of_int (int (length body)))],
        rp_body = (if command = ''HEAD'' then [] else body), rp_close = True\<rparr>)"

definition serve_request ::
  "(string \<Rightarrow> string) \<Rightarrow> 'w enforcer \<Rightarrow> 'w upstream \<Rightarrow> http_request \<Rightarrow> ('w world_scheme, exn, http_reply) eff" where
  "serve_request page self up rq = (if hr_command rq \<in> set do_methods then handle self up rq
     else returnE (unsupported_method page (hr_command rq)))"

lemma other_methods_do_nothing:
  "hr_command rq \<notin> set do_methods \<Longrightarrow>
    serve_request page self up rq w = (Inr (unsupported_method page (hr_command rq)), w)"
  by (simp add: serve_request_def)

section \<open>Starting and stopping\<close>

text \<open>The addresses with a serving socket. A port in use is refused; port 0, with which the system
  chooses one, is left out.\<close>

type_synonym 'w life = "('w enforcer \<times> 'w world_scheme) \<times> (string \<times> int) list"

definition bind_on :: "(string \<times> int) list \<Rightarrow> string \<Rightarrow> int \<Rightarrow> exn + unit" where
  "bind_on serving host port = (if (host, port) \<in> set serving
     then Inl (Foreign (PyExc ''OSError'' ''[Errno 98] Address already in use'') True) else Inr ())"

definition start_on :: "string \<Rightarrow> int \<Rightarrow> ('w life, exn, unit) eff" where
  "start_on host port s = (case start_server (bind_on (snd s)) host port (fst s) of
     (Inl e, t) \<Rightarrow> (Inl e, (t, snd s)) | (Inr u, t) \<Rightarrow> (Inr u, (t, (host, port) # snd s)))"

text \<open>\<open>shutdown\<close> and \<open>server_close\<close> of the server the enforcer knows.\<close>

definition stop_on :: "('w life, exn, unit) eff" where
  "stop_on s = (Inr (), ((stop_server (fst (fst s)), snd (fst s)),
     (case en_server (fst (fst s)) of None \<Rightarrow> snd s | Some a \<Rightarrow> remove1 a (snd s))))"

inductive life_step :: "'w life \<Rightarrow> 'w life \<Rightarrow> bool" where
  starting: "start_on host port s = (r, t) \<Longrightarrow> life_step s t"
| stopping: "stop_on s = (r, t) \<Longrightarrow> life_step s t"

inductive_cases life_stepE: "life_step s t"

text \<open>A host program that starts a stopped enforcer only.\<close>

inductive careful_step :: "'w life \<Rightarrow> 'w life \<Rightarrow> bool" where
  careful_start: "start_on host port s = (r, t) \<Longrightarrow> \<not> is_running (fst (fst s)) \<Longrightarrow> careful_step s t"
| careful_stop: "stop_on s = (r, t) \<Longrightarrow> careful_step s t"

lemma start_on_cases:
  assumes "start_on host port s = (r, t)"
  obtains (bound) u where "r = Inr u" "(host, port) \<notin> set (snd s)" "snd t = (host, port) # snd s"
      "en_server (fst (fst t)) = Some (host, port)" "en_thread (fst (fst t))"
  | (refused) e where "r = Inl e" "t = s" "(host, port) \<in> set (snd s)"
proof (cases "(host, port) \<in> set (snd s)")
  case True
  then show thesis
    using assms refused by (cases s) (auto simp: start_on_def start_server_def bind_on_def)
next
  case False
  then show thesis
    using assms bound by (cases s) (auto simp: start_on_def start_server_def bind_on_def)
qed

lemma stop_on_state:
  assumes "stop_on s = (r, t)"
  shows "en_server (fst (fst t)) = None" "\<not> en_thread (fst (fst t))"
    "snd t = (case en_server (fst (fst s)) of None \<Rightarrow> snd s | Some a \<Rightarrow> remove1 a (snd s))"
  using assms by (auto simp: stop_on_def stop_server_def)

text \<open>What every step keeps: the sockets are distinct, and a known server serves.\<close>

definition life_ok :: "'w life \<Rightarrow> bool" where
  "life_ok s \<longleftrightarrow> distinct (snd s) \<and> set_option (en_server (fst (fst s))) \<subseteq> set (snd s) \<and>
     en_thread (fst (fst s)) = is_running (fst (fst s))"

lemma life_step_ok: "life_step s t \<Longrightarrow> life_ok s \<Longrightarrow> life_ok t"
proof (induction rule: life_step.induct)
  case (starting host port s r t)
  from starting(1) show ?case
    using starting(2) by (cases rule: start_on_cases) (auto simp: life_ok_def is_running_def)
next
  case (stopping s r t)
  from stop_on_state[OF stopping(1)] show ?case
    using stopping(2) by (auto simp: life_ok_def is_running_def split: option.splits)
qed

lemma life_steps_ok: "life_step\<^sup>*\<^sup>* s t \<Longrightarrow> life_ok s \<Longrightarrow> life_ok t"
  by (induction rule: rtranclp_induct) (auto intro: life_step_ok)

text \<open>A server that a step leaves unknown to the enforcer while it serves is never stopped.\<close>

definition orphaned :: "string \<times> int \<Rightarrow> 'w life \<Rightarrow> bool" where
  "orphaned a s \<longleftrightarrow> a \<in> set (snd s) \<and> en_server (fst (fst s)) \<noteq> Some a"

lemma life_step_orphaned: "life_step s t \<Longrightarrow> orphaned a s \<Longrightarrow> orphaned a t"
proof (induction rule: life_step.induct)
  case (starting host port s r t)
  from starting(1) show ?case
    using starting(2) by (cases rule: start_on_cases) (auto simp: orphaned_def)
next
  case (stopping s r t)
  from stop_on_state[OF stopping(1)] show ?case
    using stopping(2) by (auto simp: orphaned_def in_set_remove1 split: option.splits)
qed

lemma careful_is_step: "careful_step s t \<Longrightarrow> life_step s t"
  by (induction rule: careful_step.induct) (auto intro: life_step.intros)

text \<open>With a careful host nothing but the known server serves: from a fresh enforcer, as long as
  \<open>start\<close> is called on a stopped one only, the serving sockets are exactly the one of the running
  server, and none after \<open>stop\<close>.\<close>

lemma careful_host_leaves_nothing:
  assumes "careful_step\<^sup>*\<^sup>* s t" "en_server (fst (fst s)) = None" "snd s = []"
  shows "snd t = (case en_server (fst (fst t)) of None \<Rightarrow> [] | Some a \<Rightarrow> [a])"
  using assms
proof (induction rule: rtranclp_induct)
  case (step t u)
  from step(2) show ?case
  proof cases
    case (careful_start host port r)
    from careful_start(1) show ?thesis
      using step careful_start(2) by (cases rule: start_on_cases) (auto simp: is_running_def split: option.splits)
  next
    case (careful_stop r)
    from stop_on_state[OF this] show ?thesis using step by (auto split: option.splits)
  qed
qed simp

section \<open>Properties\<close>

text \<open>C31: Starting a running enforcer again loses its first server: when \<open>start\<close> succeeds on another
  address while a server runs, that server is replaced without being stopped, and no sequence of
  starts and stops ever closes its socket: it goes on serving, although the enforcer says it is not
  running after \<open>stop\<close>, and its address cannot be bound again.\<close>

theorem restart_leaks_the_first_server:
  assumes "en_server self = Some a" "a \<in> set serving"
    and "start_on host port ((self, w), serving) = (Inr u, s)" "life_step\<^sup>*\<^sup>* s t"
  shows "a \<in> set (snd t) \<and> en_server (fst (fst t)) \<noteq> Some a \<and>
    (\<forall>t'. stop_on t = (Inr (), t') \<longrightarrow> \<not> is_running (fst (fst t')) \<and> a \<in> set (snd t')) \<and>
    (\<exists>e. start_on (fst a) (snd a) t = (Inl e, t))"
proof -
  from assms(3) have "orphaned a s"
    using assms(1,2) by (cases rule: start_on_cases) (auto simp: orphaned_def)
  with assms(4) have o: "orphaned a t"
    by (induction rule: rtranclp_induct) (auto intro: life_step_orphaned)
  have "orphaned a t'" "\<not> is_running (fst (fst t'))" if "stop_on t = (Inr (), t')" for t'
    using life_step_orphaned[OF stopping[OF that] o] stop_on_state[OF that] by (simp_all add: is_running_def)
  moreover obtain r t' where s: "start_on (fst a) (snd a) t = (r, t')" by (cases "start_on (fst a) (snd a) t")
  from s have "\<exists>e. start_on (fst a) (snd a) t = (Inl e, t)"
    using s o by (cases rule: start_on_cases) (auto simp: orphaned_def)
  ultimately show ?thesis using o by (auto simp: orphaned_def)
qed

theorem restart_leaks_the_first_server_witness:
  "\<exists>s t u. start_on ''127.0.0.1'' 8765 ((sample_enforcer, proxy_world), []) = (Inr (), s) \<and>
     start_on ''127.0.0.1'' 8766 s = (Inr (), t) \<and> stop_on t = (Inr (), u) \<and>
     \<not> is_running (fst (fst u)) \<and> (''127.0.0.1'', 8765) \<in> set (snd u)"
proof -
  obtain s where s: "start_on ''127.0.0.1'' 8765 ((sample_enforcer, proxy_world), []) = (Inr (), s)"
    "en_server (fst (fst s)) = Some (''127.0.0.1'', 8765)" "snd s = [(''127.0.0.1'', 8765)]"
    by (simp add: start_on_def start_server_def bind_on_def)
  then obtain self w where s': "s = ((self, w), [(''127.0.0.1'', 8765)])" by (metis prod.collapse)
  obtain t where t: "start_on ''127.0.0.1'' 8766 s = (Inr (), t)"
    by (simp add: s' start_on_def start_server_def bind_on_def)
  obtain u where u: "stop_on t = (Inr (), u)" by (simp add: stop_on_def)
  have "\<not> is_running (fst (fst u)) \<and> (''127.0.0.1'', 8765) \<in> set (snd u)"
    using restart_leaks_the_first_server[of self "(''127.0.0.1'', 8765)" "[(''127.0.0.1'', 8765)]" "''127.0.0.1''" 8766 w "()" t t]
      s(2) t u by (auto simp: s')
  then show ?thesis using s(1) t u by blast
qed

end
