(* ===== verification/Authorization_Threads.thy ===== *)
theory Authorization_Threads
  imports Boundary_Flow
begin

text \<open>
  The guard of \<open>record_execution\<close> under threads. It reads \<open>consumed\<close> and sets it in two
  statements without a lock, so other threads run in between; the rest of the method works on
  values of its own.
\<close>

section \<open>The steps\<close>

datatype record_pc =
    Called
  | Passed \<comment> \<open>has found the authorization unused\<close>
  | Recording \<comment> \<open>has marked it as consumed and goes on to record\<close>
  | Turned_Away \<comment> \<open>has raised \<open>AuthorizationConsumed\<close>\<close>

record record_threads =
  rt_pc :: "nat \<Rightarrow> record_pc"
  rt_authorization :: authorization_context

definition record_start :: "authorization_context \<Rightarrow> record_threads" where
  "record_start a = \<lparr>rt_pc = (\<lambda>_. Called), rt_authorization = a\<rparr>"

definition at_pc :: "record_threads \<Rightarrow> nat \<Rightarrow> record_pc \<Rightarrow> record_threads" where
  "at_pc s p pc = s\<lparr>rt_pc := (rt_pc s)(p := pc)\<rparr>"

inductive record_step :: "record_threads \<Rightarrow> record_threads \<Rightarrow> bool" where
  test: "rt_pc s p = Called \<Longrightarrow>
    record_step s (at_pc s p (if ac_consumed (rt_authorization s) then Turned_Away else Passed))"
| mark: "rt_pc s p = Passed \<Longrightarrow>
    record_step s (at_pc (s\<lparr>rt_authorization := mark_consumed (rt_authorization s)\<rparr>) p Recording)"

text \<open>The two statements of one thread without another in between are the guard of the method.\<close>

definition record_alone :: "nat \<Rightarrow> record_threads \<Rightarrow> record_threads" where
  "record_alone p s = (if ac_consumed (rt_authorization s) then at_pc s p Turned_Away
     else at_pc (s\<lparr>rt_authorization := mark_consumed (rt_authorization s)\<rparr>) p Recording)"

lemma at_pc_fields [simp]:
  "rt_pc (at_pc s p pc) q = (if q = p then pc else rt_pc s q)"
  "rt_authorization (at_pc s p pc) = rt_authorization s"
  by (simp_all add: at_pc_def)

lemma record_alone_steps:
  assumes "rt_pc s p = Called"
  shows "record_step\<^sup>*\<^sup>* s (record_alone p s)"
proof (cases "ac_consumed (rt_authorization s)")
  case True
  then show ?thesis using test[OF assms] by (simp add: record_alone_def r_into_rtranclp)
next
  case False
  have "record_step s (at_pc s p Passed)" using test[OF assms] False by simp
  moreover have "record_step (at_pc s p Passed) (record_alone p s)"
    using mark[of "at_pc s p Passed" p] False by (simp add: record_alone_def at_pc_def)
  ultimately show ?thesis by simp
qed

text \<open>In any interleaving a recording thread leaves the authorization marked, and who tests after
  that is turned away.\<close>

definition record_ok :: "record_threads \<Rightarrow> bool" where
  "record_ok s \<longleftrightarrow> (\<forall>p. rt_pc s p = Recording \<longrightarrow> ac_consumed (rt_authorization s))"

lemma record_steps_ok: "record_step\<^sup>*\<^sup>* s t \<Longrightarrow> record_ok s \<Longrightarrow> record_ok t"
proof (induction rule: rtranclp_induct)
  case (step t u)
  from step(2) show ?case using step(3,4) by cases (auto simp: record_ok_def)
qed simp

lemma called_after_recording:
  assumes "record_step\<^sup>*\<^sup>* (record_start a) s" "rt_pc s q = Recording" "rt_pc s p = Called" "record_step s t" "rt_pc t p \<noteq> Called"
  shows "rt_pc t p = Turned_Away"
proof -
  have "record_ok (record_start a)" by (simp add: record_ok_def record_start_def)
  then have c: "ac_consumed (rt_authorization s)"
    using record_steps_ok[OF assms(1)] assms(2) by (auto simp: record_ok_def)
  from assms(4) show ?thesis using c assms(3,5) by cases (auto split: if_splits)
qed

text \<open>Threads that run one after the other: the first records, all others are turned away.\<close>

lemma one_after_the_other:
  assumes "distinct (p # ps)" "\<not> ac_consumed a" "q \<in> set (p # ps)"
  shows "rt_pc (fold record_alone (p # ps) (record_start a)) q = (if q = p then Recording else Turned_Away)"
proof -
  have rest: "ac_consumed (rt_authorization s) \<Longrightarrow> distinct qs \<Longrightarrow>
      rt_pc (fold record_alone qs s) q = (if q \<in> set qs then Turned_Away else rt_pc s q)" for s qs
    by (induction qs arbitrary: s) (auto simp: record_alone_def)
  have "record_alone p (record_start a) =
      at_pc (record_start a\<lparr>rt_authorization := mark_consumed a\<rparr>) p Recording"
    using assms(2) by (simp add: record_alone_def record_start_def)
  then show ?thesis using rest[of "record_alone p (record_start a)" ps] assms by auto
qed

section \<open>Properties\<close>

text \<open>C32: A fresh authorization can be recorded any number of times: for every finite set of threads that
  call \<open>record_execution\<close> with it, there is an interleaving in which all of them find it unused, and
  all go on to record, although no call made after the first of them has marked it passes.\<close>

theorem threads_record_twice:
  assumes "\<not> ac_consumed a" "finite P"
  shows "\<exists>s. record_step\<^sup>*\<^sup>* (record_start a) s \<and> (\<forall>p. rt_pc s p = (if p \<in> P then Recording else Called))"
proof -
  have "\<exists>s. record_step\<^sup>*\<^sup>* (record_start a) s \<and> \<not> ac_consumed (rt_authorization s) \<and>
      (\<forall>p. rt_pc s p = (if p \<in> P then Passed else Called))"
    using assms(2)
  proof (induction rule: finite_induct)
    case empty
    then show ?case using assms(1) by (intro exI[of _ "record_start a"]) (simp add: record_start_def)
  next
    case (insert q Q)
    then obtain s where s: "record_step\<^sup>*\<^sup>* (record_start a) s" "\<not> ac_consumed (rt_authorization s)"
      "\<forall>p. rt_pc s p = (if p \<in> Q then Passed else Called)" by blast
    then have "record_step s (at_pc s q Passed)" using test[of s q] insert(2) by simp
    then show ?case using s by (intro exI[of _ "at_pc s q Passed"]) auto
  qed
  then obtain s where s: "record_step\<^sup>*\<^sup>* (record_start a) s" "\<forall>p. rt_pc s p = (if p \<in> P then Passed else Called)" by blast
  have "\<exists>t. record_step\<^sup>*\<^sup>* s t \<and> (\<forall>p. rt_pc t p = (if p \<in> Q then Recording else rt_pc s p))" if "finite Q" "Q \<subseteq> P" for Q
    using that
  proof (induction rule: finite_induct)
    case (insert q Q)
    then obtain t where t: "record_step\<^sup>*\<^sup>* s t" "\<forall>p. rt_pc t p = (if p \<in> Q then Recording else rt_pc s p)" by blast
    then have "rt_pc t q = Passed" using insert s(2) by auto
    from mark[OF this] show ?case
      using t by (intro exI[of _ "at_pc (t\<lparr>rt_authorization := mark_consumed (rt_authorization t)\<rparr>) q Recording"]) (auto simp: at_pc_def)
  qed auto
  from this[OF assms(2) subset_refl] obtain t where
    "record_step\<^sup>*\<^sup>* s t" "\<forall>p. rt_pc t p = (if p \<in> P then Recording else rt_pc s p)" by blast
  then show ?thesis using s by (intro exI[of _ t]) auto
qed

theorem threads_record_twice_witness:
  "\<exists>s. record_step\<^sup>*\<^sup>* (record_start (sample_authorization None)) s \<and> rt_pc s 0 = Recording \<and> rt_pc s 1 = Recording"
proof -
  have "\<not> ac_consumed (sample_authorization None)" by (simp add: sample_authorization_def)
  from threads_record_twice[OF this, of "{0, 1}"] show ?thesis by auto
qed

end
