(* ===== verification/Spec2Isabelle.thy ===== *)
theory Spec2Isabelle
  imports Decorators Boundary_History Token_Wire Canonical_Form Network_Verdict Redis_Safety
    Redis_Reset Redis_Equivalence Replicas Rate_Threads Framework_Adapters Frozen_Store AgentKey Example_Usage Example_AgentKey Example_Network
    Example_Benchmark Server_Lifecycle Authorization_Threads
begin

text \<open>
  A verification library for ToolBoundary, the policy layer between an AI agent and its tools
  (\<open>src/src/toolboundary/\<close>).

  \<^bold>\<open>The program.\<close> A \<^emph>\<open>boundary\<close> (\<open>boundary.py\<close>) judges a prospective tool call by thirteen checks in a
  fixed order and audits the decision. It may mint a signed token for an allowed call
  (\<open>tokens.py\<close>), which a local proxy (\<open>network.py\<close>) demands before it forwards a request, once per
  token; the ledger of used tokens and the sliding-window limiter live in memory
  (\<open>_rate_limiter.py\<close>) or in Redis (\<open>redis_backend.py\<close>). With an evidence provider (\<open>provider.py\<close>,
  \<open>integrations/agentkey.py\<close>) an allowed call is frozen, digested (\<open>evidence.py\<close>), authorized by the
  provider and recorded after it ran. A decorator (\<open>decorators.py\<close>) and two adapters
  (\<open>integrations/langchain.py\<close>, \<open>integrations/crewai.py\<close>) put the boundary in front of functions and
  framework tools. Four scripts (\<open>src/examples/\<close>) put the parts together.

  \<^bold>\<open>The model.\<close> A function with effects is a state transformer with a sum result (\<open>eff\<close>, theory
  \<open>Prelude\<close>): \<open>Inl\<close> an exception, \<open>Inr\<close> a value, the state kept in both. The state is the record
  \<open>world\<close> (\<open>Policy_Types\<close>): streams of clock readings and identifiers with the position reached,
  environment variables, files, log lines, the state of the in-memory limiters. Components with
  state of their own extend it: \<open>ledger_world\<close> the used tokens, \<open>served_world\<close> the Redis server,
  \<open>ak_world\<close> the pending calls of AgentKey. Hooks, sinks, limiters, providers, wrapped functions,
  upstream servers and clients are parameters: functions on any extension of the world.

  \<^bold>\<open>The theories.\<close>
  \<^item> \<open>Prelude\<close>: effects, Python strings, generic lemmas. \<open>Py_Float\<close>, \<open>Py_Float_Text\<close>, \<open>Py_Text\<close>,
    \<open>Py_Json\<close>, \<open>Py_Json_Parse\<close>, \<open>Py_Hash\<close>, \<open>Py_Url\<close>: what the program uses of Python's floats (doubles as
    rationals with infinities and NaN, \<open>repr\<close>), strings, \<open>json\<close>, \<open>hashlib\<close>/\<open>hmac\<close>/\<open>base64\<close> (SHA-256 on
    32-bit words) and \<open>urllib.parse\<close>.
  \<^item> \<open>Policy_Types\<close>: \<open>enums.py\<close>, \<open>permissions.py\<close>, \<open>exceptions.py\<close> and the world.
  \<^item> \<open>Rate_Limiter\<close>, \<open>Audit_Trail\<close>, \<open>Evidence\<close>, \<open>Tokens\<close>, \<open>Redact\<close>: \<open>_rate_limiter.py\<close>, \<open>audit.py\<close>,
    \<open>provider.py\<close> with \<open>evidence.py\<close>, \<open>tokens.py\<close>, \<open>_redact.py\<close>.
  \<^item> \<open>Boundary_Policy\<close>: the \<open>Boundary\<close> object, its checks, \<open>check\<close> and \<open>evaluate\<close> (the code lists the
    thirteen checks in both, so \<open>local_checks\<close> and \<open>evaluate_checks\<close> are two definitions),
    \<open>check_and_authorize\<close>; \<open>Boundary_Decision\<close>: their properties against the ordered list of rules
    \<open>static_rules\<close>, the abstract policy; \<open>Boundary_Rate\<close>: the hourly limits over sequences of checks;
    \<open>Boundary_Shape\<close>: the invariant of the object and the errors \<open>check\<close> may raise;
    \<open>Boundary_History\<close>: checks in between the changes a host makes to the boundary and the
    environment, as moves of the world, with the limit and the switch over all of them;
    \<open>Boundary_Flow\<close>: \<open>authorize_call\<close> and \<open>record_execution\<close>.
  \<^item> \<open>Rate_Threads\<close>: \<open>check_and_record\<close> of the in-memory limiter as the steps of threads around its
    lock, an inductive step relation with its invariant. \<open>Authorization_Threads\<close>: the guard of
    \<open>record_execution\<close> as the steps of threads, which has no lock.
  \<^item> \<open>Json_Roundtrip\<close>, \<open>Token_Wire\<close>, \<open>Canonical_Form\<close>: parsing inverts printing; the wire form of
    tokens; the digest of calls.
  \<^item> \<open>Token_Ledger\<close>: the locale \<open>single_use\<close> of what a ledger promises, its in-memory
    interpretation, and the steps of concurrent threads. \<open>Network_Target\<close>, \<open>Network\<close>,
    \<open>Network_Safety\<close>: target resolution, the proxy, its properties. \<open>Network_Verdict\<close>: the
    proxy's answers against the ordered list of reasons to refuse. \<open>Server_Lifecycle\<close>: \<open>start\<close>, \<open>stop\<close>
    and the methods served, a step relation over the enforcer and the open sockets.
  \<^item> \<open>Redis_Backend\<close>, \<open>Redis_Safety\<close>: the two Redis classes and their scripts; the locale
    \<open>redis_behaviour\<close> states what Redis documents of its commands, sublocales give the sliding window
    and the ledger contract, and an in-memory server interprets them. \<open>Redis_Reset\<close>: the scan loop
    of \<open>reset\<close>. \<open>Redis_Equivalence\<close>: the Redis limiter against the in-memory one, answer by
    answer. \<open>Replicas\<close>: boundaries of several processes on one server as an inductive step
    relation, in which the reading of the clock, the script and the reply of a call are steps of
    their own and replies may get lost.
  \<^item> \<open>Decorators\<close>, \<open>Framework_Adapters\<close>: \<open>decorators.py\<close> with the argument binding of \<open>inspect\<close>; the two
    adapters. \<open>AgentKey\<close>: the AgentKey provider. \<open>Frozen_Store\<close>: the guarded call on references into a
    store of mutable lists and dictionaries, and when it is the call on values of the other theories.
  \<^item> \<open>Example_Usage\<close>, \<open>Example_AgentKey\<close>, \<open>Example_Network\<close>, \<open>Example_Benchmark\<close>: the scripts of those
    names under \<open>src/examples/\<close>, run on the model, with the texts they print.

  \<^bold>\<open>What the properties show.\<close> The decision: \<open>check\<close> reports the
  first violated rule of the ordered policy, allows exactly when every rule holds, logs each
  decision once, and \<open>evaluate\<close> agrees with it; its errors are the documented ones;
  limits hold over every history, across replicas on one Redis server, and for any interleaving of
  threads in the order of their clock readings. Evidence: an authorization is for the exact call,
  single use, and its record survives provider failures; digests bind calls up to the order of keys
  and the types JSON forgets. Tokens and proxy: issued tokens cross the wire unchanged, speak for
  one call, open one route once, and nothing else reaches an upstream; the proxy answers with the
  first reason to refuse; targets stay below their base. Back ends: the limit and single use hold
  across replicas, the Redis limiter answers as the in-memory one, \<open>reset\<close> ends, and the Redis
  classes fail closed. Audit metadata is blind to secrets.
  Integration: refused calls are not executed, arguments reach the policy, AgentKey records what it
  authorized, and the example scripts print what they announce in every world that meets their
  stated assumptions. A tool runs on the arguments that were digested, as long as nothing changes
  the objects they refer to before. Several theorems state defects: concurrent marks, authorizations
  recorded twice by threads, a server lost by a second \<open>start\<close>, a limit exceeded by a
  thread that waits for the lock or a replica that waits for the server, a missing answer of a
  provider taken for consent, replies that are never sent, calls that stay pending, digests that
  forget types, frozen calls whose arguments change with the objects.

  \<^bold>\<open>Bounds and termination.\<close> Loops are structural recursions, so every operation returns; the JSON
  parser carries fuel, the length of the text, and parses whatever the printer prints. The
  cursor loop of the Redis \<open>reset\<close> is a partial function; that it ends is a theorem for servers
  whose iterations come back to the cursor 0 while no keys are added, as Redis documents. Characters are the code points 0 to 255. Integers print up to Python's limit of 4300
  digits.

  \<^bold>\<open>Approximations.\<close> A bound of more than 4300 digits, which is no float as annotated, prints in the
  message of \<open>check_value_limit\<close> and \<open>check_record_limit\<close> where Python would raise, and a value of
  \<open>-0.0\<close> prints as \<open>0.0\<close>. \<open>redis_mark\<close>, the abstract step on the server, answers refusal where the
  conversions of the method raise before anything is sent. A key whose deadline is the present
  counts as expired on the server. \<open>COUNT\<close> is a hint to \<open>SCAN\<close> and left to the server. \<open>asdict\<close> copies
  values without failing. The call of an AgentKey client is repeated on a \<open>TypeError\<close> of that very
  class. \<open>Frozen_Store\<close> dispatches the function on its bound arguments. \<open>json_loads\<close> refuses what lies outside
  the code points 0 to 255.

  \<^bold>\<open>Not modelled.\<close> Sockets, \<open>http.server\<close> and \<open>urlopen\<close> (the handler gets a parsed request and a
  function as upstream; redirects that \<open>urlopen\<close> follows on its own are outside); debug log lines;
  the debug diagnostics of a failed sink; the import of framework packages; attributes the adapters
  copy for their frameworks; re-exports (\<open>__init__.py\<close>) and tests. Outside \<open>Frozen_Store\<close> arguments are values. Arguments
  of another type than their annotation, where the code would carry them on, end in an exception
  of the model's own (\<open>out_of_model\<close>).
\<close>

end
